(* ===== verification/Go_Prelude.thy ===== *)
theory Go_Prelude
  imports Main "HOL-Library.Word" "HOL-Library.Monad_Syntax"
begin

unbundle bit_operations_syntax

text \<open>
  What the components share: the Go types the model uses (bytes, byte slices, strings, the
  64-bit \<open>int\<close>), the wrap-around of \<open>int\<close> addition, checked indexing, and the small theory of
  a byte string occurring at an offset of a buffer, which the decoders' proofs are built on.
\<close>

section \<open>Types and collections\<close>

type_synonym byte = "8 word"
type_synonym bytes = "8 word list"
type_synonym u64 = "64 word"
type_synonym i64 = "64 word"
type_synonym i32 = "32 word"

text \<open>
  \<open>emit_rules\<close> holds one rule per writer operation of the marshalling code, \<open>parse_simps\<close> one
  equation per reader operation on well-formed input.
\<close>

named_theorems emit_rules "what a backward writer emits"
named_theorems parse_simps "what a reader returns on an encoded value"

text \<open>A Go string is a byte sequence; a literal is written with the ASCII codes of its characters.\<close>

abbreviation str :: "string \<Rightarrow> bytes" where
  "str s \<equiv> map of_char s"

section \<open>Go's 64-bit int\<close>

text \<open>
  \<open>int\<close> is a 64-bit two's complement integer (the size on every platform the program is run on).
  An \<open>int\<close> value is modelled by the HOL integer it stands for; an addition that can overflow is
  \<open>go_add\<close>, which wraps.
\<close>

definition go_int :: "u64 \<Rightarrow> int" where
  "go_int w = sint w"

definition go_add :: "int \<Rightarrow> int \<Rightarrow> int" where
  "go_add a b = sint (word_of_int (a + b) :: i64)"

definition go_max_int :: nat where
  "go_max_int = 2 ^ 63"

text \<open>The length of a slice is an \<open>int\<close>, so a slice has fewer than \<open>2 ^ 63\<close> elements.\<close>

definition go_slice :: "'a list \<Rightarrow> bool" where
  "go_slice xs \<longleftrightarrow> length xs < 2 ^ 63"

lemma sint_word_of_int_64:
  assumes "- (2 ^ 63) \<le> a" and "a < 2 ^ 63"
  shows "sint (word_of_int a :: i64) = a"
  using assms by (simp add: signed_take_bit_int_eq_self sint_sbintrunc')

lemma go_add_eq: "- (2 ^ 63) \<le> a + b \<Longrightarrow> a + b < 2 ^ 63 \<Longrightarrow> go_add a b = a + b"
  unfolding go_add_def by (rule sint_word_of_int_64)

lemma go_add_nat:
  assumes "0 \<le> a" and "0 \<le> b" and "a + b < 2 ^ 63"
  shows "go_add a b = a + b"
  using assms by (intro go_add_eq) auto

text \<open>A sum of two non-negative \<open>int\<close>s that overflows is negative: the code's overflow checks work.\<close>

lemma go_add_overflow_neg:
  assumes "0 \<le> a" "a < 2 ^ 63" "0 \<le> b" "b < 2 ^ 63" "2 ^ 63 \<le> a + b"
  shows "go_add a b < 0"
proof -
  have "word_of_int (a + b - 2 ^ 64) = (word_of_int (a + b) - word_of_int (2 ^ 64) :: i64)"
    by (rule wi_hom_sub [symmetric])
  then have "word_of_int (a + b) = (word_of_int (a + b - 2 ^ 64) :: i64)"
    by simp
  moreover have "sint (word_of_int (a + b - 2 ^ 64) :: i64) = a + b - 2 ^ 64"
    using assms by (intro sint_word_of_int_64) auto
  ultimately have "go_add a b = a + b - 2 ^ 64"
    by (simp only: go_add_def)
  with assms show ?thesis by simp
qed

lemma go_add_nonneg_iff:
  assumes "0 \<le> a" "a < 2 ^ 63" "0 \<le> b" "b < 2 ^ 63"
  shows "0 \<le> go_add a b \<longleftrightarrow> a + b < 2 ^ 63"
  using go_add_overflow_neg [OF assms] go_add_nat [of a b] assms by (cases "a + b < 2 ^ 63") auto

lemma go_int_bounds: "- (2 ^ 63) \<le> go_int w" "go_int w < 2 ^ 63"
  using sint_ge [of w] sint_lt [of w] by (simp_all add: go_int_def)

lemma go_int_of_nat: "n < 2 ^ 63 \<Longrightarrow> go_int (of_nat n) = int n"
  using sint_word_of_int_64 [of "int n"] by (simp add: go_int_def)

lemma unat_of_nat_64: "n < 2 ^ 63 \<Longrightarrow> unat (of_nat n :: u64) = n"
  by (simp add: unat_of_nat take_bit_nat_eq_self)

section \<open>Byte strings at an offset\<close>

text \<open>\<open>occurs_at xs i ys\<close>: the slice \<open>xs[i : i + len(ys)]\<close> exists and is \<open>ys\<close>.\<close>

definition occurs_at :: "'a list \<Rightarrow> int \<Rightarrow> 'a list \<Rightarrow> bool" where
  "occurs_at xs i ys \<longleftrightarrow>
     0 \<le> i \<and> i + int (length ys) \<le> int (length xs) \<and> take (length ys) (drop (nat i) xs) = ys"

lemma occurs_at_Nil [simp]: "occurs_at xs i [] \<longleftrightarrow> 0 \<le> i \<and> i \<le> int (length xs)"
  by (simp add: occurs_at_def)

lemma occurs_at_iff:
  "occurs_at xs i ys \<longleftrightarrow> (\<exists>pre post. xs = pre @ ys @ post \<and> i = int (length pre))"
proof
  assume occ: "occurs_at xs i ys"
  have "xs = take (nat i) xs @ take (length ys) (drop (nat i) xs) @ drop (length ys) (drop (nat i) xs)"
    by (simp only: append_take_drop_id)
  with occ have "xs = take (nat i) xs @ ys @ drop (length ys) (drop (nat i) xs)"
    by (simp add: occurs_at_def)
  moreover from occ have "i = int (length (take (nat i) xs))"
    by (auto simp: occurs_at_def min_def)
  ultimately show "\<exists>pre post. xs = pre @ ys @ post \<and> i = int (length pre)"
    by blast
qed (auto simp: occurs_at_def)

lemma occurs_at_append:
  "occurs_at xs i (ys @ zs) \<longleftrightarrow> occurs_at xs i ys \<and> occurs_at xs (i + int (length ys)) zs"
proof
  assume "occurs_at xs i (ys @ zs)"
  then obtain pre post where "xs = pre @ ys @ zs @ post" "i = int (length pre)"
    by (auto simp: occurs_at_iff)
  then show "occurs_at xs i ys \<and> occurs_at xs (i + int (length ys)) zs"
    by (auto simp: occurs_at_iff intro: exI [of _ "pre @ ys"])
next
  assume asm: "occurs_at xs i ys \<and> occurs_at xs (i + int (length ys)) zs"
  then have "drop (nat (i + int (length ys))) xs = drop (length ys) (drop (nat i) xs)"
    by (simp add: occurs_at_def nat_add_distrib add.commute)
  with asm have "take (length ys + length zs) (drop (nat i) xs) = ys @ zs"
    by (simp only: occurs_at_def take_add)
  with asm show "occurs_at xs i (ys @ zs)"
    by (simp add: occurs_at_def)
qed

lemma occurs_at_Cons:
  "occurs_at xs i (y # ys) \<longleftrightarrow>
     0 \<le> i \<and> i < int (length xs) \<and> xs ! nat i = y \<and> occurs_at xs (i + 1) ys"
proof -
  have "occurs_at xs i [y] \<longleftrightarrow> 0 \<le> i \<and> i < int (length xs) \<and> xs ! nat i = y"
    by (auto simp: occurs_at_def take_Suc_conv_app_nth hd_drop_conv_nth nat_less_iff
        simp flip: take_Suc_Cons)
  then show ?thesis
    using occurs_at_append [of xs i "[y]" ys] by auto
qed

lemma occurs_at_bounds: "occurs_at xs i ys \<Longrightarrow> 0 \<le> i \<and> i + int (length ys) \<le> int (length xs)"
  by (simp add: occurs_at_def)

lemma occurs_at_self: "occurs_at xs 0 xs"
  by (simp add: occurs_at_def)

section \<open>Slices\<close>

text \<open>The slice expression \<open>xs[i:j]\<close> where \<open>0 \<le> i \<le> j \<le> len(xs)\<close>.\<close>

definition go_sub :: "'a list \<Rightarrow> int \<Rightarrow> int \<Rightarrow> 'a list" where
  "go_sub xs i j = take (nat (j - i)) (drop (nat i) xs)"

lemma go_sub_occurs: "occurs_at xs i ys \<Longrightarrow> go_sub xs i (i + int (length ys)) = ys"
  by (simp add: go_sub_def occurs_at_def)

lemma length_go_sub:
  "0 \<le> i \<Longrightarrow> i \<le> j \<Longrightarrow> j \<le> int (length xs) \<Longrightarrow> length (go_sub xs i j) = nat (j - i)"
  by (auto simp: go_sub_def min_def)

end
