(* ===== verification/Varint.thy ===== *)
theory Varint
  imports Go_Prelude
begin

text \<open>
  Base-128 varints: \<open>encodeVarintPacket\<close>, \<open>sovPacket\<close> and \<open>sozPacket\<close> of \<open>proto/packet.pb.go\<close>,
  the varint loop that every \<open>Unmarshal\<close> of that file repeats, and the standard library's
  \<open>binary.PutVarint\<close> and \<open>binary.Varint\<close>, which \<open>transport/header.go\<close> uses. The reference
  encoding is \<open>uvarint\<close>; the lemmas show that the in-place writer emits it, that \<open>sovPacket\<close> is
  its length and that the reading loop inverts it at every width up to 64 bits.
\<close>

section \<open>Results of the decoders\<close>

text \<open>
  The error values of the generated code. \<open>GoPanic\<close> is a run-time panic (an index out of range);
  \<open>OutOfFuel\<close> is not a value of the code: it marks a model loop whose fuel ran out, and the
  decoders' theorems show that it never happens.
\<close>

datatype perr =
    ErrInvalidLengthPacket
  | ErrIntOverflowPacket
  | ErrUnexpectedEndOfGroupPacket
  | ErrUnexpectedEOF
  | ErrWrongWireType int
  | ErrIllegalTag
  | ErrEndGroup
  | ErrIllegalWireType int
  | GoPanic
  | OutOfFuel

definition r_bind :: "'e + 'a \<Rightarrow> ('a \<Rightarrow> 'e + 'b) \<Rightarrow> 'e + 'b" where
  "r_bind r f = (case r of Inl e \<Rightarrow> Inl e | Inr a \<Rightarrow> f a)"

definition r_check :: "bool \<Rightarrow> 'e \<Rightarrow> 'e + 'b \<Rightarrow> 'e + 'b" where
  "r_check bad e k = (if bad then Inl e else k)"

lemma r_bind_Inl [simp]: "r_bind (Inl e) f = Inl e"
  by (simp add: r_bind_def)

lemma r_bind_Inr [simp]: "r_bind (Inr a) f = f a"
  by (simp add: r_bind_def)

lemma r_bind_eq_Inr_iff: "r_bind r f = Inr b \<longleftrightarrow> (\<exists>a. r = Inr a \<and> f a = Inr b)"
  by (cases r) auto

lemma r_bind_eq_Inl_iff: "r_bind r f = Inl e \<longleftrightarrow> r = Inl e \<or> (\<exists>a. r = Inr a \<and> f a = Inl e)"
  by (cases r) auto

lemma r_check_False [simp]: "r_check False e k = k"
  by (simp add: r_check_def)

lemma r_check_True [simp]: "r_check True e k = Inl e"
  by (simp add: r_check_def)

lemma r_check_eq_Inr_iff: "r_check bad e k = Inr b \<longleftrightarrow> \<not> bad \<and> k = Inr b"
  by (simp add: r_check_def)

lemma r_check_eq_Inl_iff: "r_check bad e k = Inl e' \<longleftrightarrow> bad \<and> e = e' \<or> \<not> bad \<and> k = Inl e'"
  by (auto simp: r_check_def)

lemmas r_iffs = r_bind_eq_Inr_iff r_bind_eq_Inl_iff r_check_eq_Inr_iff r_check_eq_Inl_iff

section \<open>The size of a varint\<close>

text \<open>\<open>bits_len n\<close> is the number of bits of \<open>n\<close>, the standard library's \<open>bits.Len64\<close>.\<close>

fun bits_len :: "nat \<Rightarrow> nat" where
  "bits_len n = (if n = 0 then 0 else Suc (bits_len (n div 2)))"

declare bits_len.simps [simp del]

definition sovPacket :: "u64 \<Rightarrow> nat" where
  "sovPacket x = (bits_len (unat (x OR 1)) + 6) div 7"

definition sozPacket :: "u64 \<Rightarrow> nat" where
  "sozPacket x = sovPacket (push_bit 1 x XOR signed_drop_bit 63 x)"

section \<open>The reference encoding\<close>

lemma unat_drop_bit_7: "unat (drop_bit 7 (v :: u64)) = unat v div 128"
  using unat_drop_bit_eq [of 7 v] by (simp add: drop_bit_eq_div [of 7 "unat v"])

function uvarint :: "u64 \<Rightarrow> bytes" where
  "uvarint v =
     (if v \<ge> 0x80 then ucast ((v AND 0x7f) OR 0x80) # uvarint (drop_bit 7 v) else [ucast v])"
  by pat_completeness auto
termination
  by (relation "measure unat") (auto simp: unat_drop_bit_7 word_le_nat_alt)

declare uvarint.simps [simp del]

lemma uvarint_nonempty [simp]: "uvarint v \<noteq> []"
  by (subst uvarint.simps) simp

lemma uvarint_small: "v < 0x80 \<Longrightarrow> uvarint v = [ucast v]"
  by (subst uvarint.simps) (simp add: not_le)

section \<open>The in-place writer\<close>

text \<open>An indexed store panics (\<open>None\<close>) when the index is out of range.\<close>

definition go_set :: "bytes \<Rightarrow> int \<Rightarrow> byte \<Rightarrow> bytes option" where
  "go_set dAtA i b =
     (if 0 \<le> i \<and> i < int (length dAtA) then Some (dAtA[nat i := b]) else None)"

function put_varint_loop :: "bytes \<Rightarrow> int \<Rightarrow> u64 \<Rightarrow> bytes option" where
  "put_varint_loop dAtA offset v =
     (if v \<ge> 0x80
      then do {
        dAtA \<leftarrow> go_set dAtA offset (ucast ((v AND 0x7f) OR 0x80));
        put_varint_loop dAtA (offset + 1) (drop_bit 7 v)
      }
      else go_set dAtA offset (ucast v))"
  by pat_completeness auto
termination
  by (relation "measure (\<lambda>(d, i, v). unat v)")
    (auto simp: unat_drop_bit_7 word_le_nat_alt)

declare put_varint_loop.simps [simp del]

definition encodeVarintPacket :: "bytes \<Rightarrow> int \<Rightarrow> u64 \<Rightarrow> (bytes \<times> int) option" where
  "encodeVarintPacket dAtA offset v =
     (let base = offset - int (sovPacket v)
      in do { dAtA \<leftarrow> put_varint_loop dAtA base v; Some (dAtA, base) })"

section \<open>The reading loop\<close>

text \<open>
  \<^verbatim>\<open>for shift := uint(0); ; shift += 7 { ... v |= T(b&0x7F) << shift; if b < 0x80 { break } }\<close>,
  at every integer type \<open>T\<close> the generated code uses (\<open>uint64\<close>, \<open>int64\<close>, \<open>int\<close>, \<open>int32\<close>, the enum).
\<close>

function dec_varint :: "bytes \<Rightarrow> int \<Rightarrow> nat \<Rightarrow> 'a::len word \<Rightarrow> perr + ('a word \<times> int)" where
  "dec_varint dAtA iNdEx shift v =
     (if shift \<ge> 64 then Inl ErrIntOverflowPacket
      else if iNdEx \<ge> int (length dAtA) then Inl ErrUnexpectedEOF
      else if iNdEx < 0 then Inl GoPanic
      else let b = dAtA ! nat iNdEx;
               v = v OR push_bit shift (ucast (b AND 0x7F))
           in if b < 0x80 then Inr (v, iNdEx + 1)
              else dec_varint dAtA (iNdEx + 1) (shift + 7) v)"
  by pat_completeness auto
termination
  by (relation "measure (\<lambda>(d, i, s, v). 64 - s)") auto

declare dec_varint.simps [simp del]

definition read_varint :: "bytes \<Rightarrow> int \<Rightarrow> perr + ('a::len word \<times> int)" where
  "read_varint dAtA iNdEx = dec_varint dAtA iNdEx 0 0"

section \<open>The size is the length of the encoding\<close>

lemma bits_len_0 [simp]: "bits_len 0 = 0"
  by (subst bits_len.simps) simp

lemma bits_len_pos: "0 < n \<Longrightarrow> bits_len n = Suc (bits_len (n div 2))"
  by (subst bits_len.simps) simp

lemma bits_len_div_128: "64 \<le> n \<Longrightarrow> bits_len n = 7 + bits_len (n div 128)"
  by (simp add: bits_len_pos div_mult2_eq [symmetric])

lemma bits_len_le: "n < 2 ^ k \<Longrightarrow> bits_len n \<le> k"
proof (induction k arbitrary: n)
  case (Suc k)
  then have "n div 2 < 2 ^ k" by (simp add: less_mult_imp_div_less)
  then show ?case using Suc.IH [of "n div 2"] by (cases "n = 0") (simp_all add: bits_len_pos)
qed simp

lemma sovPacket_alt: "sovPacket x = 1 + bits_len (unat x div 2) div 7"
proof -
  have "unat (x OR 1) = unat x OR 1"
    by (simp add: unsigned_or_eq)
  moreover have "(n OR 1) div 2 = n div 2" "0 < n OR 1" for n :: nat
    by (auto simp: or_one_eq odd_pos simp del: One_nat_def)
  ultimately show ?thesis
    by (simp add: sovPacket_def bits_len_pos)
qed

lemma length_uvarint: "length (uvarint v) = sovPacket v"
proof (induction v rule: uvarint.induct)
  case (1 v)
  show ?case
  proof (cases "v \<ge> 0x80")
    case True
    then have ge: "128 \<le> unat v" by (simp add: word_le_nat_alt)
    have "unat (drop_bit 7 v) div 2 = unat v div 2 div 128"
      by (simp add: unat_drop_bit_7 div_mult2_eq [symmetric])
    moreover have "bits_len (unat v div 2) = 7 + bits_len (unat v div 2 div 128)"
      using ge by (intro bits_len_div_128) simp
    ultimately show ?thesis
      using 1 True by (subst uvarint.simps) (simp add: sovPacket_alt div_add_self1)
  next
    case False
    then have "unat v div 2 < 2 ^ 6" by (simp add: not_le word_less_nat_alt)
    then have "bits_len (unat v div 2) \<le> 6" by (rule bits_len_le)
    with False show ?thesis by (subst uvarint.simps) (simp add: sovPacket_alt)
  qed
qed

lemma sovPacket_bounds: "1 \<le> sovPacket v \<and> sovPacket v \<le> 10"
proof -
  have "unat v div 2 < 2 ^ 63" using unsigned_less [of v, where ?'a = nat]
    by (simp add: less_mult_imp_div_less)
  then have "bits_len (unat v div 2) \<le> 63" by (rule bits_len_le)
  then show ?thesis by (simp add: sovPacket_alt)
qed

section \<open>The writer emits the encoding\<close>

lemma go_set_mid: "go_set (pre @ x # post) (int (length pre)) b = Some (pre @ b # post)"
  by (simp add: go_set_def)

lemma put_varint_loop_emits:
  "length ys = length (uvarint v) \<Longrightarrow>
     put_varint_loop (pre @ ys @ post) (int (length pre)) v = Some (pre @ uvarint v @ post)"
proof (induction v arbitrary: pre ys rule: uvarint.induct)
  case (1 v)
  obtain y ys' where ys: "ys = y # ys'"
    using "1.prems" by (cases ys) auto
  show ?case
  proof (cases "v \<ge> 0x80")
    case True
    let ?b = "ucast ((v AND 0x7f) OR 0x80) :: byte"
    have u: "uvarint v = ?b # uvarint (drop_bit 7 v)"
      using True by (subst uvarint.simps) simp
    with "1.prems" ys have "length ys' = length (uvarint (drop_bit 7 v))"
      by simp
    from "1.IH" [OF True this, of "pre @ [?b]"] True show ?thesis
      by (subst put_varint_loop.simps) (simp add: ys u go_set_mid add.commute)
  next
    case False
    then have "uvarint v = [ucast v]" by (subst uvarint.simps) simp
    with "1.prems" ys False show ?thesis
      by (subst put_varint_loop.simps) (simp add: go_set_mid)
  qed
qed

section \<open>The reader inverts the encoding\<close>

lemma and_0x7F: "x AND 0x7F = take_bit 7 (x :: 'a::len word)"
  by (simp add: take_bit_eq_mask mask_eq_exp_minus_1)

lemma or_0x80: "x OR 0x80 = Bit_Operations.set_bit 7 (x :: 'a::len word)"
  by (simp add: set_bit_eq_or)

lemma continuation_byte_payload:
  fixes v :: u64
  shows "(ucast ((v AND 0x7f) OR 0x80) :: byte) AND 0x7F = take_bit 7 (ucast v)"
  unfolding and_0x7F or_0x80 by (rule bit_word_eqI) (auto simp: bit_simps)

lemma take_bit_small_word: "x < 2 ^ n \<Longrightarrow> take_bit n x = (x :: 'a::len word)"
  by (metis less_mask_eq take_bit_eq_mask and.commute)

lemma last_byte_payload:
  fixes v :: u64
  assumes "v < 0x80"
  shows "(ucast v :: byte) AND 0x7F = ucast v" and "(ucast (ucast v :: byte) :: 'a::len word) = ucast v"
    and "(ucast v :: byte) < 0x80"
proof -
  have tb: "take_bit 7 v = v"
    using assms by (intro take_bit_small_word) simp
  then have bit_v: "bit v k \<Longrightarrow> k < 7" for k
    by (metis bit_take_bit_iff)
  then show and7: "(ucast v :: byte) AND 0x7F = ucast v"
    unfolding and_0x7F by (intro bit_word_eqI) (auto simp: bit_simps)
  from bit_v show "(ucast (ucast v :: byte) :: 'a word) = ucast v"
    by (intro bit_word_eqI) (fastforce simp: bit_simps)
  have "unat (ucast v :: byte) \<le> unat v"
    by (simp add: unsigned_ucast_eq unsigned_take_bit_eq)
  with assms show "(ucast v :: byte) < 0x80"
    by (simp add: word_less_nat_alt)
qed

lemma continuation_byte_ge: "\<not> (ucast ((v :: u64) AND 0x7f OR 0x80) :: byte) < 0x80"
proof
  assume "(ucast (v AND 0x7f OR 0x80) :: byte) < 0x80"
  then have "take_bit 7 (ucast (v AND 0x7f OR 0x80) :: byte) = ucast (v AND 0x7f OR 0x80)"
    by (intro take_bit_small_word) simp
  then have "\<not> bit (ucast (v AND 0x7f OR 0x80) :: byte) 7"
    by (metis bit_take_bit_iff less_irrefl)
  then show False
    unfolding and_0x7F or_0x80 by (simp add: bit_simps)
qed

lemma push_bit_step:
  fixes v :: u64
  shows "push_bit s (ucast (take_bit 7 (ucast v :: byte))) OR push_bit (s + 7) (ucast (drop_bit 7 v))
         = (push_bit s (ucast v) :: 'a::len word)"
  by (rule bit_word_eqI) (auto simp: bit_simps not_le le_diff_conv2 intro: ccontr)

text \<open>The arithmetic of one step of a loop over the encoding's groups.\<close>

lemma varint_group:
  assumes "v \<ge> 0x80" and "unat (v :: u64) < 2 ^ (64 - shift)"
  shows "shift + 7 < 64" and "unat (drop_bit 7 v) < 2 ^ (64 - (shift + 7))"
proof -
  from assms(1) have "128 \<le> unat v" by (simp add: word_le_nat_alt)
  with assms(2) have "(2::nat) ^ 7 < 2 ^ (64 - shift)" by (simp del: power_strict_increasing_iff)
  then have "7 < 64 - shift" by (rule power_less_imp_less_exp [rotated]) simp
  then show s7: "shift + 7 < 64" by simp
  have "64 - shift = (64 - (shift + 7)) + 7" using s7 by simp
  with assms(2) have "unat v < 2 ^ (64 - (shift + 7)) * 2 ^ 7"
    by (simp only: power_add)
  then show "unat (drop_bit 7 v) < 2 ^ (64 - (shift + 7))"
    by (simp add: unat_drop_bit_7 less_mult_imp_div_less)
qed

lemma dec_varint_uvarint:
  fixes acc :: "'a::len word"
  assumes "occurs_at xs i (uvarint v)" and "shift < 64" and "unat v < 2 ^ (64 - shift)"
  shows "dec_varint xs i shift acc =
           Inr (acc OR push_bit shift (ucast v), i + int (length (uvarint v)))"
  using assms
proof (induction v arbitrary: i shift acc rule: uvarint.induct)
  case (1 v)
  show ?case
  proof (cases "v \<ge> 0x80")
    case True
    let ?b = "ucast ((v AND 0x7f) OR 0x80) :: byte"
    have u: "uvarint v = ?b # uvarint (drop_bit 7 v)"
      using True by (subst uvarint.simps) simp
    note grp = varint_group [OF True "1.prems"(3)]
    from "1.prems"(1) have occ: "xs ! nat i = ?b" "0 \<le> i" "i < int (length xs)"
        "occurs_at xs (i + 1) (uvarint (drop_bit 7 v))"
      by (simp_all add: u occurs_at_Cons)
    then have IH: "dec_varint xs (i + 1) (shift + 7) a =
        Inr (a OR push_bit (shift + 7) (ucast (drop_bit 7 v)),
             i + 1 + int (length (uvarint (drop_bit 7 v))))" for a :: "'a word"
      using "1.IH" [OF True] grp by blast
    show ?thesis
      using "1.prems"(2) occ continuation_byte_ge [of v]
      by (subst dec_varint.simps)
        (simp add: Let_def IH u or.assoc continuation_byte_payload push_bit_step)
  next
    case False
    then have u: "uvarint v = [ucast v]" by (subst uvarint.simps) simp
    have v: "v < 0x80" using False by simp
    have "(ucast (ucast v :: byte) :: 'a word) = ucast v"
      by (rule last_byte_payload(2) [OF v])
    then show ?thesis
      using "1.prems" last_byte_payload(1,3) [OF v] by (subst dec_varint.simps) (simp add: u occurs_at_Cons Let_def)
  qed
qed

lemma read_varint_uvarint [parse_simps]:
  "occurs_at xs i (uvarint v) \<Longrightarrow>
     read_varint xs i = Inr (ucast v, i + int (length (uvarint v)))"
  using dec_varint_uvarint [of xs i v 0 0] unsigned_less [of v, where ?'a = nat]
  by (simp add: read_varint_def)

lemma dec_varint_progress:
  "dec_varint xs i shift v = Inr (w, j) \<Longrightarrow> 0 \<le> i \<and> i < j \<and> j \<le> int (length xs)"
proof (induction xs i shift v rule: dec_varint.induct)
  case (1 xs i shift v)
  note step = "1.prems" [unfolded dec_varint.simps [of xs i shift v]]
  from step have "shift < 64" "0 \<le> i" "i < int (length xs)"
    by (auto split: if_splits)
  with step "1.IH" show ?case
    by (fastforce simp: Let_def split: if_splits)
qed

lemma read_varint_progress:
  "read_varint xs i = Inr (w, j) \<Longrightarrow> 0 \<le> i \<and> i < j \<and> j \<le> int (length xs)"
  unfolding read_varint_def by (rule dec_varint_progress)

lemma dec_varint_errors:
  "dec_varint xs i shift v = Inl e \<Longrightarrow> 0 \<le> i \<Longrightarrow>
     e = ErrIntOverflowPacket \<or> e = ErrUnexpectedEOF"
proof (induction xs i shift v rule: dec_varint.induct)
  case (1 xs i shift v)
  note step = "1.prems"(1) [unfolded dec_varint.simps [of xs i shift v]]
  with "1.IH" "1.prems"(2) show ?case
    by (auto simp: Let_def split: if_splits)
qed

lemma read_varint_errors:
  "read_varint xs i = Inl e \<Longrightarrow> 0 \<le> i \<Longrightarrow> e = ErrIntOverflowPacket \<or> e = ErrUnexpectedEOF"
  unfolding read_varint_def by (rule dec_varint_errors)

lemma encodeVarintPacket_emits:
  assumes "sovPacket v \<le> length d"
  shows "encodeVarintPacket (d @ rest) (int (length d)) v =
           Some (take (length d - sovPacket v) d @ uvarint v @ rest, int (length d) - int (sovPacket v))"
proof -
  let ?k = "length d - sovPacket v"
  have "d @ rest = take ?k d @ drop ?k d @ rest" by simp
  moreover have "length (drop ?k d) = length (uvarint v)"
    using assms by (simp add: length_uvarint)
  ultimately have "put_varint_loop (d @ rest) (int (length (take ?k d))) v =
      Some (take ?k d @ uvarint v @ rest)"
    by (metis put_varint_loop_emits)
  then show ?thesis
    using assms by (simp add: encodeVarintPacket_def Let_def of_nat_diff)
qed

section \<open>The standard library's signed varints\<close>

text \<open>
  \<open>binary.PutVarint\<close> stores the zigzag form of its argument with the same loop, from index 0 of
  the buffer; it panics when the buffer is too short. \<open>binary.Varint\<close> returns the value and the
  number of bytes read, 0 when the buffer ends too early and a negative number on overflow.
\<close>

definition zigzag :: "i64 \<Rightarrow> u64" where
  "zigzag x = (let ux = push_bit 1 x in if sint x < 0 then NOT ux else ux)"

definition PutVarint :: "bytes \<Rightarrow> i64 \<Rightarrow> bytes option" where
  "PutVarint buf x = put_varint_loop buf 0 (zigzag x)"

fun uvarint_scan :: "bytes \<Rightarrow> nat \<Rightarrow> nat \<Rightarrow> u64 \<Rightarrow> u64 \<times> int" where
  "uvarint_scan [] i s x = (0, 0)"
| "uvarint_scan (b # bs) i s x =
     (if i = 10 then (0, - (int i + 1))
      else if b < 0x80
      then if i = 9 \<and> b > 1 then (0, - (int i + 1)) else (x OR push_bit s (ucast b), int i + 1)
      else uvarint_scan bs (Suc i) (s + 7) (x OR push_bit s (ucast (b AND 0x7f))))"

definition unzigzag :: "u64 \<Rightarrow> i64" where
  "unzigzag ux = (let x = drop_bit 1 ux in if ux AND 1 \<noteq> 0 then NOT x else x)"

definition Varint :: "bytes \<Rightarrow> i64 \<times> int" where
  "Varint buf = (let (ux, n) = uvarint_scan buf 0 0 0 in (unzigzag ux, n))"

lemma unzigzag_zigzag: "unzigzag (zigzag x) = x"
proof (cases "sint x < 0")
  case True
  then have sign: "bit x 63" using bit_last_iff [of x] by simp
  have "bit (NOT (push_bit 1 x) AND 1) 0"
    by (simp only: bit_and_iff bit_not_iff bit_push_bit_iff bit_1_iff) simp
  then have "NOT (push_bit 1 x) AND 1 \<noteq> 0"
    by (intro notI) (simp only: bit_0_eq bot_apply bot_bool_def)
  with True have "unzigzag (zigzag x) = NOT (drop_bit 1 (NOT (push_bit 1 x)))"
    by (simp add: zigzag_def unzigzag_def Let_def)
  also have "\<dots> = x"
  proof (rule bit_word_eqI)
    fix n assume "n < LENGTH(64)"
    with sign show "bit (NOT (drop_bit 1 (NOT (push_bit 1 x)))) n = bit x n"
      by (cases "n = 63") (auto simp: bit_simps mult.commute [of x 2])
  qed
  finally show ?thesis .
next
  case False
  then have sign: "\<not> bit x 63" using bit_last_iff [of x] by simp
  have "push_bit 1 x AND 1 = 0"
    by (rule bit_word_eqI) (simp only: bit_and_iff bit_push_bit_iff bit_1_iff bit_0_eq bot_apply, auto)
  with False have "unzigzag (zigzag x) = drop_bit 1 (push_bit 1 x)"
    by (simp add: zigzag_def unzigzag_def Let_def)
  also have "\<dots> = x"
  proof (rule bit_word_eqI)
    fix n assume "n < LENGTH(64)"
    with sign show "bit (drop_bit 1 (push_bit 1 x)) n = bit x n"
      by (cases "n = 63") (auto simp: bit_simps mult.commute [of x 2])
  qed
  finally show ?thesis .
qed

lemma uvarint_scan_uvarint:
  assumes "i * 7 = s" "s < 64" "unat v < 2 ^ (64 - s)"
  shows "uvarint_scan (uvarint v @ rest) i s x =
           (x OR push_bit s v, int (i + length (uvarint v)))"
  using assms
proof (induction v arbitrary: i s x rule: uvarint.induct)
  case (1 v)
  show ?case
  proof (cases "v \<ge> 0x80")
    case True
    note grp = varint_group [OF True "1.prems"(3)]
    have u: "uvarint v = ucast ((v AND 0x7f) OR 0x80) # uvarint (drop_bit 7 v)"
      using True by (subst uvarint.simps) simp
    have "uvarint_scan (uvarint (drop_bit 7 v) @ rest) (Suc i) (s + 7) y =
        (y OR push_bit (s + 7) (drop_bit 7 v), int (Suc i + length (uvarint (drop_bit 7 v))))" for y
      using "1.prems"(1) grp by (intro "1.IH" [OF True]) auto
    moreover have "i \<noteq> 10" using "1.prems" by auto
    ultimately show ?thesis
      using push_bit_step [of s v, where 'a = 64]
      by (simp add: u continuation_byte_ge continuation_byte_payload or.assoc)
  next
    case False
    then have v: "v < 0x80" by simp
    then have u: "uvarint v = [ucast v]" by (rule uvarint_small)
    have "(ucast (ucast v :: byte) :: u64) = v"
      using last_byte_payload(2) [OF v, where 'a = 64] by simp
    moreover have "\<not> (ucast v :: byte) > 1" if "i = 9"
    proof -
      have "unat v < 2" using "1.prems" that by simp
      moreover have "unat (ucast v :: byte) \<le> unat v"
        by (simp add: unsigned_ucast_eq unsigned_take_bit_eq)
      ultimately show ?thesis by (simp add: word_less_nat_alt)
    qed
    moreover have "i \<noteq> 10" using "1.prems" by auto
    ultimately show ?thesis
      by (simp add: u last_byte_payload(3) [OF v])
  qed
qed

lemma Varint_uvarint: "Varint (uvarint (zigzag x) @ rest) = (x, int (length (uvarint (zigzag x))))"
  using uvarint_scan_uvarint [of 0 0 "zigzag x" rest 0] unsigned_less [of "zigzag x", where ?'a = nat]
  by (simp add: Varint_def unzigzag_zigzag)

lemma PutVarint_emits:
  assumes "sovPacket (zigzag x) \<le> length buf"
  shows "PutVarint buf x = Some (uvarint (zigzag x) @ drop (sovPacket (zigzag x)) buf)"
  using put_varint_loop_emits [of "take (sovPacket (zigzag x)) buf" "zigzag x" "[]"
      "drop (sovPacket (zigzag x)) buf"] assms
  by (simp add: PutVarint_def length_uvarint)

lemma put_varint_loop_short:
  "int (length d) < i + int (length (uvarint v)) \<Longrightarrow> put_varint_loop d i v = None"
proof (induction d i v rule: put_varint_loop.induct)
  case (1 d i v)
  show ?case
  proof (cases "v \<ge> 0x80")
    case True
    then have u: "uvarint v = ucast ((v AND 0x7f) OR 0x80) # uvarint (drop_bit 7 v)"
      by (subst uvarint.simps) simp
    show ?thesis
    proof (cases "go_set d i (ucast ((v AND 0x7f) OR 0x80))")
      case None
      with True show ?thesis by (subst put_varint_loop.simps) simp
    next
      case (Some d')
      then have "length d' = length d" by (auto simp: go_set_def split: if_splits)
      with "1.prems" u have "int (length d') < i + 1 + int (length (uvarint (drop_bit 7 v)))" by simp
      from "1.IH" [OF True Some this] True Some show ?thesis
        by (subst put_varint_loop.simps) simp
    qed
  next
    case False
    with "1.prems" have "\<not> i < int (length d)" by (simp add: uvarint_small)
    with False show ?thesis
      by (subst put_varint_loop.simps) (simp add: go_set_def)
  qed
qed

lemma PutVarint_short: "length buf < sovPacket (zigzag x) \<Longrightarrow> PutVarint buf x = None"
  unfolding PutVarint_def by (rule put_varint_loop_short) (simp add: length_uvarint)

section \<open>How many bytes a value takes\<close>

lemma uint_eq_sint: "0 \<le> sint (w :: i64) \<Longrightarrow> uint w = sint w"
  using sint_lt [of w] by (simp add: uint_sint take_bit_int_eq_self)

lemma sint_NOT: "sint (NOT w :: i64) = - sint w - 1"
  using sint_ge [of w] sint_lt [of w]
  by (simp add: signed_not_eq not_int_def signed_take_bit_int_eq_self)

lemma zigzag_half: "drop_bit 1 (zigzag x) = (if sint x < 0 then NOT x else x)"
proof (rule bit_word_eqI)
  fix n assume "n < LENGTH(64)"
  then show "bit (drop_bit 1 (zigzag x)) n = bit (if sint x < 0 then NOT x else x) n"
    using bit_last_iff [of x]
    by (cases "n = 63") (auto simp: zigzag_def Let_def bit_simps mult.commute [of x 2])
qed

lemma unat_zigzag_half: "unat (zigzag x) div 2 = nat (if sint x < 0 then - sint x - 1 else sint x)"
proof -
  have "unat (zigzag x) div 2 = unat (drop_bit 1 (zigzag x))"
    unfolding unat_drop_bit_eq by (simp add: drop_bit_eq_div)
  also have "\<dots> = nat (if sint x < 0 then - sint x - 1 else sint x)"
  proof (cases "sint x < 0")
    case True
    then have "uint (NOT x) = - sint x - 1" using uint_eq_sint [of "NOT x"] sint_NOT [of x] by simp
    then have "unat (NOT x) = nat (- sint x - 1)" by (simp only: unat_eq_nat_uint)
    with True show ?thesis by (simp only: zigzag_half if_True)
  next
    case False
    then have "unat x = nat (sint x)" using uint_eq_sint [of x] by (simp only: unat_eq_nat_uint not_less)
    with False show ?thesis by (simp only: zigzag_half if_False)
  qed
  finally show ?thesis .
qed

lemma bits_len_gt: "2 ^ k \<le> n \<Longrightarrow> k < bits_len n"
proof (induction k arbitrary: n)
  case (Suc k)
  then have "0 < n" "2 ^ k \<le> n div 2" by (auto intro: Nat.gr0I)
  then show ?case using Suc.IH [of "n div 2"] by (simp add: bits_len_pos)
qed (simp add: bits_len_pos)

lemma sovPacket_le_iff: "sovPacket v \<le> k \<longleftrightarrow> 0 < k \<and> unat v div 2 < 2 ^ (7 * k - 1)"
proof -
  have *: "bits_len n \<le> j \<longleftrightarrow> n < 2 ^ j" for n j
    using bits_len_le [of n j] bits_len_gt [of j n] by (auto simp: not_less [symmetric])
  show ?thesis
  proof (cases k)
    case (Suc k')
    have "sovPacket v \<le> k \<longleftrightarrow> bits_len (unat v div 2) div 7 \<le> k'" by (simp add: sovPacket_alt Suc)
    also have "\<dots> \<longleftrightarrow> bits_len (unat v div 2) \<le> 7 * k - 1" using Suc by auto
    finally show ?thesis using * Suc by simp
  qed (simp add: sovPacket_alt)
qed

end
