(* ===== verification/Proto_Writer.thy ===== *)
theory Proto_Writer
  imports Varint
begin

text \<open>
  The marshalling side of \<open>proto/packet.pb.go\<close>. \<open>MarshalToSizedBuffer\<close> fills a buffer from its
  end: an index \<open>i\<close> starts at \<open>len(dAtA)\<close> and each piece is stored below the last one. The
  statements the generated code is made of are the operations of this theory, over the state
  \<open>(dAtA, i)\<close>; \<open>None\<close> is a panic (an index or a slice bound out of range). \<open>emits f s\<close> says that
  \<open>f\<close> stores the bytes \<open>s\<close> below the index whenever the room is there, and touches nothing else;
  the \<open>emit_rules\<close> compose it along the code.
\<close>

section \<open>The writer's statements\<close>

type_synonym wr = "bytes \<times> int"

text \<open>\<open>copy(dAtA[i:], s)\<close>: the slice expression panics out of range; \<open>copy\<close> stops at the shorter end.\<close>

definition go_copy_at :: "bytes \<Rightarrow> int \<Rightarrow> bytes \<Rightarrow> bytes option" where
  "go_copy_at dAtA i s =
     (if 0 \<le> i \<and> i \<le> int (length dAtA)
      then let dst = drop (nat i) dAtA
           in Some (take (nat i) dAtA @ take (length dst) s @ drop (length s) dst)
      else None)"

text \<open>\<^verbatim>\<open>i -= len(s); copy(dAtA[i:], s)\<close>\<close>

definition put_bytes :: "bytes \<Rightarrow> wr \<Rightarrow> wr option" where
  "put_bytes s w =
     (let (dAtA, i) = w; i = i - int (length s)
      in do { dAtA \<leftarrow> go_copy_at dAtA i s; Some (dAtA, i) })"

text \<open>\<^verbatim>\<open>i--; dAtA[i] = b\<close>\<close>

definition put_byte :: "byte \<Rightarrow> wr \<Rightarrow> wr option" where
  "put_byte b w =
     (let (dAtA, i) = w; i = i - 1
      in do { dAtA \<leftarrow> go_set dAtA i b; Some (dAtA, i) })"

text \<open>\<^verbatim>\<open>i = encodeVarintPacket(dAtA, i, v)\<close>\<close>

definition put_uvarint :: "u64 \<Rightarrow> wr \<Rightarrow> wr option" where
  "put_uvarint v w = encodeVarintPacket (fst w) (snd w) v"

text \<open>A statement under an \<open>if\<close> without \<open>else\<close>.\<close>

definition wr_if :: "bool \<Rightarrow> (wr \<Rightarrow> wr option) \<Rightarrow> wr \<Rightarrow> wr option" where
  "wr_if c f w = (if c then f w else Some w)"

text \<open>A scalar field, and a field of bytes or a string.\<close>

definition put_varint_field :: "byte \<Rightarrow> u64 \<Rightarrow> wr \<Rightarrow> wr option" where
  "put_varint_field tag v w = do { w \<leftarrow> put_uvarint v w; put_byte tag w }"

text \<open>\<^verbatim>\<open>i--; if m.Inc { dAtA[i] = 1 } else { dAtA[i] = 0 }\<close> and the tag.\<close>

definition put_bool_field :: "byte \<Rightarrow> bool \<Rightarrow> wr \<Rightarrow> wr option" where
  "put_bool_field tag b w = do { w \<leftarrow> put_byte (if b then 1 else 0) w; put_byte tag w }"

definition put_bytes_field :: "byte \<Rightarrow> bytes \<Rightarrow> wr \<Rightarrow> wr option" where
  "put_bytes_field tag s w =
     do { w \<leftarrow> put_bytes s w; w \<leftarrow> put_uvarint (of_nat (length s)) w; put_byte tag w }"

section \<open>Maps\<close>

text \<open>
  A Go map is a partial function with a finite domain. Ranging over it visits every key once, in
  an order Go leaves open: an order is an argument of the operations that range, and
  \<open>range_order\<close> is what the language guarantees of it.
\<close>

type_synonym gomap = "bytes \<rightharpoonup> bytes"

definition range_order :: "('k \<rightharpoonup> 'v) \<Rightarrow> 'k list \<Rightarrow> bool" where
  "range_order m ks \<longleftrightarrow> distinct ks \<and> set ks = dom m"

definition map_get :: "gomap \<Rightarrow> bytes \<Rightarrow> bytes" where
  "map_get m k = (case m k of None \<Rightarrow> [] | Some v \<Rightarrow> v)"

definition put_map_entry :: "byte \<Rightarrow> bytes \<Rightarrow> bytes \<Rightarrow> wr \<Rightarrow> wr option" where
  "put_map_entry tag k v w =
     (let baseI = snd w
      in do {
        w \<leftarrow> put_bytes v w;
        w \<leftarrow> put_uvarint (of_nat (length v)) w;
        w \<leftarrow> put_byte 0x12 w;
        w \<leftarrow> put_bytes k w;
        w \<leftarrow> put_uvarint (of_nat (length k)) w;
        w \<leftarrow> put_byte 0x0a w;
        w \<leftarrow> put_uvarint (word_of_int (baseI - snd w)) w;
        put_byte tag w
      })"

fun put_map :: "byte \<Rightarrow> gomap \<Rightarrow> bytes list \<Rightarrow> wr \<Rightarrow> wr option" where
  "put_map tag m [] w = Some w"
| "put_map tag m (k # ks) w =
     do { w \<leftarrow> put_map_entry tag k (map_get m k) w; put_map tag m ks w }"

section \<open>Nested messages\<close>

text \<open>
  \<^verbatim>\<open>size, err := sub.MarshalToSizedBuffer(dAtA[:i]); i -= size; i = encodeVarintPacket(dAtA, i, uint64(size))\<close>,
  where the nested call writes into the same array.
\<close>

definition put_message_field :: "byte \<Rightarrow> (bytes \<Rightarrow> (bytes \<times> int) option) \<Rightarrow> wr \<Rightarrow> wr option" where
  "put_message_field tag sub w =
     (let (dAtA, i) = w
      in do {
        (pre, size) \<leftarrow> sub (take (nat i) dAtA);
        w \<leftarrow> put_uvarint (word_of_int size) (pre @ drop (nat i) dAtA, i - size);
        put_byte tag w
      })"

text \<open>\<^verbatim>\<open>if m.Sub != nil { ... }\<close> around a nested message.\<close>

definition wr_option :: "'a option \<Rightarrow> ('a \<Rightarrow> wr \<Rightarrow> wr option) \<Rightarrow> wr \<Rightarrow> wr option" where
  "wr_option v f w = (case v of None \<Rightarrow> Some w | Some x \<Rightarrow> f x w)"

section \<open>What a writer emits\<close>

definition emits :: "(wr \<Rightarrow> wr option) \<Rightarrow> bytes \<Rightarrow> bool" where
  "emits f s \<longleftrightarrow>
     (\<forall>pre mid rest. length mid = length s \<longrightarrow>
        f (pre @ mid @ rest, int (length pre + length mid)) = Some (pre @ s @ rest, int (length pre)))"

text \<open>\<open>MarshalToSizedBuffer\<close> fills the end of its buffer and returns the number of bytes.\<close>

definition fills :: "(bytes \<Rightarrow> (bytes \<times> int) option) \<Rightarrow> bytes \<Rightarrow> bool" where
  "fills f s \<longleftrightarrow>
     (\<forall>pre mid. length mid = length s \<longrightarrow> f (pre @ mid) = Some (pre @ s, int (length s)))"

lemma emitsI:
  "(\<And>pre mid rest. length mid = length s \<Longrightarrow>
     f (pre @ mid @ rest, int (length pre + length mid)) = Some (pre @ s @ rest, int (length pre)))
   \<Longrightarrow> emits f s"
  by (simp add: emits_def)

lemma emitsD:
  "emits f s \<Longrightarrow> length mid = length s \<Longrightarrow>
     f (pre @ mid @ rest, int (length pre + length mid)) = Some (pre @ s @ rest, int (length pre))"
  by (simp add: emits_def)

lemma fillsD:
  "fills f s \<Longrightarrow> length mid = length s \<Longrightarrow> f (pre @ mid) = Some (pre @ s, int (length s))"
  by (simp add: fills_def)

lemma emits_Some [emit_rules]: "emits Some []"
  by (simp add: emits_def)

lemma emits_bind [emit_rules]:
  assumes f: "emits f s" and g: "emits g t"
  shows "emits (\<lambda>w. Option.bind (f w) g) (t @ s)"
proof (rule emitsI)
  fix pre mid rest :: bytes
  assume len: "length mid = length (t @ s)"
  then obtain m1 m2 where mid: "mid = m1 @ m2" and m1: "length m1 = length t" and m2: "length m2 = length s"
    using append_take_drop_id [of "length t" mid] by (metis append_eq_append_conv_if
        length_append length_drop add_diff_cancel_left' length_take min.absorb2 le_add1)
  have "f ((pre @ m1) @ m2 @ rest, int (length (pre @ m1) + length m2)) =
      Some ((pre @ m1) @ s @ rest, int (length (pre @ m1)))"
    by (rule emitsD [OF f m2])
  moreover have "g (pre @ m1 @ s @ rest, int (length pre + length m1)) =
      Some (pre @ t @ s @ rest, int (length pre))"
    by (rule emitsD [OF g m1])
  ultimately show "Option.bind (f (pre @ mid @ rest, int (length pre + length mid))) g =
      Some (pre @ (t @ s) @ rest, int (length pre))"
    by (simp add: mid add.assoc)
qed

lemma emits_wr_if [emit_rules]:
  "(c \<Longrightarrow> emits f s) \<Longrightarrow> emits (wr_if c f) (if c then s else [])"
  by (simp add: emits_def wr_if_def)

lemma emits_wr_option [emit_rules]:
  "(\<And>x. emits (f x) (s x)) \<Longrightarrow> emits (wr_option v f) (case v of None \<Rightarrow> [] | Some x \<Rightarrow> s x)"
  by (cases v) (simp_all add: emits_def wr_option_def [abs_def])

lemma emits_put_bytes [emit_rules]: "emits (put_bytes s) s"
  by (rule emitsI) (simp add: put_bytes_def go_copy_at_def Let_def)

lemma emits_put_uvarint [emit_rules]: "emits (put_uvarint v) (uvarint v)"
proof (rule emitsI)
  fix pre mid rest :: bytes
  assume len: "length mid = length (uvarint v)"
  then show "put_uvarint v (pre @ mid @ rest, int (length pre + length mid)) =
      Some (pre @ uvarint v @ rest, int (length pre))"
    using put_varint_loop_emits [OF len, of pre rest]
    by (simp add: put_uvarint_def encodeVarintPacket_def Let_def length_uvarint)
qed

lemma emits_put_byte [emit_rules]: "emits (put_byte b) [b]"
  by (rule emitsI) (auto simp: put_byte_def length_Suc_conv go_set_mid)

text \<open>The entry of a map and a nested message: what was just written is prefixed with its length.\<close>

lemma emits_length_prefixed:
  assumes "emits f s"
  shows "emits (\<lambda>w. do {
      w' \<leftarrow> f w;
      w' \<leftarrow> put_uvarint (word_of_int (snd w - snd w')) w';
      put_byte tag w'
    }) (tag # uvarint (of_nat (length s)) @ s)" (is "emits ?h _")
proof (rule emitsI)
  fix pre mid rest :: bytes
  let ?t = "tag # uvarint (of_nat (length s))"
  assume len: "length mid = length (tag # uvarint (of_nat (length s)) @ s)"
  define m1 m2 where "m1 = take (length ?t) mid" and "m2 = drop (length ?t) mid"
  have mid: "mid = m1 @ m2" and m1: "length m1 = length ?t" and m2: "length m2 = length s"
    using len by (simp_all add: m1_def m2_def)
  have prefix: "emits (\<lambda>w'. Option.bind (put_uvarint (of_nat (length s)) w') (put_byte tag)) ?t"
    using emits_bind [OF emits_put_uvarint emits_put_byte, of "of_nat (length s)" tag] by simp
  have "f ((pre @ m1) @ m2 @ rest, int (length (pre @ m1) + length m2)) =
      Some ((pre @ m1) @ s @ rest, int (length (pre @ m1)))"
    by (rule emitsD [OF assms m2])
  then have "?h (pre @ mid @ rest, int (length pre + length mid)) =
      Option.bind (put_uvarint (of_nat (length s)) (pre @ m1 @ s @ rest, int (length pre + length m1)))
        (put_byte tag)"
    by (simp add: mid m2 add.assoc)
  also have "\<dots> = Some (pre @ ?t @ s @ rest, int (length pre))"
    by (rule emitsD [OF prefix m1])
  finally show "?h (pre @ mid @ rest, int (length pre + length mid)) =
      Some (pre @ (tag # uvarint (of_nat (length s)) @ s) @ rest, int (length pre))"
    by simp
qed

section \<open>The reference encoding of fields\<close>

definition enc_varint_field :: "byte \<Rightarrow> u64 \<Rightarrow> bytes" where
  "enc_varint_field tag v = tag # uvarint v"

definition enc_bytes_field :: "byte \<Rightarrow> bytes \<Rightarrow> bytes" where
  "enc_bytes_field tag s = tag # uvarint (of_nat (length s)) @ s"

definition enc_map_entry :: "byte \<Rightarrow> bytes \<Rightarrow> bytes \<Rightarrow> bytes" where
  "enc_map_entry tag k v =
     enc_bytes_field tag (enc_bytes_field 0x0a k @ enc_bytes_field 0x12 v)"

definition enc_map :: "byte \<Rightarrow> gomap \<Rightarrow> bytes list \<Rightarrow> bytes" where
  "enc_map tag m ks = concat (map (\<lambda>k. enc_map_entry tag k (map_get m k)) (rev ks))"

definition enc_bool_field :: "byte \<Rightarrow> bytes" where
  "enc_bool_field tag = enc_varint_field tag 1"

lemma emits_varint_field [emit_rules]:
  "emits (put_varint_field tag v) (enc_varint_field tag v)"
  using emits_bind [OF emits_put_uvarint emits_put_byte]
  by (simp add: put_varint_field_def [abs_def] enc_varint_field_def)

lemma emits_bool_field [emit_rules]:
  "emits (put_bool_field tag b) [tag, if b then 1 else 0]"
  using emits_bind [OF emits_put_byte emits_put_byte, of "if b then 1 else 0" tag]
  by (simp add: put_bool_field_def [abs_def])

lemma enc_bool_field_eq: "enc_bool_field tag = [tag, 1]"
  by (simp add: enc_bool_field_def enc_varint_field_def uvarint.simps not_le word_less_nat_alt)

lemma emits_bytes_field [emit_rules]:
  "emits (put_bytes_field tag s) (enc_bytes_field tag s)"
  using emits_bind [OF emits_put_bytes emits_bind [OF emits_put_uvarint emits_put_byte]]
  by (simp add: put_bytes_field_def [abs_def] enc_bytes_field_def)

lemma put_map_entry_fields:
  "put_map_entry tag k v w =
     do {
       w' \<leftarrow> do { w \<leftarrow> put_bytes_field 0x12 v w; put_bytes_field 0x0a k w };
       w' \<leftarrow> put_uvarint (word_of_int (snd w - snd w')) w';
       put_byte tag w'
     }"
  by (simp add: put_map_entry_def put_bytes_field_def Let_def)

lemma emits_map_entry [emit_rules]:
  "emits (put_map_entry tag k v) (enc_map_entry tag k v)"
proof -
  have "emits (\<lambda>w. do { w \<leftarrow> put_bytes_field 0x12 v w; put_bytes_field 0x0a k w })
      (enc_bytes_field 0x0a k @ enc_bytes_field 0x12 v)"
    by (intro emit_rules)
  from emits_length_prefixed [OF this, of tag] show ?thesis
    by (simp only: put_map_entry_fields [abs_def] enc_map_entry_def
        enc_bytes_field_def [of tag])
qed

lemma emits_put_map [emit_rules]: "emits (put_map tag m ks) (enc_map tag m ks)"
proof (induction ks)
  case Nil
  show ?case by (simp add: enc_map_def emits_def)
next
  case (Cons k ks)
  then show ?case
    using emits_bind [OF emits_map_entry Cons.IH, of tag k "map_get m k"]
    by (simp add: enc_map_def emits_def)
qed

lemma emits_message_field [emit_rules]:
  assumes "fills sub s"
  shows "emits (put_message_field tag sub) (enc_bytes_field tag s)"
proof -
  let ?f = "\<lambda>w. case w of (dAtA, i) \<Rightarrow>
      do { (pre, size) \<leftarrow> sub (take (nat i) dAtA); Some (pre @ drop (nat i) dAtA, i - size) }"
  have "emits ?f s"
  proof (rule emitsI)
    fix pre mid rest :: bytes
    assume "length mid = length s"
    moreover from this have "sub (pre @ mid) = Some (pre @ s, int (length s))"
      using assms by (simp add: fills_def)
    ultimately show "?f (pre @ mid @ rest, int (length pre + length mid)) =
        Some (pre @ s @ rest, int (length pre))"
      by simp
  qed
  from emits_length_prefixed [OF this, of tag] show ?thesis
    by (simp add: put_message_field_def [abs_def] enc_bytes_field_def Let_def case_prod_unfold
        Option.bind_assoc)
qed

lemma fills_intro:
  assumes "emits f s"
  shows "fills (\<lambda>dAtA. do { w \<leftarrow> f (dAtA, int (length dAtA)); Some (fst w, int (length dAtA) - snd w) }) s"
  unfolding fills_def
proof (intro allI impI)
  fix pre mid :: bytes
  assume "length mid = length s"
  with emitsD [OF assms this, of pre "[]"]
  show "(do { w \<leftarrow> f (pre @ mid, int (length (pre @ mid)));
      Some (fst w, int (length (pre @ mid)) - snd w) }) = Some (pre @ s, int (length s))"
    by simp
qed

section \<open>Sizes\<close>

text \<open>The summands of the generated \<open>Size\<close> functions.\<close>

definition size_varint_field :: "u64 \<Rightarrow> nat" where
  "size_varint_field v = 1 + sovPacket v"

definition size_bytes_field :: "nat \<Rightarrow> nat" where
  "size_bytes_field l = 1 + l + sovPacket (of_nat l)"

definition size_map_entry :: "bytes \<Rightarrow> bytes \<Rightarrow> nat" where
  "size_map_entry k v =
     (let mapEntrySize = 1 + length k + sovPacket (of_nat (length k))
                       + 1 + length v + sovPacket (of_nat (length v))
      in mapEntrySize + 1 + sovPacket (of_nat mapEntrySize))"

fun size_map :: "gomap \<Rightarrow> bytes list \<Rightarrow> nat" where
  "size_map m [] = 0"
| "size_map m (k # ks) = size_map_entry k (map_get m k) + size_map m ks"

lemma length_enc_varint_field [simp]: "length (enc_varint_field tag v) = size_varint_field v"
  by (simp add: enc_varint_field_def size_varint_field_def length_uvarint)

lemma length_enc_bytes_field [simp]: "length (enc_bytes_field tag s) = size_bytes_field (length s)"
  by (simp add: enc_bytes_field_def size_bytes_field_def length_uvarint)

lemma length_enc_map_entry: "length (enc_map_entry tag k v) = size_map_entry k v"
  by (simp add: enc_map_entry_def size_map_entry_def size_bytes_field_def Let_def add_ac)

lemma length_enc_map [simp]: "length (enc_map tag m ks) = size_map m ks"
  by (induction ks) (simp_all add: enc_map_def length_enc_map_entry)

text \<open>The size of a map does not depend on the order it is ranged over.\<close>

lemma size_map_sum: "size_map m ks = (\<Sum>k \<leftarrow> ks. size_map_entry k (map_get m k))"
  by (induction ks) simp_all

lemma size_map_order:
  assumes "range_order m ks" "range_order m ks'"
  shows "size_map m ks = size_map m ks'"
proof -
  have "distinct ks" "distinct ks'" "set ks = set ks'"
    using assms by (simp_all add: range_order_def)
  then show ?thesis
    by (simp add: size_map_sum sum_list_distinct_conv_sum_set)
qed

section \<open>Marshal\<close>

text \<open>\<^verbatim>\<open>size := m.Size(); dAtA = make([]byte, size); n, err := m.MarshalToSizedBuffer(dAtA[:size]); return dAtA[:n]\<close>\<close>

definition marshal_with :: "nat \<Rightarrow> (bytes \<Rightarrow> (bytes \<times> int) option) \<Rightarrow> bytes option" where
  "marshal_with sz to_sized =
     (let dAtA = replicate sz 0
      in do { (dAtA, n) \<leftarrow> to_sized dAtA; Some (take (nat n) dAtA) })"

lemma marshal_with_fills: "fills f s \<Longrightarrow> marshal_with (length s) f = Some s"
  using fillsD [of f s "replicate (length s) 0" "[]"] by (simp add: marshal_with_def)

text \<open>
  \<^verbatim>\<open>size := m.Size(); return m.MarshalToSizedBuffer(dAtA[:size])\<close>, a prefix of the caller's buffer;
  \<open>dAtA\<close> is that buffer up to its capacity, which is the bound of a slice expression.
\<close>

definition marshal_to_with ::
    "nat \<Rightarrow> (bytes \<Rightarrow> (bytes \<times> int) option) \<Rightarrow> bytes \<Rightarrow> (bytes \<times> int) option" where
  "marshal_to_with sz to_sized dAtA =
     (if sz \<le> length dAtA
      then do { (pre, n) \<leftarrow> to_sized (take sz dAtA); Some (pre @ drop sz dAtA, n) }
      else None)"

lemma marshal_to_with_fills:
  "fills f s \<Longrightarrow> length s \<le> length d \<Longrightarrow>
     marshal_to_with (length s) f d = Some (s @ drop (length s) d, int (length s))"
  using fillsD [of f s "take (length s) d" "[]"] by (simp add: marshal_to_with_def)

lemma emits_eq: "emits f s \<Longrightarrow> s = t \<Longrightarrow> emits f t"
  by simp

end
