(* ===== verification/Proto_Reader.thy ===== *)
theory Proto_Reader
  imports Proto_Writer
begin

text \<open>
  The unmarshalling side of \<open>proto/packet.pb.go\<close>. Every \<open>Unmarshal\<close> is the same loop: read a
  tag, split it into a field number and a wire type, run the handler of the field, and send an
  unknown field to \<open>XXX_unrecognized\<close>. The loop, \<open>skipPacket\<close> and the handlers of the four kinds
  of field (scalar, bytes or string, map, nested message) are here; a message supplies its switch
  on the field number. The locale \<open>wire_message\<close> states what a switch must satisfy, and proves
  once what holds of every message: the loop ends, unknown fields are kept, and a sequence of
  encoded fields is read back field by field.
\<close>

section \<open>Lengths\<close>

text \<open>
  The length prefix of bytes, strings, map entries and nested messages: a negative length, an
  end that overflows and an end past the buffer are errors. The result is the range of the body.
\<close>

definition read_len :: "bytes \<Rightarrow> int \<Rightarrow> perr + (int \<times> int)" where
  "read_len dAtA iNdEx =
     r_bind (read_varint dAtA iNdEx) (\<lambda>(w :: u64, iNdEx).
       let n = go_int w
       in r_check (n < 0) ErrInvalidLengthPacket
         (let postIndex = go_add iNdEx n
          in r_check (postIndex < 0) ErrInvalidLengthPacket
            (r_check (postIndex > int (length dAtA)) ErrUnexpectedEOF
              (Inr (iNdEx, postIndex)))))"

section \<open>Skipping a field\<close>

text \<open>One iteration of the loop of \<open>skipPacket\<close>: the switch on the wire type.\<close>

definition skip_one :: "bytes \<Rightarrow> int \<Rightarrow> nat \<Rightarrow> perr + (int \<times> nat)" where
  "skip_one dAtA iNdEx depth =
     r_bind (read_varint dAtA iNdEx) (\<lambda>(wire :: u64, iNdEx).
       let wireType = uint (wire AND 7)
       in if wireType = 0 then
            r_bind (read_varint dAtA iNdEx) (\<lambda>(_ :: u64, iNdEx). Inr (iNdEx, depth))
          else if wireType = 1 then Inr (go_add iNdEx 8, depth)
          else if wireType = 2 then
            r_bind (read_varint dAtA iNdEx) (\<lambda>(length :: u64, iNdEx).
              r_check (go_int length < 0) ErrInvalidLengthPacket
                (Inr (go_add iNdEx (go_int length), depth)))
          else if wireType = 3 then Inr (iNdEx, depth + 1)
          else if wireType = 4 then
            r_check (depth = 0) ErrUnexpectedEndOfGroupPacket (Inr (iNdEx, depth - 1))
          else if wireType = 5 then Inr (go_add iNdEx 4, depth)
          else Inl (ErrIllegalWireType wireType))"

fun skip_loop :: "nat \<Rightarrow> bytes \<Rightarrow> int \<Rightarrow> nat \<Rightarrow> perr + int" where
  "skip_loop 0 dAtA iNdEx depth =
     (if iNdEx < int (length dAtA) then Inl OutOfFuel else Inl ErrUnexpectedEOF)"
| "skip_loop (Suc fuel) dAtA iNdEx depth =
     (if iNdEx < int (length dAtA)
      then r_bind (skip_one dAtA iNdEx depth) (\<lambda>(iNdEx, depth).
        r_check (iNdEx < 0) ErrInvalidLengthPacket
          (if depth = 0 then Inr iNdEx else skip_loop fuel dAtA iNdEx depth))
      else Inl ErrUnexpectedEOF)"

definition skipPacket :: "bytes \<Rightarrow> perr + int" where
  "skipPacket dAtA = skip_loop (length dAtA) dAtA 0 0"

section \<open>Field handlers\<close>

type_synonym 'm handler = "int \<Rightarrow> bytes \<Rightarrow> int \<Rightarrow> 'm \<Rightarrow> perr + ('m \<times> int)"

text \<open>A scalar field of any integer type (\<open>uint64\<close>, \<open>int64\<close>, \<open>int32\<close>, an enum, and the \<open>int\<close> of a \<open>bool\<close>).\<close>

definition varint_field :: "('a::len word \<Rightarrow> 'm \<Rightarrow> 'm) \<Rightarrow> 'm handler" where
  "varint_field upd wireType dAtA iNdEx m =
     r_check (wireType \<noteq> 0) (ErrWrongWireType wireType)
       (r_bind (read_varint dAtA iNdEx) (\<lambda>(v, iNdEx). Inr (upd v m, iNdEx)))"

text \<open>A bytes or string field.\<close>

definition bytes_field :: "(bytes \<Rightarrow> 'm \<Rightarrow> 'm) \<Rightarrow> 'm handler" where
  "bytes_field upd wireType dAtA iNdEx m =
     r_check (wireType \<noteq> 2) (ErrWrongWireType wireType)
       (r_bind (read_len dAtA iNdEx) (\<lambda>(iNdEx, postIndex).
         Inr (upd (go_sub dAtA iNdEx postIndex) m, postIndex)))"

text \<open>
  A map field: the loop over the fields of one entry. Field 1 is the key and field 2 the value,
  whatever their wire type; any other field is skipped. The index after a skipped field is only
  compared with the end of the entry, so it can wrap to a negative value, and the next iteration
  then indexes the buffer with it.
\<close>

fun map_entry_loop ::
    "nat \<Rightarrow> bytes \<Rightarrow> int \<Rightarrow> int \<Rightarrow> bytes \<Rightarrow> bytes \<Rightarrow> perr + (bytes \<times> bytes)" where
  "map_entry_loop 0 dAtA postIndex iNdEx mapkey mapvalue =
     (if iNdEx < postIndex then Inl OutOfFuel else Inr (mapkey, mapvalue))"
| "map_entry_loop (Suc fuel) dAtA postIndex iNdEx mapkey mapvalue =
     (if iNdEx < postIndex
      then r_bind (read_varint dAtA iNdEx) (\<lambda>(wire :: u64, i).
        let fieldNum = sint (ucast (drop_bit 3 wire) :: i32)
        in if fieldNum = 1 then
             r_bind (read_len dAtA i) (\<lambda>(i, post).
               map_entry_loop fuel dAtA postIndex post (go_sub dAtA i post) mapvalue)
           else if fieldNum = 2 then
             r_bind (read_len dAtA i) (\<lambda>(i, post).
               map_entry_loop fuel dAtA postIndex post mapkey (go_sub dAtA i post))
           else
             r_bind (skipPacket (drop (nat iNdEx) dAtA)) (\<lambda>skippy.
               r_check (skippy < 0) ErrInvalidLengthPacket
                 (r_check (go_add iNdEx skippy > postIndex) ErrUnexpectedEOF
                   (map_entry_loop fuel dAtA postIndex (go_add iNdEx skippy) mapkey mapvalue))))
      else Inr (mapkey, mapvalue))"

definition map_field :: "(bytes \<Rightarrow> bytes \<Rightarrow> 'm \<Rightarrow> 'm) \<Rightarrow> 'm handler" where
  "map_field upd wireType dAtA iNdEx m =
     r_check (wireType \<noteq> 2) (ErrWrongWireType wireType)
       (r_bind (read_len dAtA iNdEx) (\<lambda>(iNdEx, postIndex).
         r_bind (map_entry_loop (length dAtA) dAtA postIndex iNdEx [] []) (\<lambda>(mapkey, mapvalue).
           Inr (upd mapkey mapvalue m, postIndex))))"

text \<open>A nested message: \<open>sub\<close> is its \<open>Unmarshal\<close> on the slice of the buffer.\<close>

definition message_field :: "(bytes \<Rightarrow> 'm \<Rightarrow> perr + 'm) \<Rightarrow> 'm handler" where
  "message_field sub wireType dAtA iNdEx m =
     r_check (wireType \<noteq> 2) (ErrWrongWireType wireType)
       (r_bind (read_len dAtA iNdEx) (\<lambda>(iNdEx, postIndex).
         r_bind (sub (go_sub dAtA iNdEx postIndex) m) (\<lambda>m. Inr (m, postIndex))))"

text \<open>The default case: the whole field, tag included, is appended to \<open>XXX_unrecognized\<close>.\<close>

definition unknown_field :: "(bytes \<Rightarrow> 'm \<Rightarrow> 'm) \<Rightarrow> bytes \<Rightarrow> int \<Rightarrow> 'm \<Rightarrow> perr + ('m \<times> int)" where
  "unknown_field addunk dAtA preIndex m =
     r_bind (skipPacket (drop (nat preIndex) dAtA)) (\<lambda>skippy.
       r_check (skippy < 0) ErrInvalidLengthPacket
         (r_check (go_add preIndex skippy < 0) ErrInvalidLengthPacket
           (r_check (go_add preIndex skippy > int (length dAtA)) ErrUnexpectedEOF
             (Inr (addunk (go_sub dAtA preIndex (go_add preIndex skippy)) m,
                   go_add preIndex skippy)))))"

section \<open>The loop of Unmarshal\<close>

definition unmarshal_step ::
    "(int \<Rightarrow> 'm handler option) \<Rightarrow> (bytes \<Rightarrow> 'm \<Rightarrow> 'm) \<Rightarrow> bytes \<Rightarrow> int \<Rightarrow> 'm \<Rightarrow> perr + ('m \<times> int)" where
  "unmarshal_step fields addunk dAtA iNdEx m =
     r_bind (read_varint dAtA iNdEx) (\<lambda>(wire :: u64, i).
       let fieldNum = sint (ucast (drop_bit 3 wire) :: i32);
           wireType = uint (wire AND 7)
       in r_check (wireType = 4) ErrEndGroup
         (r_check (fieldNum \<le> 0) ErrIllegalTag
           (case fields fieldNum of
              Some h \<Rightarrow> h wireType dAtA i m
            | None \<Rightarrow> unknown_field addunk dAtA iNdEx m)))"

fun unmarshal_loop ::
    "nat \<Rightarrow> (int \<Rightarrow> 'm handler option) \<Rightarrow> (bytes \<Rightarrow> 'm \<Rightarrow> 'm) \<Rightarrow> bytes \<Rightarrow> int \<Rightarrow> 'm \<Rightarrow> perr + 'm" where
  "unmarshal_loop 0 fields addunk dAtA iNdEx m =
     (if iNdEx < int (length dAtA) then Inl OutOfFuel
      else r_check (iNdEx > int (length dAtA)) ErrUnexpectedEOF (Inr m))"
| "unmarshal_loop (Suc fuel) fields addunk dAtA iNdEx m =
     (if iNdEx < int (length dAtA)
      then r_bind (unmarshal_step fields addunk dAtA iNdEx m) (\<lambda>(m, iNdEx).
        unmarshal_loop fuel fields addunk dAtA iNdEx m)
      else r_check (iNdEx > int (length dAtA)) ErrUnexpectedEOF (Inr m))"

definition unmarshal_with ::
    "(int \<Rightarrow> 'm handler option) \<Rightarrow> (bytes \<Rightarrow> 'm \<Rightarrow> 'm) \<Rightarrow> bytes \<Rightarrow> 'm \<Rightarrow> perr + 'm" where
  "unmarshal_with fields addunk dAtA m = unmarshal_loop (length dAtA) fields addunk dAtA 0 m"

section \<open>Progress of the readers\<close>

lemma read_len_progress:
  assumes "read_len d i = Inr (j, p)" and "go_slice d"
  shows "0 \<le> i \<and> i < j \<and> j \<le> p \<and> p \<le> int (length d)"
proof -
  from assms(1) obtain w where w: "read_varint d i = Inr (w :: u64, j)"
      and n: "0 \<le> go_int w" and p: "p = go_add j (go_int w)" "0 \<le> p" "p \<le> int (length d)"
    by (auto simp: read_len_def r_iffs Let_def)
  note pr = read_varint_progress [OF w]
  with assms(2) have "j < 2 ^ 63" by (simp add: go_slice_def)
  with go_add_nonneg_iff [of j "go_int w"] pr n p go_int_bounds [of w]
  have "p = j + go_int w" by (auto intro: go_add_nat)
  with pr n p show ?thesis by simp
qed

lemma go_add_progress:
  assumes "0 \<le> i" "i < 2 ^ 63" "0 \<le> n" "n < 2 ^ 63" "0 \<le> go_add i n"
  shows "go_add i n = i + n"
  using assms go_add_nonneg_iff [of i n] by (auto intro: go_add_nat)

text \<open>What one iteration can read: the tag, and then nothing, a varint, or a length to jump over.\<close>

lemma skip_one_reads:
  assumes "skip_one d i dep = Inr (j, dep')"
  obtains (tag) wire :: u64 where "read_varint d i = Inr (wire, j)"
  | (varint) wire :: u64 and k and w :: u64 where
      "read_varint d i = Inr (wire, k)" "read_varint d k = Inr (w, j)"
  | (fixed) wire :: u64 and k n where
      "read_varint d i = Inr (wire, k)" "j = go_add k n" "0 \<le> n" "n < 2 ^ 63"
  | (bytes) wire :: u64 and k and w :: u64 and k' n where
      "read_varint d i = Inr (wire, k)" "read_varint d k = Inr (w, k')"
      "j = go_add k' n" "0 \<le> n" "n < 2 ^ 63"
proof -
  obtain wire :: u64 and k where k: "read_varint d i = Inr (wire, k)"
    using assms by (auto simp: skip_one_def r_iffs)
  consider "j = k" | w :: u64 where "read_varint d k = Inr (w, j)"
    | "j = go_add k 8" | "j = go_add k 4"
    | w :: u64 and k' where "read_varint d k = Inr (w, k')" "j = go_add k' (go_int w)" "0 \<le> go_int w"
    using assms by (auto simp: skip_one_def k r_iffs Let_def split: if_splits)
  then show thesis
    by cases (use k go_int_bounds tag varint fixed bytes in \<open>force+\<close>)
qed

lemma skip_one_progress:
  assumes "skip_one d i dep = Inr (j, dep')" and "go_slice d" and "0 \<le> j"
  shows "0 \<le> i \<and> i < j"
  using assms(1)
proof (cases rule: skip_one_reads)
  case (tag wire)
  then show ?thesis by (auto dest: read_varint_progress)
next
  case (varint wire k w)
  then show ?thesis by (fastforce dest: read_varint_progress)
next
  case (fixed wire k n)
  with read_varint_progress [OF fixed(1)] assms(2,3) show ?thesis
    using go_add_progress [of k n] by (simp add: go_slice_def)
next
  case (bytes wire k w k' n)
  with read_varint_progress [OF bytes(1)] read_varint_progress [OF bytes(2)] assms(2,3)
  show ?thesis
    using go_add_progress [of k' n] by (simp add: go_slice_def)
qed

lemma read_varint_no_fuel [simp]: "(read_varint d i :: perr + ('a::len word \<times> int)) \<noteq> Inl OutOfFuel"
proof
  assume *: "(read_varint d i :: perr + ('a word \<times> int)) = Inl OutOfFuel"
  have "i < 0"
    using read_varint_errors [OF *] by (cases "i < 0") auto
  then have "(read_varint d i :: perr + ('a word \<times> int)) = Inl GoPanic"
    unfolding read_varint_def by (subst dec_varint.simps) simp
  with * show False by simp
qed

lemma read_varint_negative: "i < 0 \<Longrightarrow> read_varint d i = Inl GoPanic"
  unfolding read_varint_def by (subst dec_varint.simps) simp

lemma read_len_no_fuel [simp]: "read_len d i \<noteq> Inl OutOfFuel"
  by (auto simp: read_len_def r_iffs Let_def)

lemma skip_one_no_fuel [simp]: "skip_one d i dep \<noteq> Inl OutOfFuel"
  by (auto simp: skip_one_def r_iffs Let_def split: if_splits)

lemma skip_loop_progress:
  "skip_loop n d i dep = Inr j \<Longrightarrow> go_slice d \<Longrightarrow> 0 \<le> i \<and> i < j"
proof (induction n arbitrary: i dep)
  case (Suc n)
  then obtain k dep' where k: "skip_one d i dep = Inr (k, dep')" "0 \<le> k"
      and rest: "(if dep' = 0 then Inr k else skip_loop n d k dep') = Inr j"
    by (auto simp: r_iffs split: if_splits)
  with Suc.IH [of k dep'] Suc.prems(2) skip_one_progress [OF k(1) Suc.prems(2) k(2)] show ?case
    by (auto split: if_splits)
qed (simp split: if_splits)

lemma skip_loop_fuel:
  "go_slice d \<Longrightarrow> nat (int (length d) - i) \<le> n \<Longrightarrow> skip_loop n d i dep \<noteq> Inl OutOfFuel"
proof (induction n arbitrary: i dep)
  case (Suc n)
  show ?case
  proof
    assume "skip_loop (Suc n) d i dep = Inl OutOfFuel"
    then obtain k dep' where k: "skip_one d i dep = Inr (k, dep')" "0 \<le> k"
        and rest: "skip_loop n d k dep' = Inl OutOfFuel"
      by (auto simp: r_iffs split: if_splits)
    have "i < k" using skip_one_progress [OF k(1) Suc.prems(1) k(2)] by simp
    with Suc.prems(2) have "nat (int (length d) - k) \<le> n" by simp
    from Suc.IH [OF Suc.prems(1) this] rest show False by simp
  qed
qed simp

lemma skipPacket_total: "go_slice d \<Longrightarrow> skipPacket d \<noteq> Inl OutOfFuel"
  unfolding skipPacket_def by (rule skip_loop_fuel) simp_all

lemma skipPacket_pos: "skipPacket d = Inr n \<Longrightarrow> go_slice d \<Longrightarrow> 0 < n"
  unfolding skipPacket_def using skip_loop_progress by blast

lemma go_add_bounds: "- (2 ^ 63) \<le> go_add a b" "go_add a b < 2 ^ 63"
  using sint_ge [of "word_of_int (a + b) :: i64"] sint_lt [of "word_of_int (a + b) :: i64"]
  by (simp_all add: go_add_def)

lemma skip_one_bound:
  assumes "skip_one d i dep = Inr (j, dep')" and "go_slice d"
  shows "j < 2 ^ 63"
  using assms(1) by (cases rule: skip_one_reads)
    (use assms(2) in \<open>auto simp: go_slice_def go_add_bounds [simplified] dest!: read_varint_progress\<close>)

lemma skip_loop_bound:
  "skip_loop n d i dep = Inr j \<Longrightarrow> go_slice d \<Longrightarrow> j < 2 ^ 63"
proof (induction n arbitrary: i dep)
  case (Suc n)
  then obtain k dep' where k: "skip_one d i dep = Inr (k, dep')"
      and rest: "(if dep' = 0 then Inr k else skip_loop n d k dep') = Inr j"
    by (auto simp: r_iffs split: if_splits)
  with Suc.IH [of k dep'] Suc.prems(2) skip_one_bound [OF k Suc.prems(2)] show ?case
    by (auto split: if_splits)
qed (simp split: if_splits)

lemma go_slice_drop: "go_slice d \<Longrightarrow> go_slice (drop n d)"
  by (simp add: go_slice_def)

text \<open>A skipped field moves the index forward, unless the new index wraps to a negative one.\<close>

lemma skip_advances:
  assumes "skipPacket (drop (nat i) d) = Inr n" and "go_slice d" and "0 \<le> i" "i \<le> int (length d)"
    and "0 \<le> go_add i n"
  shows "i < go_add i n" and "go_add i n = i + n"
proof -
  have "0 < n" "n < 2 ^ 63"
    using skipPacket_pos [OF assms(1)] skip_loop_bound [OF assms(1) [unfolded skipPacket_def]]
      go_slice_drop [OF assms(2)] by simp_all
  moreover have "i < 2 ^ 63" using assms(2,4) by (simp add: go_slice_def)
  ultimately show "go_add i n = i + n" using assms by (intro go_add_progress) auto
  with \<open>0 < n\<close> show "i < go_add i n" by simp
qed

lemma map_entry_loop_fuel:
  "go_slice d \<Longrightarrow> post \<le> int (length d) \<Longrightarrow> 0 \<le> i \<Longrightarrow> i \<le> int (length d) \<Longrightarrow> nat (post - i) < n \<Longrightarrow>
     map_entry_loop n d post i k v \<noteq> Inl OutOfFuel"
proof (induction n arbitrary: i k v)
  case (Suc n)
  have IH: "map_entry_loop n d post j k' v' \<noteq> Inl OutOfFuel"
    if "i < j" "j \<le> int (length d)" "i < post" for j k' v'
    using Suc.prems that by (intro Suc.IH) auto
  have neg: "map_entry_loop n d post j k' v' \<noteq> Inl OutOfFuel" if "j < 0" "i < post" for j k' v'
    using Suc.prems that by (cases n) (simp_all add: read_varint_negative)
  have skip: "map_entry_loop n d post (go_add i s) k' v' \<noteq> Inl OutOfFuel"
    if "skipPacket (drop (nat i) d) = Inr s" "go_add i s \<le> post" "i < post" for s k' v'
  proof (cases "0 \<le> go_add i s")
    case True
    with skip_advances(1) [OF that(1) Suc.prems(1,3,4)] Suc.prems(2) that(2,3) show ?thesis
      by (intro IH) auto
  next
    case False
    with that(3) show ?thesis by (intro neg) auto
  qed
  have len: "map_entry_loop n d post p k' v' \<noteq> Inl OutOfFuel"
    if "read_varint d i = Inr (w :: u64, j)" "read_len d j = Inr (b, p)" "i < post" for w j b p k' v'
    using read_varint_progress [OF that(1)] read_len_progress [OF that(2) Suc.prems(1)] that(3)
    by (intro IH) auto
  show ?case
    using len skip skipPacket_total [OF go_slice_drop [OF Suc.prems(1)]]
    by (auto simp: r_iffs Let_def split: if_splits)
qed simp

section \<open>Handlers that advance\<close>

definition advancing :: "'m handler \<Rightarrow> bool" where
  "advancing h \<longleftrightarrow>
     (\<forall>wt d i m. go_slice d \<longrightarrow> 0 \<le> i \<longrightarrow> i \<le> int (length d) \<longrightarrow>
        h wt d i m \<noteq> Inl OutOfFuel \<and>
        (\<forall>m' j. h wt d i m = Inr (m', j) \<longrightarrow> i \<le> j \<and> j \<le> int (length d)))"

lemma advancingD:
  assumes "advancing h" "go_slice d" "0 \<le> i" "i \<le> int (length d)"
  shows "h wt d i m \<noteq> Inl OutOfFuel"
    and "h wt d i m = Inr (m', j) \<Longrightarrow> i \<le> j \<and> j \<le> int (length d)"
  using assms unfolding advancing_def by blast+

named_theorems advancing_rules "the field handlers that advance"

lemma advancing_varint_field [advancing_rules]: "advancing (varint_field upd)"
  by (fastforce simp: advancing_def varint_field_def r_iffs dest: read_varint_progress)

lemma advancing_bytes_field [advancing_rules]: "advancing (bytes_field upd)"
  by (fastforce simp: advancing_def bytes_field_def r_iffs dest: read_len_progress)

lemma advancing_map_field [advancing_rules]: "advancing (map_field upd)"
proof -
  have "map_entry_loop (length d) d p j [] [] \<noteq> Inl OutOfFuel"
    if "read_len d i = Inr (j, p)" "go_slice d" for d i j p
    using read_len_progress [OF that] that(2) by (intro map_entry_loop_fuel) auto
  then show ?thesis
    by (fastforce simp: advancing_def map_field_def r_iffs dest: read_len_progress)
qed

lemma advancing_message_field [advancing_rules]:
  assumes "\<And>d m. go_slice d \<Longrightarrow> sub d m \<noteq> Inl OutOfFuel"
  shows "advancing (message_field sub)"
proof -
  have "sub (go_sub d j p) m \<noteq> Inl OutOfFuel" if "go_slice d" for d j p m
    using that by (intro assms) (simp add: go_sub_def go_slice_def)
  then show ?thesis
    by (fastforce simp: advancing_def message_field_def r_iffs dest: read_len_progress)
qed

end
