(* ===== verification/Wire_Message.thy ===== *)
theory Wire_Message
  imports Proto_Reader
begin

text \<open>
  The contract of a generated message and what follows from it. A message gives the loop of
  \<open>Unmarshal\<close> its switch (\<open>fields\<close>) and the update that keeps unknown bytes (\<open>addunk\<close>). The
  locale \<open>wire_message\<close> requires that handlers advance and that unknown bytes are appended; it
  gives termination of \<open>Unmarshal\<close> on any input, the rules that read a marshalled message back
  field by field, and the preservation of unknown fields. Each message of \<open>packet.pb.go\<close>
  interprets it.
\<close>

section \<open>Reads that do not depend on their surroundings\<close>

lemma dec_varint_context:
  "dec_varint c i s v = Inr (w, j) \<Longrightarrow>
     dec_varint (pre @ c @ post) (int (length pre) + i) s v = Inr (w, int (length pre) + j)"
proof (induction c i s v rule: dec_varint.induct)
  case (1 c i s v)
  note run = "1.prems" [unfolded dec_varint.simps [of c i s v]]
  from run have i: "s < 64" "0 \<le> i" "i < int (length c)"
    by (auto split: if_splits)
  then have nth: "(pre @ c @ post) ! nat (int (length pre) + i) = c ! nat i"
    by (simp add: nth_append nat_add_distrib nat_less_iff)
  have IH: "dec_varint (pre @ c @ post) (int (length pre) + i + 1) (s + 7)
        (v OR push_bit s (ucast (c ! nat i AND 0x7F))) = Inr (w, int (length pre) + j)"
    if "\<not> c ! nat i < 0x80"
    using "1.IH" that i run by (simp add: Let_def add.assoc)
  show ?case
    using i run IH
    by (subst dec_varint.simps) (auto simp: Let_def nth split: if_splits)
qed

lemma read_varint_context:
  "read_varint c i = Inr (w, j) \<Longrightarrow>
     read_varint (pre @ c @ post) (int (length pre) + i) = Inr (w, int (length pre) + j)"
  unfolding read_varint_def by (rule dec_varint_context)

lemma read_varint_append: "read_varint c i = Inr (w, j) \<Longrightarrow> read_varint (c @ post) i = Inr (w, j)"
  using read_varint_context [of c i w j "[]" post] by simp

lemma skip_one_append:
  assumes "skip_one c i dep = Inr (j, dep')"
  shows "skip_one (c @ post) i dep = Inr (j, dep')"
proof -
  obtain wire :: u64 and k where k: "read_varint c i = Inr (wire, k)"
    using assms by (auto simp: skip_one_def r_iffs)
  note k' = read_varint_append [OF k, of post]
  show ?thesis
  proof (cases "read_varint c k :: perr + (u64 \<times> int)")
    case (Inl e)
    with assms show ?thesis
      by (auto simp: skip_one_def k k' Let_def split: if_splits)
  next
    case (Inr r)
    then have "(read_varint (c @ post) k :: perr + (u64 \<times> int)) = Inr r"
      by (cases r) (simp add: read_varint_append)
    with assms Inr show ?thesis
      by (simp add: skip_one_def k k' Let_def cong: if_cong)
  qed
qed

lemma skip_loop_append:
  "skip_loop n c i dep = Inr j \<Longrightarrow> n \<le> n' \<Longrightarrow> skip_loop n' (c @ post) i dep = Inr j"
proof (induction n arbitrary: i dep n')
  case (Suc n)
  then obtain n'' where n': "n' = Suc n''" "n \<le> n''" by (cases n') auto
  from Suc.prems(1) obtain k dep' where k: "skip_one c i dep = Inr (k, dep')" "0 \<le> k"
      and i: "i < int (length c)"
      and rest: "(if dep' = 0 then Inr k else skip_loop n c k dep') = Inr j"
    by (auto simp: r_iffs split: if_splits)
  then show ?case
    using Suc.IH [of k dep' n''] n' by (auto simp: skip_one_append split: if_splits)
qed (simp split: if_splits)

lemma skipPacket_append: "skipPacket c = Inr j \<Longrightarrow> skipPacket (c @ post) = Inr j"
  unfolding skipPacket_def by (erule skip_loop_append) simp

section \<open>Reading a field where it occurs\<close>

text \<open>\<open>unmarshal_from\<close> is the loop with the fuel that is left when it has reached an index.\<close>

definition unmarshal_from ::
    "(int \<Rightarrow> 'm handler option) \<Rightarrow> (bytes \<Rightarrow> 'm \<Rightarrow> 'm) \<Rightarrow> bytes \<Rightarrow> int \<Rightarrow> 'm \<Rightarrow> perr + 'm" where
  "unmarshal_from fields addunk d i m =
     unmarshal_loop (nat (int (length d) - i)) fields addunk d i m"

text \<open>A stretch \<open>p\<close> of a buffer that the loop consumes, with the effect \<open>f\<close> on the message.\<close>

definition reads ::
    "(int \<Rightarrow> 'm handler option) \<Rightarrow> (bytes \<Rightarrow> 'm \<Rightarrow> 'm) \<Rightarrow> bytes \<Rightarrow> ('m \<Rightarrow> 'm) \<Rightarrow> bool" where
  "reads fields addunk p f \<longleftrightarrow>
     (\<forall>d i m. go_slice d \<longrightarrow> occurs_at d i p \<longrightarrow>
        unmarshal_from fields addunk d i m =
        unmarshal_from fields addunk d (i + int (length p)) (f m))"

text \<open>A handler that decodes the body \<open>s\<close> of a field.\<close>

definition delivers :: "'m handler \<Rightarrow> int \<Rightarrow> bytes \<Rightarrow> ('m \<Rightarrow> 'm) \<Rightarrow> bool" where
  "delivers h wt s f \<longleftrightarrow>
     (\<forall>d i m. go_slice d \<longrightarrow> occurs_at d i s \<longrightarrow> h wt d i m = Inr (f m, i + int (length s)))"

lemma delivers_varint: "delivers (varint_field upd) 0 (uvarint v) (upd (ucast v))"
  by (simp add: delivers_def varint_field_def read_varint_uvarint)

lemma read_len_prefix:
  assumes "go_slice d" and "occurs_at d i (uvarint (of_nat (length s)) @ s)"
  shows "read_len d i = Inr (i + int (length (uvarint (of_nat (length s)))),
           i + int (length (uvarint (of_nat (length s)) @ s)))"
proof -
  let ?j = "i + int (length (uvarint (of_nat (length s))))"
  have occ: "occurs_at d i (uvarint (of_nat (length s)))" "occurs_at d ?j s"
    using assms(2) by (simp_all add: occurs_at_append)
  note b = occurs_at_bounds [OF occ(1)] occurs_at_bounds [OF occ(2)]
  with assms(1) have "length s < 2 ^ 63" and sum: "?j + int (length s) < 2 ^ 63"
    by (simp_all add: go_slice_def)
  then have n: "go_int (of_nat (length s)) = int (length s)" by (intro go_int_of_nat)
  have "go_add ?j (int (length s)) = ?j + int (length s)"
    using b sum by (intro go_add_nat) auto
  then show ?thesis
    using b n by (simp add: read_len_def read_varint_uvarint [OF occ(1)] Let_def add.assoc)
qed

text \<open>The range of a length-prefixed body, and the body in it.\<close>

lemma read_len_body:
  assumes "go_slice d" and "occurs_at d i (uvarint (of_nat (length s)) @ s)"
  obtains j where "read_len d i = Inr (j, i + int (length (uvarint (of_nat (length s)) @ s)))"
    and "go_sub d j (i + int (length (uvarint (of_nat (length s)) @ s))) = s"
proof
  show "read_len d i = Inr (i + int (length (uvarint (of_nat (length s)))),
      i + int (length (uvarint (of_nat (length s)) @ s)))"
    by (rule read_len_prefix [OF assms])
  show "go_sub d (i + int (length (uvarint (of_nat (length s) :: u64))))
      (i + int (length (uvarint (of_nat (length s)) @ s))) = s"
    using assms(2) by (auto simp: occurs_at_append add.assoc dest: go_sub_occurs)
qed

lemma delivers_bytes:
  "delivers (bytes_field upd) 2 (uvarint (of_nat (length s)) @ s) (upd s)"
  unfolding delivers_def
proof (intro allI impI)
  fix d i m
  assume "go_slice d" "occurs_at d i (uvarint (of_nat (length s)) @ s)"
  then show "bytes_field upd 2 d i m = Inr (upd s m, i + int (length (uvarint (of_nat (length s)) @ s)))"
    by (rule read_len_body) (simp add: bytes_field_def)
qed

lemma delivers_message:
  assumes "\<And>m. sub s m = Inr (f m)"
  shows "delivers (message_field sub) 2 (uvarint (of_nat (length s)) @ s) f"
  unfolding delivers_def
proof (intro allI impI)
  fix d i m
  assume "go_slice d" "occurs_at d i (uvarint (of_nat (length s)) @ s)"
  then show "message_field sub 2 d i m = Inr (f m, i + int (length (uvarint (of_nat (length s)) @ s)))"
    by (rule read_len_body) (simp add: message_field_def assms)
qed

section \<open>Maps\<close>

lemma read_varint_tag:
  assumes "occurs_at d i (tag # s)" and "tag < 0x80"
  shows "read_varint d i = Inr (ucast tag :: u64, i + 1)" and "occurs_at d (i + 1) s"
proof -
  have small: "(ucast tag :: u64) < 0x80"
    using assms(2) by (simp add: word_less_nat_alt unsigned_ucast_eq unsigned_take_bit_eq
        take_bit_nat_eq_self)
  then have "uvarint (ucast tag) = [tag]"
    using uvarint_small [OF small] by (simp add: ucast_up_ucast_id is_up)
  moreover have "occurs_at d i ([tag] @ s)" using assms(1) by simp
  ultimately show "read_varint d i = Inr (ucast tag :: u64, i + 1)" "occurs_at d (i + 1) s"
    using read_varint_uvarint [of d i "ucast tag :: u64", where 'a = 64]
    by (simp_all only: occurs_at_append) simp_all
qed

lemma map_entry_loop_end [simp]: "map_entry_loop n d post post k v = Inr (k, v)"
  by (cases n) simp_all

lemma map_entry_loop_entry:
  assumes "go_slice d" and "2 \<le> n"
    and "occurs_at d i (enc_bytes_field 0x0a k @ enc_bytes_field 0x12 v)"
    and "post = i + int (length (enc_bytes_field 0x0a k @ enc_bytes_field 0x12 v))"
  shows "map_entry_loop n d post i [] [] = Inr (k, v)"
proof -
  obtain n' where n: "n = Suc (Suc n')" using assms(2) by (metis Suc_le_D numeral_2_eq_2 Suc_le_mono)
  let ?k = "uvarint (of_nat (length k)) @ k" and ?v = "uvarint (of_nat (length v)) @ v"
  have k: "occurs_at d i (0x0a # ?k)" and v: "occurs_at d (i + 1 + int (length ?k)) (0x12 # ?v)"
    using assms(3) occurs_at_append [of d i "0x0a # ?k" "0x12 # ?v"]
    by (simp_all add: enc_bytes_field_def add_ac)
  define q where "q = i + 1 + int (length ?k)"
  have tk: "read_varint d i = Inr (ucast (0x0a :: byte) :: u64, i + 1)" "occurs_at d (i + 1) ?k"
    by (rule read_varint_tag [OF k]; simp)+
  have tv: "read_varint d q = Inr (ucast (0x12 :: byte) :: u64, q + 1)" "occurs_at d (q + 1) ?v"
    unfolding q_def by (rule read_varint_tag [OF v]; simp)+
  have post: "post = q + 1 + int (length ?v)"
    using assms(4) by (simp add: q_def enc_bytes_field_def)
  obtain a where rk: "read_len d (i + 1) = Inr (a, q)" "go_sub d a q = k"
    using read_len_body [OF assms(1) tk(2)] unfolding q_def by blast
  obtain b where rv: "read_len d (q + 1) = Inr (b, post)" "go_sub d b post = v"
    using read_len_body [OF assms(1) tv(2)] unfolding post by blast
  have "i < post" "q < post" using post by (simp_all add: q_def)
  then show ?thesis
    unfolding n using tk(1) tv(1) rk rv by simp
qed

text \<open>A map field: one entry, in the order the writer stores it.\<close>

lemma delivers_map:
  fixes k v :: bytes
  defines "body \<equiv> enc_bytes_field 0x0a k @ enc_bytes_field 0x12 v"
  shows "delivers (map_field upd) 2 (uvarint (of_nat (length body)) @ body) (upd k v)"
  unfolding delivers_def
proof (intro allI impI)
  fix d i m
  assume d: "go_slice d" and occ: "occurs_at d i (uvarint (of_nat (length body)) @ body)"
  let ?j = "i + int (length (uvarint (of_nat (length body) :: u64)))"
  have b: "occurs_at d ?j body" using occ by (simp add: occurs_at_append)
  have "2 \<le> length d"
    using occurs_at_bounds [OF b] by (simp add: body_def enc_bytes_field_def)
  then have "map_entry_loop (length d) d (i + int (length (uvarint (of_nat (length body)) @ body))) ?j [] []
      = Inr (k, v)"
    using b by (intro map_entry_loop_entry [OF d]) (simp_all add: body_def)
  then show "map_field upd 2 d i m =
      Inr (upd k v m, i + int (length (uvarint (of_nat (length body)) @ body)))"
    by (simp only: map_field_def read_len_prefix [OF d occ]) simp
qed


section \<open>The contract of a message\<close>

text \<open>A field the message does not know, well-formed enough to be skipped to its exact end.\<close>

definition unknown_chunk :: "(int \<Rightarrow> 'm handler option) \<Rightarrow> bytes \<Rightarrow> bool" where
  "unknown_chunk fields c \<longleftrightarrow>
     (case read_varint c 0 of
        Inl _ \<Rightarrow> False
      | Inr (wire :: u64, _) \<Rightarrow>
          let fieldNum = sint (ucast (drop_bit 3 wire) :: i32)
          in 0 < fieldNum \<and> fields fieldNum = None \<and> uint (wire AND 7) \<noteq> 4 \<and>
             skipPacket c = Inr (int (length c)))"

text \<open>A one-byte tag is a field number and a wire type.\<close>

definition tag_is :: "byte \<Rightarrow> int \<Rightarrow> int \<Rightarrow> bool" where
  "tag_is tag n wt \<longleftrightarrow>
     tag < 0x80 \<and> sint (ucast (drop_bit 3 (ucast tag :: u64)) :: i32) = n \<and> 0 < n \<and>
     uint ((ucast tag :: u64) AND 7) = wt"

locale wire_message =
  fixes fields :: "int \<Rightarrow> 'm handler option"
    and addunk :: "bytes \<Rightarrow> 'm \<Rightarrow> 'm"
  assumes fields_advance: "fields n = Some h \<Longrightarrow> advancing h"
    and addunk_append: "addunk b (addunk a m) = addunk (a @ b) m"
    and addunk_Nil: "addunk [] m = m"
begin

lemma unknown_field_advance:
  assumes "go_slice d" "0 \<le> i" "i \<le> int (length d)"
  shows "unknown_field addunk d i m \<noteq> Inl OutOfFuel"
    and "unknown_field addunk d i m = Inr (m', j) \<Longrightarrow> i < j \<and> j \<le> int (length d)"
  using skipPacket_total [OF go_slice_drop [OF assms(1)], of "nat i"]
    skip_advances(1) [OF _ assms]
  by (auto simp: unknown_field_def r_iffs)

lemma step_advance:
  assumes "go_slice d" "0 \<le> i" "i \<le> int (length d)"
  shows "unmarshal_step fields addunk d i m \<noteq> Inl OutOfFuel"
    and "unmarshal_step fields addunk d i m = Inr (m', j) \<Longrightarrow> i < j \<and> j \<le> int (length d)"
proof -
  have h: "h wt d k m \<noteq> Inl OutOfFuel \<and> (h wt d k m = Inr (m', j) \<longrightarrow> i < j \<and> j \<le> int (length d))"
    if "fields n = Some h" "read_varint d i = Inr (w :: u64, k)" for n h wt w k m' j
  proof -
    have k: "0 \<le> k" "i < k" "k \<le> int (length d)"
      using read_varint_progress [OF that(2)] by auto
    show ?thesis
      using advancingD [OF fields_advance [OF that(1)] assms(1) k(1,3), of wt m] k(2) by fastforce
  qed
  show "unmarshal_step fields addunk d i m \<noteq> Inl OutOfFuel"
    using h unknown_field_advance(1) [OF assms]
    by (auto simp: unmarshal_step_def r_iffs Let_def split: option.splits)
  show "i < j \<and> j \<le> int (length d)" if "unmarshal_step fields addunk d i m = Inr (m', j)"
    using that h unknown_field_advance(2) [OF assms]
    by (auto simp: unmarshal_step_def r_iffs Let_def split: option.splits)
qed

text \<open>The fuel is enough: the loop ends on every input, with any fuel that covers what is left.\<close>

lemma loop_fuel:
  "go_slice d \<Longrightarrow> 0 \<le> i \<Longrightarrow> i \<le> int (length d) \<Longrightarrow> nat (int (length d) - i) \<le> n \<Longrightarrow>
     unmarshal_loop n fields addunk d i m \<noteq> Inl OutOfFuel \<and>
     unmarshal_loop n fields addunk d i m = unmarshal_from fields addunk d i m"
proof (induction n arbitrary: i m rule: less_induct)
  case (less n)
  show ?case
  proof (cases "i < int (length d)")
    case False
    then show ?thesis
      by (cases n) (simp_all add: unmarshal_from_def r_check_def)
  next
    case True
    with less.prems obtain n' where n: "n = Suc n'" by (cases n) auto
    obtain k where k: "nat (int (length d) - i) = Suc k" "k \<le> n'"
      using True less.prems(4) n by (cases "nat (int (length d) - i)") auto
    show ?thesis
    proof (cases "unmarshal_step fields addunk d i m")
      case (Inl e)
      then show ?thesis
        using step_advance(1) [OF less.prems(1-3), of m] True n k
        by (simp add: unmarshal_from_def)
    next
      case (Inr r)
      obtain m' j where r: "r = (m', j)" by (cases r)
      have j: "i < j" "j \<le> int (length d)"
        using step_advance(2) [OF less.prems(1-3)] Inr r by blast+
      have "nat (int (length d) - j) \<le> k" using j k(1) by simp
      then have "unmarshal_loop k fields addunk d j m' = unmarshal_from fields addunk d j m'"
        "unmarshal_loop n' fields addunk d j m' = unmarshal_from fields addunk d j m'"
        "unmarshal_from fields addunk d j m' \<noteq> Inl OutOfFuel"
        using less.IH [of n' j m'] less.IH [of k j m'] less.prems(1,2) j k(2) n by auto
      then show ?thesis
        using True Inr r n k(1) by (simp add: unmarshal_from_def)
    qed
  qed
qed

lemma unmarshal_total: "go_slice d \<Longrightarrow> unmarshal_with fields addunk d m \<noteq> Inl OutOfFuel"
  unfolding unmarshal_with_def using loop_fuel [of d 0 "length d" m] by auto

lemma unmarshal_with_from:
  "go_slice d \<Longrightarrow> unmarshal_with fields addunk d m = unmarshal_from fields addunk d 0 m"
  unfolding unmarshal_with_def using loop_fuel [of d 0 "length d" m] by simp

lemma unmarshal_from_step:
  assumes "go_slice d" "0 \<le> i" "i < int (length d)"
    and "unmarshal_step fields addunk d i m = Inr (m', j)"
  shows "unmarshal_from fields addunk d i m = unmarshal_from fields addunk d j m'"
proof -
  obtain k where k: "nat (int (length d) - i) = Suc k"
    using assms(3) by (cases "nat (int (length d) - i)") auto
  have "i < j" "j \<le> int (length d)"
    using step_advance(2) [OF assms(1,2)] assms(3,4) by auto
  then have "unmarshal_loop k fields addunk d j m' = unmarshal_from fields addunk d j m'"
    using k assms(1,2) loop_fuel [of d j k m'] by simp
  then show ?thesis
    using assms(3,4) k by (simp add: unmarshal_from_def)
qed

lemma readsI:
  assumes "p \<noteq> []"
    and "\<And>d i m. go_slice d \<Longrightarrow> occurs_at d i p \<Longrightarrow>
           unmarshal_step fields addunk d i m = Inr (f m, i + int (length p))"
  shows "reads fields addunk p f"
  unfolding reads_def
proof (intro allI impI)
  fix d i m
  assume d: "go_slice d" and occ: "occurs_at d i p"
  have "0 \<le> i" "i < int (length d)"
    using occurs_at_bounds [OF occ] assms(1) by (auto simp flip: length_greater_0_conv)
  then show "unmarshal_from fields addunk d i m =
      unmarshal_from fields addunk d (i + int (length p)) (f m)"
    using assms(2) [OF d occ] by (intro unmarshal_from_step [OF d]) auto
qed

lemma reads_Nil: "reads fields addunk [] (\<lambda>m. m)"
  by (simp add: reads_def)

lemma reads_append:
  "reads fields addunk p f \<Longrightarrow> reads fields addunk q g \<Longrightarrow> reads fields addunk (p @ q) (\<lambda>m. g (f m))"
  by (simp add: reads_def occurs_at_append add.assoc)

lemma reads_if:
  "(c \<Longrightarrow> reads fields addunk p f) \<Longrightarrow>
     reads fields addunk (if c then p else []) (\<lambda>m. if c then f m else m)"
  by (simp add: reads_def)

lemma reads_option:
  "(\<And>x. v = Some x \<Longrightarrow> reads fields addunk (p x) (f x)) \<Longrightarrow>
     reads fields addunk (case v of None \<Rightarrow> [] | Some x \<Rightarrow> p x) (case v of None \<Rightarrow> (\<lambda>m. m) | Some x \<Rightarrow> f x)"
  by (cases v) (simp_all add: reads_def)

lemma reads_concat:
  "(\<And>x. x \<in> set xs \<Longrightarrow> reads fields addunk (p x) (f x)) \<Longrightarrow>
     reads fields addunk (concat (map p xs)) (fold f xs)"
proof (induction xs)
  case (Cons x xs)
  then have "reads fields addunk (p x @ concat (map p xs)) (\<lambda>m. fold f xs (f x m))"
    by (intro reads_append) simp_all
  then show ?case by (simp add: comp_def)
qed (simp add: reads_def)

lemma reads_field:
  assumes "tag_is tag n wt" "fields n = Some h" "wt \<noteq> 4" "delivers h wt s f"
  shows "reads fields addunk (tag # s) f"
proof (rule readsI)
  fix d i m
  assume d: "go_slice d" and occ: "occurs_at d i (tag # s)"
  have "tag < 0x80" using assms(1) by (simp add: tag_is_def)
  note rd = read_varint_tag [OF occ this]
  have "h wt d (i + 1) m = Inr (f m, i + 1 + int (length s))"
    using assms(4) d rd(2) by (simp add: delivers_def)
  then show "unmarshal_step fields addunk d i m = Inr (f m, i + int (length (tag # s)))"
    using assms(1-3) rd(1) by (simp add: unmarshal_step_def tag_is_def Let_def add.assoc)
qed simp

lemma reads_varint:
  "tag_is tag n 0 \<Longrightarrow> fields n = Some (varint_field upd) \<Longrightarrow>
     reads fields addunk (enc_varint_field tag v) (upd (ucast v))"
  unfolding enc_varint_field_def by (rule reads_field [OF _ _ _ delivers_varint]) simp_all

lemma reads_bytes:
  "tag_is tag n 2 \<Longrightarrow> fields n = Some (bytes_field upd) \<Longrightarrow>
     reads fields addunk (enc_bytes_field tag s) (upd s)"
  unfolding enc_bytes_field_def by (rule reads_field [OF _ _ _ delivers_bytes]) simp_all

lemma reads_message:
  assumes "tag_is tag n 2" "fields n = Some (message_field sub)" "\<And>m. sub s m = Inr (f m)"
  shows "reads fields addunk (enc_bytes_field tag s) f"
  unfolding enc_bytes_field_def
  by (rule reads_field [OF assms(1,2) _ delivers_message [of sub s f, OF assms(3)]]) simp

lemma reads_map:
  assumes "tag_is tag n 2" "fields n = Some (map_field upd)"
  shows "reads fields addunk (enc_map tag mp ks) (fold (\<lambda>k. upd k (map_get mp k)) (rev ks))"
  unfolding enc_map_def enc_map_entry_def
  by (rule reads_concat, subst enc_bytes_field_def,
      rule reads_field [OF assms _ delivers_map]) simp

text \<open>An unknown field is kept, tag and all.\<close>

lemma reads_unknown:
  assumes "unknown_chunk fields c"
  shows "reads fields addunk c (addunk c)"
proof (rule readsI)
  obtain wire :: u64 and j where rd: "read_varint c 0 = Inr (wire, j)"
      and c: "0 < sint (ucast (drop_bit 3 wire) :: i32)" "fields (sint (ucast (drop_bit 3 wire) :: i32)) = None"
        "uint (wire AND 7) \<noteq> 4" "skipPacket c = Inr (int (length c))"
    using assms by (auto simp: unknown_chunk_def Let_def split: sum.splits)
  show "c \<noteq> []" using read_varint_progress [OF rd] by auto
  fix d i m
  assume d: "go_slice d" and occ: "occurs_at d i c"
  obtain pre post where x: "d = pre @ c @ post" "i = int (length pre)"
    using occ by (auto simp: occurs_at_iff)
  have "read_varint d i = Inr (wire, i + j)"
    using read_varint_context [OF rd, of pre post] x by simp
  moreover have "skipPacket (drop (nat i) d) = Inr (int (length c))"
    using skipPacket_append [OF c(4), of post] x by simp
  moreover have "go_add i (int (length c)) = i + int (length c)"
    using d x by (intro go_add_nat) (auto simp: go_slice_def)
  ultimately show "unmarshal_step fields addunk d i m = Inr (addunk c m, i + int (length c))"
    using c go_sub_occurs [OF occ] x
    by (simp add: unmarshal_step_def unknown_field_def Let_def)
qed

lemma reads_unknowns:
  assumes "list_all (unknown_chunk fields) cs"
  shows "reads fields addunk (concat cs) (addunk (concat cs))"
  using assms
proof (induction cs)
  case Nil
  then show ?case by (simp add: reads_def addunk_Nil)
next
  case (Cons c cs)
  then have "unknown_chunk fields c" "reads fields addunk (concat cs) (addunk (concat cs))"
    by simp_all
  from reads_append [OF reads_unknown [OF this(1)] this(2)] show ?case
    by (simp add: addunk_append)
qed

text \<open>A buffer that is one stretch of fields is read to its end.\<close>

lemma unmarshal_reads:
  assumes "reads fields addunk p f" and "go_slice p"
  shows "unmarshal_with fields addunk p m = Inr (f m)"
proof -
  have "unmarshal_from fields addunk p 0 m = unmarshal_from fields addunk p (0 + int (length p)) (f m)"
    using assms occurs_at_self [of p] unfolding reads_def by blast
  then show ?thesis
    using assms(2) by (simp add: unmarshal_with_from unmarshal_from_def)
qed

text \<open>Two encodings one after the other are read as one message: the second is merged into the first.\<close>

lemma unmarshal_merge:
  assumes "reads fields addunk p f" "reads fields addunk q g" "go_slice (p @ q)"
  shows "unmarshal_with fields addunk (p @ q) m = unmarshal_with fields addunk q (f m)"
proof -
  have "go_slice q" using assms(3) by (simp add: go_slice_def)
  with unmarshal_reads [OF reads_append [OF assms(1,2)] assms(3)] unmarshal_reads [OF assms(2)]
  show ?thesis by simp
qed

end

section \<open>Reading a map back\<close>

lemma fold_map_entries:
  fixes mp :: gomap
  assumes "distinct ks" "set ks = dom mp"
  shows "fold (\<lambda>k m. m(k \<mapsto> map_get mp k)) ks Map.empty = mp"
proof -
  have "fold (\<lambda>k m. m(k \<mapsto> map_get mp k)) ks m0 x =
      (if x \<in> set ks then Some (map_get mp x) else m0 x)" for x m0
    by (induction ks arbitrary: m0) auto
  then show ?thesis
    using assms(2) by (fastforce simp: map_get_def fun_eq_iff split: option.splits)
qed

end
