(* ===== verification/Packet_Rpc.thy ===== *)
theory Packet_Rpc
  imports Wire_Message
begin

text \<open>
  The RPC envelope of \<open>proto/packet.pb.go\<close>: the messages \<open>Request\<close> and \<open>Response\<close>, with their
  getters, \<open>Size\<close>, \<open>MarshalToSizedBuffer\<close>, \<open>MarshalTo\<close>, \<open>Marshal\<close> and \<open>Unmarshal\<close>. A nil slice or
  map is identified with an empty one: the code only takes lengths and contents. Each message
  interprets \<open>wire_message\<close>; its encoding is exactly as long as \<open>Size\<close> says, so \<open>Marshal\<close> never
  panics, and \<open>Unmarshal\<close> returns the message that was marshalled, unknown fields included.
\<close>

section \<open>Request\<close>

record Request =
  rqSid :: i64
  rqRpcId :: i64
  rqHeaders :: gomap
  rqPacket :: bytes
  rqUnrecognized :: bytes

text \<open>\<open>Request{}\<close>, what \<open>Reset\<close> assigns.\<close>

definition Request_Reset :: Request where
  "Request_Reset =
     \<lparr>rqSid = 0, rqRpcId = 0, rqHeaders = Map.empty, rqPacket = [], rqUnrecognized = []\<rparr>"

text \<open>The getters accept a nil receiver.\<close>

definition Request_GetSid :: "Request option \<Rightarrow> i64" where
  "Request_GetSid m = (case m of Some m \<Rightarrow> rqSid m | None \<Rightarrow> 0)"

definition Request_GetRpcId :: "Request option \<Rightarrow> i64" where
  "Request_GetRpcId m = (case m of Some m \<Rightarrow> rqRpcId m | None \<Rightarrow> 0)"

definition Request_GetHeaders :: "Request option \<Rightarrow> gomap" where
  "Request_GetHeaders m = (case m of Some m \<Rightarrow> rqHeaders m | None \<Rightarrow> Map.empty)"

definition Request_GetPacket :: "Request option \<Rightarrow> bytes" where
  "Request_GetPacket m = (case m of Some m \<Rightarrow> rqPacket m | None \<Rightarrow> [])"

text \<open>\<open>ks\<close> is the order in which \<open>range m.Headers\<close> visits the keys; its length is \<open>len(m.Headers)\<close>.\<close>

definition Request_Size :: "Request option \<Rightarrow> bytes list \<Rightarrow> nat" where
  "Request_Size m ks =
     (case m of None \<Rightarrow> 0
      | Some m \<Rightarrow>
          (if rqSid m \<noteq> 0 then size_varint_field (rqSid m) else 0)
        + (if rqRpcId m \<noteq> 0 then size_varint_field (rqRpcId m) else 0)
        + (if 0 < length ks then size_map (rqHeaders m) ks else 0)
        + (if 0 < length (rqPacket m) then size_bytes_field (length (rqPacket m)) else 0)
        + length (rqUnrecognized m))"

definition Request_put :: "Request \<Rightarrow> bytes list \<Rightarrow> wr \<Rightarrow> wr option" where
  "Request_put m ks w = do {
     w \<leftarrow> wr_if (rqUnrecognized m \<noteq> []) (put_bytes (rqUnrecognized m)) w;
     w \<leftarrow> wr_if (0 < length (rqPacket m)) (put_bytes_field 0x22 (rqPacket m)) w;
     w \<leftarrow> wr_if (0 < length ks) (put_map 0x1a (rqHeaders m) ks) w;
     w \<leftarrow> wr_if (rqRpcId m \<noteq> 0) (put_varint_field 0x10 (rqRpcId m)) w;
     wr_if (rqSid m \<noteq> 0) (put_varint_field 0x08 (rqSid m)) w
   }"

definition Request_MarshalToSizedBuffer :: "Request \<Rightarrow> bytes list \<Rightarrow> bytes \<Rightarrow> (bytes \<times> int) option" where
  "Request_MarshalToSizedBuffer m ks dAtA = do {
     w \<leftarrow> Request_put m ks (dAtA, int (length dAtA));
     Some (fst w, int (length dAtA) - snd w)
   }"

definition Request_MarshalTo :: "Request \<Rightarrow> bytes list \<Rightarrow> bytes list \<Rightarrow> bytes \<Rightarrow> (bytes \<times> int) option" where
  "Request_MarshalTo m ks ks' dAtA =
     marshal_to_with (Request_Size (Some m) ks) (Request_MarshalToSizedBuffer m ks') dAtA"

definition Request_Marshal :: "Request \<Rightarrow> bytes list \<Rightarrow> bytes list \<Rightarrow> bytes option" where
  "Request_Marshal m ks ks' =
     marshal_with (Request_Size (Some m) ks) (Request_MarshalToSizedBuffer m ks')"

text \<open>The cases of the switch on the field number in \<open>Unmarshal\<close>.\<close>

definition Request_unmarshal_Sid :: "Request handler" where
  "Request_unmarshal_Sid = varint_field (\<lambda>v m. m\<lparr>rqSid := v\<rparr>)"

definition Request_unmarshal_RpcId :: "Request handler" where
  "Request_unmarshal_RpcId = varint_field (\<lambda>v m. m\<lparr>rqRpcId := v\<rparr>)"

definition Request_unmarshal_Headers :: "Request handler" where
  "Request_unmarshal_Headers = map_field (\<lambda>k v m. m\<lparr>rqHeaders := (rqHeaders m)(k \<mapsto> v)\<rparr>)"

definition Request_unmarshal_Packet :: "Request handler" where
  "Request_unmarshal_Packet = bytes_field (\<lambda>s m. m\<lparr>rqPacket := s\<rparr>)"

definition Request_fields :: "int \<Rightarrow> Request handler option" where
  "Request_fields fieldNum =
     (if fieldNum = 1 then Some Request_unmarshal_Sid
      else if fieldNum = 2 then Some Request_unmarshal_RpcId
      else if fieldNum = 3 then Some Request_unmarshal_Headers
      else if fieldNum = 4 then Some Request_unmarshal_Packet
      else None)"

definition Request_unrecognized :: "bytes \<Rightarrow> Request \<Rightarrow> Request" where
  "Request_unrecognized s m = m\<lparr>rqUnrecognized := rqUnrecognized m @ s\<rparr>"

definition Request_Unmarshal :: "bytes \<Rightarrow> Request \<Rightarrow> perr + Request" where
  "Request_Unmarshal dAtA m = unmarshal_with Request_fields Request_unrecognized dAtA m"

section \<open>Response\<close>

record Response =
  rsSid :: i64
  rsHeaders :: gomap
  rsCode :: i32
  rsPacket :: bytes
  rsUnrecognized :: bytes

definition Response_Reset :: Response where
  "Response_Reset =
     \<lparr>rsSid = 0, rsHeaders = Map.empty, rsCode = 0, rsPacket = [], rsUnrecognized = []\<rparr>"

definition Response_GetSid :: "Response option \<Rightarrow> i64" where
  "Response_GetSid m = (case m of Some m \<Rightarrow> rsSid m | None \<Rightarrow> 0)"

definition Response_GetHeaders :: "Response option \<Rightarrow> gomap" where
  "Response_GetHeaders m = (case m of Some m \<Rightarrow> rsHeaders m | None \<Rightarrow> Map.empty)"

definition Response_GetCode :: "Response option \<Rightarrow> i32" where
  "Response_GetCode m = (case m of Some m \<Rightarrow> rsCode m | None \<Rightarrow> 0)"

definition Response_GetPacket :: "Response option \<Rightarrow> bytes" where
  "Response_GetPacket m = (case m of Some m \<Rightarrow> rsPacket m | None \<Rightarrow> [])"

text \<open>\<open>uint64(m.Code)\<close> sign-extends the \<open>int32\<close>.\<close>

definition Response_Size :: "Response option \<Rightarrow> bytes list \<Rightarrow> nat" where
  "Response_Size m ks =
     (case m of None \<Rightarrow> 0
      | Some m \<Rightarrow>
          (if rsSid m \<noteq> 0 then size_varint_field (rsSid m) else 0)
        + (if 0 < length ks then size_map (rsHeaders m) ks else 0)
        + (if rsCode m \<noteq> 0 then size_varint_field (scast (rsCode m)) else 0)
        + (if 0 < length (rsPacket m) then size_bytes_field (length (rsPacket m)) else 0)
        + length (rsUnrecognized m))"

definition Response_put :: "Response \<Rightarrow> bytes list \<Rightarrow> wr \<Rightarrow> wr option" where
  "Response_put m ks w = do {
     w \<leftarrow> wr_if (rsUnrecognized m \<noteq> []) (put_bytes (rsUnrecognized m)) w;
     w \<leftarrow> wr_if (0 < length (rsPacket m)) (put_bytes_field 0x22 (rsPacket m)) w;
     w \<leftarrow> wr_if (rsCode m \<noteq> 0) (put_varint_field 0x18 (scast (rsCode m))) w;
     w \<leftarrow> wr_if (0 < length ks) (put_map 0x12 (rsHeaders m) ks) w;
     wr_if (rsSid m \<noteq> 0) (put_varint_field 0x08 (rsSid m)) w
   }"

definition Response_MarshalToSizedBuffer :: "Response \<Rightarrow> bytes list \<Rightarrow> bytes \<Rightarrow> (bytes \<times> int) option" where
  "Response_MarshalToSizedBuffer m ks dAtA = do {
     w \<leftarrow> Response_put m ks (dAtA, int (length dAtA));
     Some (fst w, int (length dAtA) - snd w)
   }"

definition Response_MarshalTo :: "Response \<Rightarrow> bytes list \<Rightarrow> bytes list \<Rightarrow> bytes \<Rightarrow> (bytes \<times> int) option" where
  "Response_MarshalTo m ks ks' dAtA =
     marshal_to_with (Response_Size (Some m) ks) (Response_MarshalToSizedBuffer m ks') dAtA"

definition Response_Marshal :: "Response \<Rightarrow> bytes list \<Rightarrow> bytes list \<Rightarrow> bytes option" where
  "Response_Marshal m ks ks' =
     marshal_with (Response_Size (Some m) ks) (Response_MarshalToSizedBuffer m ks')"

definition Response_unmarshal_Sid :: "Response handler" where
  "Response_unmarshal_Sid = varint_field (\<lambda>v m. m\<lparr>rsSid := v\<rparr>)"

definition Response_unmarshal_Headers :: "Response handler" where
  "Response_unmarshal_Headers = map_field (\<lambda>k v m. m\<lparr>rsHeaders := (rsHeaders m)(k \<mapsto> v)\<rparr>)"

definition Response_unmarshal_Code :: "Response handler" where
  "Response_unmarshal_Code = varint_field (\<lambda>v m. m\<lparr>rsCode := v\<rparr>)"

definition Response_unmarshal_Packet :: "Response handler" where
  "Response_unmarshal_Packet = bytes_field (\<lambda>s m. m\<lparr>rsPacket := s\<rparr>)"

definition Response_fields :: "int \<Rightarrow> Response handler option" where
  "Response_fields fieldNum =
     (if fieldNum = 1 then Some Response_unmarshal_Sid
      else if fieldNum = 2 then Some Response_unmarshal_Headers
      else if fieldNum = 3 then Some Response_unmarshal_Code
      else if fieldNum = 4 then Some Response_unmarshal_Packet
      else None)"

definition Response_unrecognized :: "bytes \<Rightarrow> Response \<Rightarrow> Response" where
  "Response_unrecognized s m = m\<lparr>rsUnrecognized := rsUnrecognized m @ s\<rparr>"

definition Response_Unmarshal :: "bytes \<Rightarrow> Response \<Rightarrow> perr + Response" where
  "Response_Unmarshal dAtA m = unmarshal_with Response_fields Response_unrecognized dAtA m"

section \<open>The contract holds\<close>

lemmas Request_handlers = Request_unmarshal_Sid_def Request_unmarshal_RpcId_def
  Request_unmarshal_Headers_def Request_unmarshal_Packet_def

lemmas Response_handlers = Response_unmarshal_Sid_def Response_unmarshal_Headers_def
  Response_unmarshal_Code_def Response_unmarshal_Packet_def

interpretation request: wire_message Request_fields Request_unrecognized
  by unfold_locales
    (auto simp: Request_fields_def Request_handlers Request_unrecognized_def
      intro: advancing_rules split: if_splits)

interpretation response: wire_message Response_fields Response_unrecognized
  by unfold_locales
    (auto simp: Response_fields_def Response_handlers Response_unrecognized_def
      intro: advancing_rules split: if_splits)

section \<open>The reference encoding\<close>

definition enc_Request :: "Request \<Rightarrow> bytes list \<Rightarrow> bytes" where
  "enc_Request m ks =
     (if rqSid m \<noteq> 0 then enc_varint_field 0x08 (rqSid m) else []) @
     (if rqRpcId m \<noteq> 0 then enc_varint_field 0x10 (rqRpcId m) else []) @
     (if 0 < length ks then enc_map 0x1a (rqHeaders m) ks else []) @
     (if 0 < length (rqPacket m) then enc_bytes_field 0x22 (rqPacket m) else []) @
     rqUnrecognized m"

definition enc_Response :: "Response \<Rightarrow> bytes list \<Rightarrow> bytes" where
  "enc_Response m ks =
     (if rsSid m \<noteq> 0 then enc_varint_field 0x08 (rsSid m) else []) @
     (if 0 < length ks then enc_map 0x12 (rsHeaders m) ks else []) @
     (if rsCode m \<noteq> 0 then enc_varint_field 0x18 (scast (rsCode m)) else []) @
     (if 0 < length (rsPacket m) then enc_bytes_field 0x22 (rsPacket m) else []) @
     rsUnrecognized m"

lemma emits_Request: "emits (Request_put m ks) (enc_Request m ks)"
  unfolding Request_put_def [abs_def] enc_Request_def
  by (rule emits_eq, (rule emit_rules)+) simp

lemma emits_Response: "emits (Response_put m ks) (enc_Response m ks)"
  unfolding Response_put_def [abs_def] enc_Response_def
  by (rule emits_eq, (rule emit_rules)+) simp

lemma length_enc_Request: "length (enc_Request m ks) = Request_Size (Some m) ks"
  by (simp add: enc_Request_def Request_Size_def)

lemma length_enc_Response: "length (enc_Response m ks) = Response_Size (Some m) ks"
  by (simp add: enc_Response_def Response_Size_def)

lemma fills_Request: "fills (Request_MarshalToSizedBuffer m ks) (enc_Request m ks)"
  using fills_intro [OF emits_Request] by (simp add: Request_MarshalToSizedBuffer_def [abs_def])

lemma fills_Response: "fills (Response_MarshalToSizedBuffer m ks) (enc_Response m ks)"
  using fills_intro [OF emits_Response] by (simp add: Response_MarshalToSizedBuffer_def [abs_def])

text \<open>\<open>Size\<close> and \<open>MarshalToSizedBuffer\<close> may range over the headers in different orders.\<close>

lemma Request_Size_order:
  "range_order (rqHeaders m) ks \<Longrightarrow> range_order (rqHeaders m) ks' \<Longrightarrow>
     Request_Size (Some m) ks = Request_Size (Some m) ks'"
  using size_map_order [of "rqHeaders m" ks ks']
  by (auto simp: Request_Size_def range_order_def)

lemma Response_Size_order:
  "range_order (rsHeaders m) ks \<Longrightarrow> range_order (rsHeaders m) ks' \<Longrightarrow>
     Response_Size (Some m) ks = Response_Size (Some m) ks'"
  using size_map_order [of "rsHeaders m" ks ks']
  by (auto simp: Response_Size_def range_order_def)

lemma Request_Marshal_enc:
  assumes "range_order (rqHeaders m) ks" "range_order (rqHeaders m) ks'"
  shows "Request_Marshal m ks ks' = Some (enc_Request m ks')"
  using marshal_with_fills [OF fills_Request, of m ks'] Request_Size_order [OF assms]
  by (simp add: Request_Marshal_def length_enc_Request)

lemma Response_Marshal_enc:
  assumes "range_order (rsHeaders m) ks" "range_order (rsHeaders m) ks'"
  shows "Response_Marshal m ks ks' = Some (enc_Response m ks')"
  using marshal_with_fills [OF fills_Response, of m ks'] Response_Size_order [OF assms]
  by (simp add: Response_Marshal_def length_enc_Response)

section \<open>Reading a message back\<close>

lemma fold_Request_headers:
  "fold (\<lambda>k m. m\<lparr>rqHeaders := (rqHeaders m)(k \<mapsto> map_get mp k)\<rparr>) ks =
     (\<lambda>m. m\<lparr>rqHeaders := fold (\<lambda>k h. h(k \<mapsto> map_get mp k)) ks (rqHeaders m)\<rparr>)"
  by (induction ks) (simp_all add: fun_eq_iff)

lemma fold_Response_headers:
  "fold (\<lambda>k m. m\<lparr>rsHeaders := (rsHeaders m)(k \<mapsto> map_get mp k)\<rparr>) ks =
     (\<lambda>m. m\<lparr>rsHeaders := fold (\<lambda>k h. h(k \<mapsto> map_get mp k)) ks (rsHeaders m)\<rparr>)"
  by (induction ks) (simp_all add: fun_eq_iff)

lemma fold_headers_back:
  assumes "range_order mp ks"
  shows "fold (\<lambda>k h. h(k \<mapsto> map_get mp k)) (rev ks) Map.empty = mp"
    and "\<not> 0 < length ks \<Longrightarrow> Map.empty = mp"
  using assms fold_map_entries [of "rev ks" mp]
  by (auto simp: range_order_def dest: sym)

text \<open>Unknown bytes a message can carry: a sequence of unknown fields.\<close>

definition Request_unknown :: "bytes \<Rightarrow> bool" where
  "Request_unknown u \<longleftrightarrow> (\<exists>cs. list_all (unknown_chunk Request_fields) cs \<and> u = concat cs)"

definition Response_unknown :: "bytes \<Rightarrow> bool" where
  "Response_unknown u \<longleftrightarrow> (\<exists>cs. list_all (unknown_chunk Response_fields) cs \<and> u = concat cs)"

lemma unknown_Nil [simp]: "Request_unknown []" "Response_unknown []"
  unfolding Request_unknown_def Response_unknown_def
  by (auto intro: exI [of _ "[]"])

definition Request_merge :: "Request \<Rightarrow> bytes list \<Rightarrow> Request \<Rightarrow> Request" where
  "Request_merge m ks m0 =
     (let m1 = (if rqSid m \<noteq> 0 then m0\<lparr>rqSid := rqSid m\<rparr> else m0);
          m2 = (if rqRpcId m \<noteq> 0 then m1\<lparr>rqRpcId := rqRpcId m\<rparr> else m1);
          m3 = (if 0 < length ks
                then m2\<lparr>rqHeaders := fold (\<lambda>k h. h(k \<mapsto> map_get (rqHeaders m) k)) (rev ks) (rqHeaders m2)\<rparr>
                else m2);
          m4 = (if 0 < length (rqPacket m) then m3\<lparr>rqPacket := rqPacket m\<rparr> else m3)
      in Request_unrecognized (rqUnrecognized m) m4)"

lemma Request_reads:
  assumes "Request_unknown (rqUnrecognized m)"
  shows "reads Request_fields Request_unrecognized (enc_Request m ks) (Request_merge m ks)"
proof -
  obtain cs where cs: "list_all (unknown_chunk Request_fields) cs" "rqUnrecognized m = concat cs"
    using assms by (auto simp: Request_unknown_def)
  have sid: "reads Request_fields Request_unrecognized (enc_varint_field 0x08 (rqSid m)) (\<lambda>m0. m0\<lparr>rqSid := rqSid m\<rparr>)"
    using request.reads_varint [of "0x08" 1 "\<lambda>v m. m\<lparr>rqSid := v\<rparr>" "rqSid m"]
    by (simp add: tag_is_def Request_fields_def Request_handlers)
  have rpc: "reads Request_fields Request_unrecognized (enc_varint_field 0x10 (rqRpcId m)) (\<lambda>m0. m0\<lparr>rqRpcId := rqRpcId m\<rparr>)"
    using request.reads_varint [of "0x10" 2 "\<lambda>v m. m\<lparr>rqRpcId := v\<rparr>" "rqRpcId m"]
    by (simp add: tag_is_def Request_fields_def Request_handlers)
  have hdr: "reads Request_fields Request_unrecognized (enc_map 0x1a (rqHeaders m) ks)
      (\<lambda>m0. m0\<lparr>rqHeaders := fold (\<lambda>k h. h(k \<mapsto> map_get (rqHeaders m) k)) (rev ks) (rqHeaders m0)\<rparr>)"
    using request.reads_map [of "0x1a" 3 "\<lambda>k v m. m\<lparr>rqHeaders := (rqHeaders m)(k \<mapsto> v)\<rparr>" "rqHeaders m" ks]
    by (simp add: tag_is_def Request_fields_def Request_handlers fold_Request_headers)
  have pkt: "reads Request_fields Request_unrecognized (enc_bytes_field 0x22 (rqPacket m)) (\<lambda>m0. m0\<lparr>rqPacket := rqPacket m\<rparr>)"
    using request.reads_bytes [of "0x22" 4 "\<lambda>s m. m\<lparr>rqPacket := s\<rparr>" "rqPacket m"]
    by (simp add: tag_is_def Request_fields_def Request_handlers)
  note if_sid = request.reads_if [where c = "rqSid m \<noteq> 0", OF sid]
    and if_rpc = request.reads_if [where c = "rqRpcId m \<noteq> 0", OF rpc]
    and if_hdr = request.reads_if [where c = "0 < length ks", OF hdr]
    and if_pkt = request.reads_if [where c = "0 < length (rqPacket m)", OF pkt]
  note rd = request.reads_append [OF if_sid request.reads_append [OF if_rpc
      request.reads_append [OF if_hdr request.reads_append [OF if_pkt
      request.reads_unknowns [OF cs(1)]]]]]
  then show ?thesis
    unfolding enc_Request_def Request_merge_def [abs_def] Let_def cs(2) .
qed

lemma Request_merge_Reset:
  "range_order (rqHeaders m) ks \<Longrightarrow> Request_merge m ks Request_Reset = m"
  using fold_headers_back [of "rqHeaders m" ks]
  by (simp add: Request_merge_def Request_Reset_def Request_unrecognized_def Let_def)

lemma Request_Unmarshal_enc:
  assumes "range_order (rqHeaders m) ks" "Request_unknown (rqUnrecognized m)" "go_slice (enc_Request m ks)"
  shows "Request_Unmarshal (enc_Request m ks) Request_Reset = Inr m"
  unfolding Request_Unmarshal_def
  using request.unmarshal_reads [OF Request_reads [OF assms(2)] assms(3)] Request_merge_Reset [OF assms(1)]
  by simp

definition Response_merge :: "Response \<Rightarrow> bytes list \<Rightarrow> Response \<Rightarrow> Response" where
  "Response_merge m ks m0 =
     (let m1 = (if rsSid m \<noteq> 0 then m0\<lparr>rsSid := rsSid m\<rparr> else m0);
          m2 = (if 0 < length ks
                then m1\<lparr>rsHeaders := fold (\<lambda>k h. h(k \<mapsto> map_get (rsHeaders m) k)) (rev ks) (rsHeaders m1)\<rparr>
                else m1);
          m3 = (if rsCode m \<noteq> 0 then m2\<lparr>rsCode := rsCode m\<rparr> else m2);
          m4 = (if 0 < length (rsPacket m) then m3\<lparr>rsPacket := rsPacket m\<rparr> else m3)
      in Response_unrecognized (rsUnrecognized m) m4)"

text \<open>The sign extension of an \<open>int32\<close> is dropped again by the 32-bit reader.\<close>

lemma ucast_scast_i32: "(ucast (scast (c :: i32) :: u64) :: i32) = c"
  by (rule bit_word_eqI) (simp add: bit_simps bit_last_iff)

lemma Response_reads:
  assumes "Response_unknown (rsUnrecognized m)"
  shows "reads Response_fields Response_unrecognized (enc_Response m ks) (Response_merge m ks)"
proof -
  obtain cs where cs: "list_all (unknown_chunk Response_fields) cs" "rsUnrecognized m = concat cs"
    using assms by (auto simp: Response_unknown_def)
  have sid: "reads Response_fields Response_unrecognized (enc_varint_field 0x08 (rsSid m)) (\<lambda>m0. m0\<lparr>rsSid := rsSid m\<rparr>)"
    using response.reads_varint [of "0x08" 1 "\<lambda>v m. m\<lparr>rsSid := v\<rparr>" "rsSid m"]
    by (simp add: tag_is_def Response_fields_def Response_handlers)
  have hdr: "reads Response_fields Response_unrecognized (enc_map 0x12 (rsHeaders m) ks)
      (\<lambda>m0. m0\<lparr>rsHeaders := fold (\<lambda>k h. h(k \<mapsto> map_get (rsHeaders m) k)) (rev ks) (rsHeaders m0)\<rparr>)"
    using response.reads_map [of "0x12" 2 "\<lambda>k v m. m\<lparr>rsHeaders := (rsHeaders m)(k \<mapsto> v)\<rparr>" "rsHeaders m" ks]
    by (simp add: tag_is_def Response_fields_def Response_handlers fold_Response_headers)
  have code: "reads Response_fields Response_unrecognized (enc_varint_field 0x18 (scast (rsCode m))) (\<lambda>m0. m0\<lparr>rsCode := rsCode m\<rparr>)"
    using response.reads_varint [of "0x18" 3 "\<lambda>v m. m\<lparr>rsCode := v\<rparr>" "scast (rsCode m)"]
    by (simp add: tag_is_def Response_fields_def Response_handlers ucast_scast_i32)
  have pkt: "reads Response_fields Response_unrecognized (enc_bytes_field 0x22 (rsPacket m)) (\<lambda>m0. m0\<lparr>rsPacket := rsPacket m\<rparr>)"
    using response.reads_bytes [of "0x22" 4 "\<lambda>s m. m\<lparr>rsPacket := s\<rparr>" "rsPacket m"]
    by (simp add: tag_is_def Response_fields_def Response_handlers)
  note if_sid = response.reads_if [where c = "rsSid m \<noteq> 0", OF sid]
    and if_hdr = response.reads_if [where c = "0 < length ks", OF hdr]
    and if_code = response.reads_if [where c = "rsCode m \<noteq> 0", OF code]
    and if_pkt = response.reads_if [where c = "0 < length (rsPacket m)", OF pkt]
  note rd = response.reads_append [OF if_sid response.reads_append [OF if_hdr
      response.reads_append [OF if_code response.reads_append [OF if_pkt
      response.reads_unknowns [OF cs(1)]]]]]
  then show ?thesis
    unfolding enc_Response_def Response_merge_def [abs_def] Let_def cs(2) .
qed

lemma Response_merge_Reset:
  "range_order (rsHeaders m) ks \<Longrightarrow> Response_merge m ks Response_Reset = m"
  using fold_headers_back [of "rsHeaders m" ks]
  by (simp add: Response_merge_def Response_Reset_def Response_unrecognized_def Let_def)

lemma Response_Unmarshal_enc:
  assumes "range_order (rsHeaders m) ks" "Response_unknown (rsUnrecognized m)" "go_slice (enc_Response m ks)"
  shows "Response_Unmarshal (enc_Response m ks) Response_Reset = Inr m"
  unfolding Response_Unmarshal_def
  using response.unmarshal_reads [OF Response_reads [OF assms(2)] assms(3)] Response_merge_Reset [OF assms(1)]
  by simp

end
