(* ===== verification/Packet_Metric_Parts.thy ===== *)
theory Packet_Metric_Parts
  imports Packet_Rpc
begin

text \<open>
  The messages nested in a metric, \<open>Counter\<close>, \<open>Gauge\<close> and \<open>Summary\<close> of \<open>proto/packet.pb.go\<close>: their
  getters, \<open>Size\<close>, \<open>MarshalToSizedBuffer\<close>, \<open>MarshalTo\<close>, \<open>Marshal\<close> and \<open>Unmarshal\<close>, in the form of
  \<open>Packet_Rpc\<close>. Reading an encoding into a message that has values already merges the two
  (\<open>Counter_merge\<close> and so on): a nested message is read into the one the pointer holds.
\<close>

section \<open>Counter\<close>

record Counter =
  ctMethod :: bytes
  ctCode :: bytes
  ctExtra :: gomap
  ctUnrecognized :: bytes

definition Counter_Reset :: Counter where
  "Counter_Reset =
     \<lparr>ctMethod = [], ctCode = [], ctExtra = Map.empty, ctUnrecognized = []\<rparr>"

definition Counter_GetMethod :: "Counter option \<Rightarrow> bytes" where
  "Counter_GetMethod m = (case m of Some m \<Rightarrow> ctMethod m | None \<Rightarrow> [])"

definition Counter_GetCode :: "Counter option \<Rightarrow> bytes" where
  "Counter_GetCode m = (case m of Some m \<Rightarrow> ctCode m | None \<Rightarrow> [])"

definition Counter_GetExtra :: "Counter option \<Rightarrow> gomap" where
  "Counter_GetExtra m = (case m of Some m \<Rightarrow> ctExtra m | None \<Rightarrow> Map.empty)"

definition Counter_Size :: "Counter option \<Rightarrow> bytes list \<Rightarrow> nat" where
  "Counter_Size m ks =
     (case m of None \<Rightarrow> 0
      | Some m \<Rightarrow>
          (if 0 < length (ctMethod m) then size_bytes_field (length (ctMethod m)) else 0)
        + (if 0 < length (ctCode m) then size_bytes_field (length (ctCode m)) else 0)
        + (if 0 < length ks then size_map (ctExtra m) ks else 0)
        + length (ctUnrecognized m))"

definition Counter_put :: "Counter \<Rightarrow> bytes list \<Rightarrow> wr \<Rightarrow> wr option" where
  "Counter_put m ks w = do {
     w \<leftarrow> wr_if (ctUnrecognized m \<noteq> []) (put_bytes (ctUnrecognized m)) w;
     w \<leftarrow> wr_if (0 < length ks) (put_map 0x1a (ctExtra m) ks) w;
     w \<leftarrow> wr_if (0 < length (ctCode m)) (put_bytes_field 0x12 (ctCode m)) w;
     wr_if (0 < length (ctMethod m)) (put_bytes_field 0x0a (ctMethod m)) w
   }"

definition Counter_MarshalToSizedBuffer :: "Counter \<Rightarrow> bytes list \<Rightarrow> bytes \<Rightarrow> (bytes \<times> int) option" where
  "Counter_MarshalToSizedBuffer m ks dAtA = do {
     w \<leftarrow> Counter_put m ks (dAtA, int (length dAtA));
     Some (fst w, int (length dAtA) - snd w)
   }"

definition Counter_MarshalTo :: "Counter \<Rightarrow> bytes list \<Rightarrow> bytes list \<Rightarrow> bytes \<Rightarrow> (bytes \<times> int) option" where
  "Counter_MarshalTo m ks ks' dAtA =
     marshal_to_with (Counter_Size (Some m) ks) (Counter_MarshalToSizedBuffer m ks') dAtA"

definition Counter_Marshal :: "Counter \<Rightarrow> bytes list \<Rightarrow> bytes list \<Rightarrow> bytes option" where
  "Counter_Marshal m ks ks' =
     marshal_with (Counter_Size (Some m) ks) (Counter_MarshalToSizedBuffer m ks')"

definition Counter_unmarshal_Method :: "Counter handler" where
  "Counter_unmarshal_Method = bytes_field (\<lambda>s m. m\<lparr>ctMethod := s\<rparr>)"

definition Counter_unmarshal_Code :: "Counter handler" where
  "Counter_unmarshal_Code = bytes_field (\<lambda>s m. m\<lparr>ctCode := s\<rparr>)"

definition Counter_unmarshal_Extra :: "Counter handler" where
  "Counter_unmarshal_Extra = map_field (\<lambda>k v m. m\<lparr>ctExtra := (ctExtra m)(k \<mapsto> v)\<rparr>)"

definition Counter_fields :: "int \<Rightarrow> Counter handler option" where
  "Counter_fields fieldNum =
     (if fieldNum = 1 then Some Counter_unmarshal_Method
      else if fieldNum = 2 then Some Counter_unmarshal_Code
      else if fieldNum = 3 then Some Counter_unmarshal_Extra
      else None)"

definition Counter_unrecognized :: "bytes \<Rightarrow> Counter \<Rightarrow> Counter" where
  "Counter_unrecognized s m = m\<lparr>ctUnrecognized := ctUnrecognized m @ s\<rparr>"

definition Counter_Unmarshal :: "bytes \<Rightarrow> Counter \<Rightarrow> perr + Counter" where
  "Counter_Unmarshal dAtA m = unmarshal_with Counter_fields Counter_unrecognized dAtA m"

lemmas Counter_handlers = Counter_unmarshal_Method_def Counter_unmarshal_Code_def Counter_unmarshal_Extra_def

interpretation counter: wire_message Counter_fields Counter_unrecognized
  by unfold_locales
    (auto simp: Counter_fields_def Counter_handlers Counter_unrecognized_def
      intro: advancing_rules split: if_splits)

section \<open>Gauge\<close>

record Gauge =
  gaType :: bytes
  gaValue :: bytes
  gaAdd :: i64
  gaInc :: bool
  gaExtra :: gomap
  gaUnrecognized :: bytes

definition Gauge_Reset :: Gauge where
  "Gauge_Reset =
     \<lparr>gaType = [], gaValue = [], gaAdd = 0, gaInc = False, gaExtra = Map.empty, gaUnrecognized = []\<rparr>"

definition Gauge_GetType :: "Gauge option \<Rightarrow> bytes" where
  "Gauge_GetType m = (case m of Some m \<Rightarrow> gaType m | None \<Rightarrow> [])"

definition Gauge_GetValue :: "Gauge option \<Rightarrow> bytes" where
  "Gauge_GetValue m = (case m of Some m \<Rightarrow> gaValue m | None \<Rightarrow> [])"

definition Gauge_GetAdd :: "Gauge option \<Rightarrow> i64" where
  "Gauge_GetAdd m = (case m of Some m \<Rightarrow> gaAdd m | None \<Rightarrow> 0)"

definition Gauge_GetInc :: "Gauge option \<Rightarrow> bool" where
  "Gauge_GetInc m = (case m of Some m \<Rightarrow> gaInc m | None \<Rightarrow> False)"

definition Gauge_GetExtra :: "Gauge option \<Rightarrow> gomap" where
  "Gauge_GetExtra m = (case m of Some m \<Rightarrow> gaExtra m | None \<Rightarrow> Map.empty)"

definition Gauge_Size :: "Gauge option \<Rightarrow> bytes list \<Rightarrow> nat" where
  "Gauge_Size m ks =
     (case m of None \<Rightarrow> 0
      | Some m \<Rightarrow>
          (if 0 < length (gaType m) then size_bytes_field (length (gaType m)) else 0)
        + (if 0 < length (gaValue m) then size_bytes_field (length (gaValue m)) else 0)
        + (if gaAdd m \<noteq> 0 then size_varint_field (gaAdd m) else 0)
        + (if gaInc m then 2 else 0)
        + (if 0 < length ks then size_map (gaExtra m) ks else 0)
        + length (gaUnrecognized m))"

definition Gauge_put :: "Gauge \<Rightarrow> bytes list \<Rightarrow> wr \<Rightarrow> wr option" where
  "Gauge_put m ks w = do {
     w \<leftarrow> wr_if (gaUnrecognized m \<noteq> []) (put_bytes (gaUnrecognized m)) w;
     w \<leftarrow> wr_if (0 < length ks) (put_map 0x2a (gaExtra m) ks) w;
     w \<leftarrow> wr_if (gaInc m) (put_bool_field 0x20 (gaInc m)) w;
     w \<leftarrow> wr_if (gaAdd m \<noteq> 0) (put_varint_field 0x18 (gaAdd m)) w;
     w \<leftarrow> wr_if (0 < length (gaValue m)) (put_bytes_field 0x12 (gaValue m)) w;
     wr_if (0 < length (gaType m)) (put_bytes_field 0x0a (gaType m)) w
   }"

definition Gauge_MarshalToSizedBuffer :: "Gauge \<Rightarrow> bytes list \<Rightarrow> bytes \<Rightarrow> (bytes \<times> int) option" where
  "Gauge_MarshalToSizedBuffer m ks dAtA = do {
     w \<leftarrow> Gauge_put m ks (dAtA, int (length dAtA));
     Some (fst w, int (length dAtA) - snd w)
   }"

definition Gauge_MarshalTo :: "Gauge \<Rightarrow> bytes list \<Rightarrow> bytes list \<Rightarrow> bytes \<Rightarrow> (bytes \<times> int) option" where
  "Gauge_MarshalTo m ks ks' dAtA =
     marshal_to_with (Gauge_Size (Some m) ks) (Gauge_MarshalToSizedBuffer m ks') dAtA"

definition Gauge_Marshal :: "Gauge \<Rightarrow> bytes list \<Rightarrow> bytes list \<Rightarrow> bytes option" where
  "Gauge_Marshal m ks ks' =
     marshal_with (Gauge_Size (Some m) ks) (Gauge_MarshalToSizedBuffer m ks')"

definition Gauge_unmarshal_Type :: "Gauge handler" where
  "Gauge_unmarshal_Type = bytes_field (\<lambda>s m. m\<lparr>gaType := s\<rparr>)"

definition Gauge_unmarshal_Value :: "Gauge handler" where
  "Gauge_unmarshal_Value = bytes_field (\<lambda>s m. m\<lparr>gaValue := s\<rparr>)"

definition Gauge_unmarshal_Add :: "Gauge handler" where
  "Gauge_unmarshal_Add = varint_field (\<lambda>v m. m\<lparr>gaAdd := v\<rparr>)"

definition Gauge_unmarshal_Inc :: "Gauge handler" where
  "Gauge_unmarshal_Inc = varint_field (\<lambda>v m. m\<lparr>gaInc := (v :: i64) \<noteq> 0\<rparr>)"

definition Gauge_unmarshal_Extra :: "Gauge handler" where
  "Gauge_unmarshal_Extra = map_field (\<lambda>k v m. m\<lparr>gaExtra := (gaExtra m)(k \<mapsto> v)\<rparr>)"

definition Gauge_fields :: "int \<Rightarrow> Gauge handler option" where
  "Gauge_fields fieldNum =
     (if fieldNum = 1 then Some Gauge_unmarshal_Type
      else if fieldNum = 2 then Some Gauge_unmarshal_Value
      else if fieldNum = 3 then Some Gauge_unmarshal_Add
      else if fieldNum = 4 then Some Gauge_unmarshal_Inc
      else if fieldNum = 5 then Some Gauge_unmarshal_Extra
      else None)"

definition Gauge_unrecognized :: "bytes \<Rightarrow> Gauge \<Rightarrow> Gauge" where
  "Gauge_unrecognized s m = m\<lparr>gaUnrecognized := gaUnrecognized m @ s\<rparr>"

definition Gauge_Unmarshal :: "bytes \<Rightarrow> Gauge \<Rightarrow> perr + Gauge" where
  "Gauge_Unmarshal dAtA m = unmarshal_with Gauge_fields Gauge_unrecognized dAtA m"

lemmas Gauge_handlers = Gauge_unmarshal_Type_def Gauge_unmarshal_Value_def Gauge_unmarshal_Add_def Gauge_unmarshal_Inc_def Gauge_unmarshal_Extra_def

interpretation gauge: wire_message Gauge_fields Gauge_unrecognized
  by unfold_locales
    (auto simp: Gauge_fields_def Gauge_handlers Gauge_unrecognized_def
      intro: advancing_rules split: if_splits)

section \<open>Summary\<close>

record Summary =
  smMethod :: bytes
  smExtra :: gomap
  smUnrecognized :: bytes

definition Summary_Reset :: Summary where
  "Summary_Reset =
     \<lparr>smMethod = [], smExtra = Map.empty, smUnrecognized = []\<rparr>"

definition Summary_GetMethod :: "Summary option \<Rightarrow> bytes" where
  "Summary_GetMethod m = (case m of Some m \<Rightarrow> smMethod m | None \<Rightarrow> [])"

definition Summary_GetExtra :: "Summary option \<Rightarrow> gomap" where
  "Summary_GetExtra m = (case m of Some m \<Rightarrow> smExtra m | None \<Rightarrow> Map.empty)"

definition Summary_Size :: "Summary option \<Rightarrow> bytes list \<Rightarrow> nat" where
  "Summary_Size m ks =
     (case m of None \<Rightarrow> 0
      | Some m \<Rightarrow>
          (if 0 < length (smMethod m) then size_bytes_field (length (smMethod m)) else 0)
        + (if 0 < length ks then size_map (smExtra m) ks else 0)
        + length (smUnrecognized m))"

definition Summary_put :: "Summary \<Rightarrow> bytes list \<Rightarrow> wr \<Rightarrow> wr option" where
  "Summary_put m ks w = do {
     w \<leftarrow> wr_if (smUnrecognized m \<noteq> []) (put_bytes (smUnrecognized m)) w;
     w \<leftarrow> wr_if (0 < length ks) (put_map 0x12 (smExtra m) ks) w;
     wr_if (0 < length (smMethod m)) (put_bytes_field 0x0a (smMethod m)) w
   }"

definition Summary_MarshalToSizedBuffer :: "Summary \<Rightarrow> bytes list \<Rightarrow> bytes \<Rightarrow> (bytes \<times> int) option" where
  "Summary_MarshalToSizedBuffer m ks dAtA = do {
     w \<leftarrow> Summary_put m ks (dAtA, int (length dAtA));
     Some (fst w, int (length dAtA) - snd w)
   }"

definition Summary_MarshalTo :: "Summary \<Rightarrow> bytes list \<Rightarrow> bytes list \<Rightarrow> bytes \<Rightarrow> (bytes \<times> int) option" where
  "Summary_MarshalTo m ks ks' dAtA =
     marshal_to_with (Summary_Size (Some m) ks) (Summary_MarshalToSizedBuffer m ks') dAtA"

definition Summary_Marshal :: "Summary \<Rightarrow> bytes list \<Rightarrow> bytes list \<Rightarrow> bytes option" where
  "Summary_Marshal m ks ks' =
     marshal_with (Summary_Size (Some m) ks) (Summary_MarshalToSizedBuffer m ks')"

definition Summary_unmarshal_Method :: "Summary handler" where
  "Summary_unmarshal_Method = bytes_field (\<lambda>s m. m\<lparr>smMethod := s\<rparr>)"

definition Summary_unmarshal_Extra :: "Summary handler" where
  "Summary_unmarshal_Extra = map_field (\<lambda>k v m. m\<lparr>smExtra := (smExtra m)(k \<mapsto> v)\<rparr>)"

definition Summary_fields :: "int \<Rightarrow> Summary handler option" where
  "Summary_fields fieldNum =
     (if fieldNum = 1 then Some Summary_unmarshal_Method
      else if fieldNum = 2 then Some Summary_unmarshal_Extra
      else None)"

definition Summary_unrecognized :: "bytes \<Rightarrow> Summary \<Rightarrow> Summary" where
  "Summary_unrecognized s m = m\<lparr>smUnrecognized := smUnrecognized m @ s\<rparr>"

definition Summary_Unmarshal :: "bytes \<Rightarrow> Summary \<Rightarrow> perr + Summary" where
  "Summary_Unmarshal dAtA m = unmarshal_with Summary_fields Summary_unrecognized dAtA m"

lemmas Summary_handlers = Summary_unmarshal_Method_def Summary_unmarshal_Extra_def

interpretation summary: wire_message Summary_fields Summary_unrecognized
  by unfold_locales
    (auto simp: Summary_fields_def Summary_handlers Summary_unrecognized_def
      intro: advancing_rules split: if_splits)

section \<open>Counter: encoding and reading back\<close>

definition enc_Counter :: "Counter \<Rightarrow> bytes list \<Rightarrow> bytes" where
  "enc_Counter m ks =
     (if 0 < length (ctMethod m) then enc_bytes_field 0x0a (ctMethod m) else []) @
     (if 0 < length (ctCode m) then enc_bytes_field 0x12 (ctCode m) else []) @
     (if 0 < length ks then enc_map 0x1a (ctExtra m) ks else []) @
     ctUnrecognized m"

lemma emits_Counter: "emits (Counter_put m ks) (enc_Counter m ks)"
  unfolding Counter_put_def [abs_def] enc_Counter_def
  by (rule emits_eq, (rule emit_rules)+) simp

lemma length_enc_Counter: "length (enc_Counter m ks) = Counter_Size (Some m) ks"
  by (simp add: enc_Counter_def Counter_Size_def)

lemma fills_Counter: "fills (Counter_MarshalToSizedBuffer m ks) (enc_Counter m ks)"
  using fills_intro [OF emits_Counter] by (simp add: Counter_MarshalToSizedBuffer_def [abs_def])

lemma Counter_Size_order:
  "range_order (ctExtra m) ks \<Longrightarrow> range_order (ctExtra m) ks' \<Longrightarrow>
     Counter_Size (Some m) ks = Counter_Size (Some m) ks'"
  using size_map_order [of "ctExtra m" ks ks']
  by (auto simp: Counter_Size_def range_order_def)

lemma Counter_Marshal_enc:
  assumes "range_order (ctExtra m) ks" "range_order (ctExtra m) ks'"
  shows "Counter_Marshal m ks ks' = Some (enc_Counter m ks')"
  using marshal_with_fills [OF fills_Counter, of m ks'] Counter_Size_order [OF assms]
  by (simp add: Counter_Marshal_def length_enc_Counter)

definition Counter_unknown :: "bytes \<Rightarrow> bool" where
  "Counter_unknown u \<longleftrightarrow> (\<exists>cs. list_all (unknown_chunk Counter_fields) cs \<and> u = concat cs)"

lemma Counter_unknown_Nil [simp]: "Counter_unknown []"
  unfolding Counter_unknown_def by (auto intro: exI [of _ "[]"])

definition Counter_merge :: "Counter \<Rightarrow> bytes list \<Rightarrow> Counter \<Rightarrow> Counter" where
  "Counter_merge m ks m0 =
     (let m1 = (if 0 < length (ctMethod m) then m0\<lparr>ctMethod := ctMethod m\<rparr> else m0);
          m2 = (if 0 < length (ctCode m) then m1\<lparr>ctCode := ctCode m\<rparr> else m1);
          m3 = (if 0 < length ks then m2\<lparr>ctExtra := fold (\<lambda>k h. h(k \<mapsto> map_get (ctExtra m) k)) (rev ks) (ctExtra m2)\<rparr> else m2)
      in Counter_unrecognized (ctUnrecognized m) m3)"

lemma fold_Counter_Extra:
  "fold (\<lambda>k m. m\<lparr>ctExtra := (ctExtra m)(k \<mapsto> map_get mp k)\<rparr>) ks =
     (\<lambda>m. m\<lparr>ctExtra := fold (\<lambda>k h. h(k \<mapsto> map_get mp k)) ks (ctExtra m)\<rparr>)"
  by (induction ks) (simp_all add: fun_eq_iff)

lemma Counter_reads:
  assumes "Counter_unknown (ctUnrecognized m)"
  shows "reads Counter_fields Counter_unrecognized (enc_Counter m ks) (Counter_merge m ks)"
proof -
  obtain cs where cs: "list_all (unknown_chunk Counter_fields) cs" "ctUnrecognized m = concat cs"
    using assms by (auto simp: Counter_unknown_def)
  have f1: "reads Counter_fields Counter_unrecognized (enc_bytes_field 0x0a (ctMethod m)) (\<lambda>m0. m0\<lparr>ctMethod := ctMethod m\<rparr>)"
    using counter.reads_bytes [of "0x0a" 1 "\<lambda>s m. m\<lparr>ctMethod := s\<rparr>" "ctMethod m"]
    by (simp add: tag_is_def Counter_fields_def Counter_handlers)
  have f2: "reads Counter_fields Counter_unrecognized (enc_bytes_field 0x12 (ctCode m)) (\<lambda>m0. m0\<lparr>ctCode := ctCode m\<rparr>)"
    using counter.reads_bytes [of "0x12" 2 "\<lambda>s m. m\<lparr>ctCode := s\<rparr>" "ctCode m"]
    by (simp add: tag_is_def Counter_fields_def Counter_handlers)
  have f3: "reads Counter_fields Counter_unrecognized (enc_map 0x1a (ctExtra m) ks) (\<lambda>m0. m0\<lparr>ctExtra := fold (\<lambda>k h. h(k \<mapsto> map_get (ctExtra m) k)) (rev ks) (ctExtra m0)\<rparr>)"
    using counter.reads_map [of "0x1a" 3 "\<lambda>k v m. m\<lparr>ctExtra := (ctExtra m)(k \<mapsto> v)\<rparr>" "ctExtra m" ks]
    by (simp add: tag_is_def Counter_fields_def Counter_handlers fold_Counter_Extra)
  note rd = counter.reads_append [OF counter.reads_if [where c = "0 < length (ctMethod m)", OF f1]
      counter.reads_append [OF counter.reads_if [where c = "0 < length (ctCode m)", OF f2]
      counter.reads_append [OF counter.reads_if [where c = "0 < length ks", OF f3]
      counter.reads_unknowns [OF cs(1)]]]]
  then show ?thesis
    unfolding enc_Counter_def Counter_merge_def [abs_def] Let_def cs(2) .
qed

lemma Counter_merge_Reset:
  "range_order (ctExtra m) ks \<Longrightarrow> Counter_merge m ks Counter_Reset = m"
  using fold_headers_back [of "ctExtra m" ks]
  by (cases m) (simp add: Counter_merge_def Counter_Reset_def Counter_unrecognized_def Let_def)

lemma Counter_Unmarshal_enc:
  assumes "Counter_unknown (ctUnrecognized m)" "go_slice (enc_Counter m ks)"
  shows "Counter_Unmarshal (enc_Counter m ks) m0 = Inr (Counter_merge m ks m0)"
  unfolding Counter_Unmarshal_def by (rule counter.unmarshal_reads [OF Counter_reads [OF assms(1)] assms(2)])

lemma Counter_Unmarshal_total: "go_slice d \<Longrightarrow> Counter_Unmarshal d m \<noteq> Inl OutOfFuel"
  unfolding Counter_Unmarshal_def by (rule counter.unmarshal_total)

section \<open>Gauge: encoding and reading back\<close>

definition enc_Gauge :: "Gauge \<Rightarrow> bytes list \<Rightarrow> bytes" where
  "enc_Gauge m ks =
     (if 0 < length (gaType m) then enc_bytes_field 0x0a (gaType m) else []) @
     (if 0 < length (gaValue m) then enc_bytes_field 0x12 (gaValue m) else []) @
     (if gaAdd m \<noteq> 0 then enc_varint_field 0x18 (gaAdd m) else []) @
     (if gaInc m then enc_bool_field 0x20 else []) @
     (if 0 < length ks then enc_map 0x2a (gaExtra m) ks else []) @
     gaUnrecognized m"

lemma emits_Gauge: "emits (Gauge_put m ks) (enc_Gauge m ks)"
  unfolding Gauge_put_def [abs_def] enc_Gauge_def
  by (rule emits_eq, (rule emit_rules)+) (simp add: enc_bool_field_eq)

lemma length_enc_Gauge: "length (enc_Gauge m ks) = Gauge_Size (Some m) ks"
  by (simp add: enc_Gauge_def Gauge_Size_def enc_bool_field_eq)

lemma fills_Gauge: "fills (Gauge_MarshalToSizedBuffer m ks) (enc_Gauge m ks)"
  using fills_intro [OF emits_Gauge] by (simp add: Gauge_MarshalToSizedBuffer_def [abs_def])

lemma Gauge_Size_order:
  "range_order (gaExtra m) ks \<Longrightarrow> range_order (gaExtra m) ks' \<Longrightarrow>
     Gauge_Size (Some m) ks = Gauge_Size (Some m) ks'"
  using size_map_order [of "gaExtra m" ks ks']
  by (auto simp: Gauge_Size_def range_order_def)

lemma Gauge_Marshal_enc:
  assumes "range_order (gaExtra m) ks" "range_order (gaExtra m) ks'"
  shows "Gauge_Marshal m ks ks' = Some (enc_Gauge m ks')"
  using marshal_with_fills [OF fills_Gauge, of m ks'] Gauge_Size_order [OF assms]
  by (simp add: Gauge_Marshal_def length_enc_Gauge)

definition Gauge_unknown :: "bytes \<Rightarrow> bool" where
  "Gauge_unknown u \<longleftrightarrow> (\<exists>cs. list_all (unknown_chunk Gauge_fields) cs \<and> u = concat cs)"

lemma Gauge_unknown_Nil [simp]: "Gauge_unknown []"
  unfolding Gauge_unknown_def by (auto intro: exI [of _ "[]"])

definition Gauge_merge :: "Gauge \<Rightarrow> bytes list \<Rightarrow> Gauge \<Rightarrow> Gauge" where
  "Gauge_merge m ks m0 =
     (let m1 = (if 0 < length (gaType m) then m0\<lparr>gaType := gaType m\<rparr> else m0);
          m2 = (if 0 < length (gaValue m) then m1\<lparr>gaValue := gaValue m\<rparr> else m1);
          m3 = (if gaAdd m \<noteq> 0 then m2\<lparr>gaAdd := gaAdd m\<rparr> else m2);
          m4 = (if gaInc m then m3\<lparr>gaInc := True\<rparr> else m3);
          m5 = (if 0 < length ks then m4\<lparr>gaExtra := fold (\<lambda>k h. h(k \<mapsto> map_get (gaExtra m) k)) (rev ks) (gaExtra m4)\<rparr> else m4)
      in Gauge_unrecognized (gaUnrecognized m) m5)"

lemma fold_Gauge_Extra:
  "fold (\<lambda>k m. m\<lparr>gaExtra := (gaExtra m)(k \<mapsto> map_get mp k)\<rparr>) ks =
     (\<lambda>m. m\<lparr>gaExtra := fold (\<lambda>k h. h(k \<mapsto> map_get mp k)) ks (gaExtra m)\<rparr>)"
  by (induction ks) (simp_all add: fun_eq_iff)

lemma Gauge_reads:
  assumes "Gauge_unknown (gaUnrecognized m)"
  shows "reads Gauge_fields Gauge_unrecognized (enc_Gauge m ks) (Gauge_merge m ks)"
proof -
  obtain cs where cs: "list_all (unknown_chunk Gauge_fields) cs" "gaUnrecognized m = concat cs"
    using assms by (auto simp: Gauge_unknown_def)
  have f1: "reads Gauge_fields Gauge_unrecognized (enc_bytes_field 0x0a (gaType m)) (\<lambda>m0. m0\<lparr>gaType := gaType m\<rparr>)"
    using gauge.reads_bytes [of "0x0a" 1 "\<lambda>s m. m\<lparr>gaType := s\<rparr>" "gaType m"]
    by (simp add: tag_is_def Gauge_fields_def Gauge_handlers)
  have f2: "reads Gauge_fields Gauge_unrecognized (enc_bytes_field 0x12 (gaValue m)) (\<lambda>m0. m0\<lparr>gaValue := gaValue m\<rparr>)"
    using gauge.reads_bytes [of "0x12" 2 "\<lambda>s m. m\<lparr>gaValue := s\<rparr>" "gaValue m"]
    by (simp add: tag_is_def Gauge_fields_def Gauge_handlers)
  have f3: "reads Gauge_fields Gauge_unrecognized (enc_varint_field 0x18 (gaAdd m)) (\<lambda>m0. m0\<lparr>gaAdd := gaAdd m\<rparr>)"
    using gauge.reads_varint [of "0x18" 3 "\<lambda>v m. m\<lparr>gaAdd := v\<rparr>" "gaAdd m"]
    by (simp add: tag_is_def Gauge_fields_def Gauge_handlers)
  have f4: "reads Gauge_fields Gauge_unrecognized (enc_bool_field 0x20) (\<lambda>m0. m0\<lparr>gaInc := True\<rparr>)"
    using gauge.reads_varint [of "0x20" 4 "\<lambda>v m. m\<lparr>gaInc := (v :: i64) \<noteq> 0\<rparr>" 1]
    by (simp add: tag_is_def Gauge_fields_def Gauge_handlers enc_bool_field_def)
  have f5: "reads Gauge_fields Gauge_unrecognized (enc_map 0x2a (gaExtra m) ks) (\<lambda>m0. m0\<lparr>gaExtra := fold (\<lambda>k h. h(k \<mapsto> map_get (gaExtra m) k)) (rev ks) (gaExtra m0)\<rparr>)"
    using gauge.reads_map [of "0x2a" 5 "\<lambda>k v m. m\<lparr>gaExtra := (gaExtra m)(k \<mapsto> v)\<rparr>" "gaExtra m" ks]
    by (simp add: tag_is_def Gauge_fields_def Gauge_handlers fold_Gauge_Extra)
  note rd = gauge.reads_append [OF gauge.reads_if [where c = "0 < length (gaType m)", OF f1]
      gauge.reads_append [OF gauge.reads_if [where c = "0 < length (gaValue m)", OF f2]
      gauge.reads_append [OF gauge.reads_if [where c = "gaAdd m \<noteq> 0", OF f3]
      gauge.reads_append [OF gauge.reads_if [where c = "gaInc m", OF f4]
      gauge.reads_append [OF gauge.reads_if [where c = "0 < length ks", OF f5]
      gauge.reads_unknowns [OF cs(1)]]]]]]
  then show ?thesis
    unfolding enc_Gauge_def Gauge_merge_def [abs_def] Let_def cs(2) .
qed

lemma Gauge_merge_Reset:
  "range_order (gaExtra m) ks \<Longrightarrow> Gauge_merge m ks Gauge_Reset = m"
  using fold_headers_back [of "gaExtra m" ks]
  by (cases m) (simp add: Gauge_merge_def Gauge_Reset_def Gauge_unrecognized_def Let_def)

lemma Gauge_Unmarshal_enc:
  assumes "Gauge_unknown (gaUnrecognized m)" "go_slice (enc_Gauge m ks)"
  shows "Gauge_Unmarshal (enc_Gauge m ks) m0 = Inr (Gauge_merge m ks m0)"
  unfolding Gauge_Unmarshal_def by (rule gauge.unmarshal_reads [OF Gauge_reads [OF assms(1)] assms(2)])

lemma Gauge_Unmarshal_total: "go_slice d \<Longrightarrow> Gauge_Unmarshal d m \<noteq> Inl OutOfFuel"
  unfolding Gauge_Unmarshal_def by (rule gauge.unmarshal_total)

section \<open>Summary: encoding and reading back\<close>

definition enc_Summary :: "Summary \<Rightarrow> bytes list \<Rightarrow> bytes" where
  "enc_Summary m ks =
     (if 0 < length (smMethod m) then enc_bytes_field 0x0a (smMethod m) else []) @
     (if 0 < length ks then enc_map 0x12 (smExtra m) ks else []) @
     smUnrecognized m"

lemma emits_Summary: "emits (Summary_put m ks) (enc_Summary m ks)"
  unfolding Summary_put_def [abs_def] enc_Summary_def
  by (rule emits_eq, (rule emit_rules)+) simp

lemma length_enc_Summary: "length (enc_Summary m ks) = Summary_Size (Some m) ks"
  by (simp add: enc_Summary_def Summary_Size_def)

lemma fills_Summary: "fills (Summary_MarshalToSizedBuffer m ks) (enc_Summary m ks)"
  using fills_intro [OF emits_Summary] by (simp add: Summary_MarshalToSizedBuffer_def [abs_def])

lemma Summary_Size_order:
  "range_order (smExtra m) ks \<Longrightarrow> range_order (smExtra m) ks' \<Longrightarrow>
     Summary_Size (Some m) ks = Summary_Size (Some m) ks'"
  using size_map_order [of "smExtra m" ks ks']
  by (auto simp: Summary_Size_def range_order_def)

lemma Summary_Marshal_enc:
  assumes "range_order (smExtra m) ks" "range_order (smExtra m) ks'"
  shows "Summary_Marshal m ks ks' = Some (enc_Summary m ks')"
  using marshal_with_fills [OF fills_Summary, of m ks'] Summary_Size_order [OF assms]
  by (simp add: Summary_Marshal_def length_enc_Summary)

definition Summary_unknown :: "bytes \<Rightarrow> bool" where
  "Summary_unknown u \<longleftrightarrow> (\<exists>cs. list_all (unknown_chunk Summary_fields) cs \<and> u = concat cs)"

lemma Summary_unknown_Nil [simp]: "Summary_unknown []"
  unfolding Summary_unknown_def by (auto intro: exI [of _ "[]"])

definition Summary_merge :: "Summary \<Rightarrow> bytes list \<Rightarrow> Summary \<Rightarrow> Summary" where
  "Summary_merge m ks m0 =
     (let m1 = (if 0 < length (smMethod m) then m0\<lparr>smMethod := smMethod m\<rparr> else m0);
          m2 = (if 0 < length ks then m1\<lparr>smExtra := fold (\<lambda>k h. h(k \<mapsto> map_get (smExtra m) k)) (rev ks) (smExtra m1)\<rparr> else m1)
      in Summary_unrecognized (smUnrecognized m) m2)"

lemma fold_Summary_Extra:
  "fold (\<lambda>k m. m\<lparr>smExtra := (smExtra m)(k \<mapsto> map_get mp k)\<rparr>) ks =
     (\<lambda>m. m\<lparr>smExtra := fold (\<lambda>k h. h(k \<mapsto> map_get mp k)) ks (smExtra m)\<rparr>)"
  by (induction ks) (simp_all add: fun_eq_iff)

lemma Summary_reads:
  assumes "Summary_unknown (smUnrecognized m)"
  shows "reads Summary_fields Summary_unrecognized (enc_Summary m ks) (Summary_merge m ks)"
proof -
  obtain cs where cs: "list_all (unknown_chunk Summary_fields) cs" "smUnrecognized m = concat cs"
    using assms by (auto simp: Summary_unknown_def)
  have f1: "reads Summary_fields Summary_unrecognized (enc_bytes_field 0x0a (smMethod m)) (\<lambda>m0. m0\<lparr>smMethod := smMethod m\<rparr>)"
    using summary.reads_bytes [of "0x0a" 1 "\<lambda>s m. m\<lparr>smMethod := s\<rparr>" "smMethod m"]
    by (simp add: tag_is_def Summary_fields_def Summary_handlers)
  have f2: "reads Summary_fields Summary_unrecognized (enc_map 0x12 (smExtra m) ks) (\<lambda>m0. m0\<lparr>smExtra := fold (\<lambda>k h. h(k \<mapsto> map_get (smExtra m) k)) (rev ks) (smExtra m0)\<rparr>)"
    using summary.reads_map [of "0x12" 2 "\<lambda>k v m. m\<lparr>smExtra := (smExtra m)(k \<mapsto> v)\<rparr>" "smExtra m" ks]
    by (simp add: tag_is_def Summary_fields_def Summary_handlers fold_Summary_Extra)
  note rd = summary.reads_append [OF summary.reads_if [where c = "0 < length (smMethod m)", OF f1]
      summary.reads_append [OF summary.reads_if [where c = "0 < length ks", OF f2]
      summary.reads_unknowns [OF cs(1)]]]
  then show ?thesis
    unfolding enc_Summary_def Summary_merge_def [abs_def] Let_def cs(2) .
qed

lemma Summary_merge_Reset:
  "range_order (smExtra m) ks \<Longrightarrow> Summary_merge m ks Summary_Reset = m"
  using fold_headers_back [of "smExtra m" ks]
  by (cases m) (simp add: Summary_merge_def Summary_Reset_def Summary_unrecognized_def Let_def)

lemma Summary_Unmarshal_enc:
  assumes "Summary_unknown (smUnrecognized m)" "go_slice (enc_Summary m ks)"
  shows "Summary_Unmarshal (enc_Summary m ks) m0 = Inr (Summary_merge m ks m0)"
  unfolding Summary_Unmarshal_def by (rule summary.unmarshal_reads [OF Summary_reads [OF assms(1)] assms(2)])

lemma Summary_Unmarshal_total: "go_slice d \<Longrightarrow> Summary_Unmarshal d m \<noteq> Inl OutOfFuel"
  unfolding Summary_Unmarshal_def by (rule summary.unmarshal_total)

end
