(* ===== verification/Packet_Metric.thy ===== *)
theory Packet_Metric
  imports Packet_Metric_Parts
begin

text \<open>
  The messages \<open>Metric\<close> and \<open>Metrics\<close> of \<open>proto/packet.pb.go\<close>. A nested message is a pointer: an
  \<open>option\<close>, and the list of a \<open>Metrics\<close> is a list of pointers, a nil one included. Each \<open>Marshal\<close> ranges
  over several maps, so the visiting orders are a record (\<open>Metric_ranges\<close>), indexed by the position in the list
  for \<open>Metrics\<close>. The enum \<open>MetricType\<close> is its underlying \<open>int32\<close>: the code does not check its range.
\<close>

section \<open>Metric\<close>

type_synonym MetricType = i32

definition MetricType_CounterType :: MetricType where "MetricType_CounterType = 0"
definition MetricType_GaugeType :: MetricType where "MetricType_GaugeType = 1"
definition MetricType_SummaryType :: MetricType where "MetricType_SummaryType = 2"

record Metric =
  meType :: MetricType
  meCounter :: "Counter option"
  meGauge :: "Gauge option"
  meSummary :: "Summary option"
  meHost :: bytes
  meMicro :: i64
  meSvrname :: bytes
  meExtra :: gomap
  meUnrecognized :: bytes

record Metric_ranges =
  mrCounter :: "bytes list"
  mrGauge :: "bytes list"
  mrSummary :: "bytes list"
  mrExtra :: "bytes list"

definition Metric_Reset :: Metric where
  "Metric_Reset =
     \<lparr>meType = 0, meCounter = None, meGauge = None, meSummary = None, meHost = [], meMicro = 0,
      meSvrname = [], meExtra = Map.empty, meUnrecognized = []\<rparr>"

definition Metric_GetType :: "Metric option \<Rightarrow> MetricType" where
  "Metric_GetType m = (case m of Some m \<Rightarrow> meType m | None \<Rightarrow> MetricType_CounterType)"

definition Metric_GetCounter :: "Metric option \<Rightarrow> Counter option" where
  "Metric_GetCounter m = (case m of Some m \<Rightarrow> meCounter m | None \<Rightarrow> None)"

definition Metric_GetGauge :: "Metric option \<Rightarrow> Gauge option" where
  "Metric_GetGauge m = (case m of Some m \<Rightarrow> meGauge m | None \<Rightarrow> None)"

definition Metric_GetSummary :: "Metric option \<Rightarrow> Summary option" where
  "Metric_GetSummary m = (case m of Some m \<Rightarrow> meSummary m | None \<Rightarrow> None)"

definition Metric_GetHost :: "Metric option \<Rightarrow> bytes" where
  "Metric_GetHost m = (case m of Some m \<Rightarrow> meHost m | None \<Rightarrow> [])"

definition Metric_GetMicro :: "Metric option \<Rightarrow> i64" where
  "Metric_GetMicro m = (case m of Some m \<Rightarrow> meMicro m | None \<Rightarrow> 0)"

definition Metric_GetSvrname :: "Metric option \<Rightarrow> bytes" where
  "Metric_GetSvrname m = (case m of Some m \<Rightarrow> meSvrname m | None \<Rightarrow> [])"

definition Metric_GetExtra :: "Metric option \<Rightarrow> gomap" where
  "Metric_GetExtra m = (case m of Some m \<Rightarrow> meExtra m | None \<Rightarrow> Map.empty)"

definition Metric_Size :: "Metric option \<Rightarrow> Metric_ranges \<Rightarrow> nat" where
  "Metric_Size m r =
     (case m of None \<Rightarrow> 0
      | Some m \<Rightarrow>
          (if meType m \<noteq> 0 then size_varint_field (scast (meType m)) else 0)
        + (if meCounter m \<noteq> None then size_bytes_field (Counter_Size (meCounter m) (mrCounter r)) else 0)
        + (if meGauge m \<noteq> None then size_bytes_field (Gauge_Size (meGauge m) (mrGauge r)) else 0)
        + (if meSummary m \<noteq> None then size_bytes_field (Summary_Size (meSummary m) (mrSummary r)) else 0)
        + (if 0 < length (meHost m) then size_bytes_field (length (meHost m)) else 0)
        + (if meMicro m \<noteq> 0 then size_varint_field (meMicro m) else 0)
        + (if 0 < length (meSvrname m) then size_bytes_field (length (meSvrname m)) else 0)
        + (if 0 < length (mrExtra r) then size_map (meExtra m) (mrExtra r) else 0)
        + length (meUnrecognized m))"

definition Metric_put :: "Metric \<Rightarrow> Metric_ranges \<Rightarrow> wr \<Rightarrow> wr option" where
  "Metric_put m r w = do {
     w \<leftarrow> wr_if (meUnrecognized m \<noteq> []) (put_bytes (meUnrecognized m)) w;
     w \<leftarrow> wr_if (0 < length (mrExtra r)) (put_map 0x42 (meExtra m) (mrExtra r)) w;
     w \<leftarrow> wr_if (0 < length (meSvrname m)) (put_bytes_field 0x3a (meSvrname m)) w;
     w \<leftarrow> wr_if (meMicro m \<noteq> 0) (put_varint_field 0x30 (meMicro m)) w;
     w \<leftarrow> wr_if (0 < length (meHost m)) (put_bytes_field 0x2a (meHost m)) w;
     w \<leftarrow> wr_option (meSummary m) (\<lambda>s. put_message_field 0x22 (Summary_MarshalToSizedBuffer s (mrSummary r))) w;
     w \<leftarrow> wr_option (meGauge m) (\<lambda>g. put_message_field 0x1a (Gauge_MarshalToSizedBuffer g (mrGauge r))) w;
     w \<leftarrow> wr_option (meCounter m) (\<lambda>c. put_message_field 0x12 (Counter_MarshalToSizedBuffer c (mrCounter r))) w;
     wr_if (meType m \<noteq> 0) (put_varint_field 0x08 (scast (meType m))) w
   }"

text \<open>A nil receiver is dereferenced at once: the code panics.\<close>

definition Metric_MarshalToSizedBuffer ::
    "Metric option \<Rightarrow> Metric_ranges \<Rightarrow> bytes \<Rightarrow> (bytes \<times> int) option" where
  "Metric_MarshalToSizedBuffer m r dAtA = do {
     m \<leftarrow> m;
     w \<leftarrow> Metric_put m r (dAtA, int (length dAtA));
     Some (fst w, int (length dAtA) - snd w)
   }"

definition Metric_MarshalTo ::
    "Metric option \<Rightarrow> Metric_ranges \<Rightarrow> Metric_ranges \<Rightarrow> bytes \<Rightarrow> (bytes \<times> int) option" where
  "Metric_MarshalTo m r r' dAtA =
     marshal_to_with (Metric_Size m r) (Metric_MarshalToSizedBuffer m r') dAtA"

definition Metric_Marshal :: "Metric option \<Rightarrow> Metric_ranges \<Rightarrow> Metric_ranges \<Rightarrow> bytes option" where
  "Metric_Marshal m r r' = marshal_with (Metric_Size m r) (Metric_MarshalToSizedBuffer m r')"

definition Metric_unmarshal_Type :: "Metric handler" where
  "Metric_unmarshal_Type = varint_field (\<lambda>v m. m\<lparr>meType := v\<rparr>)"

text \<open>A nested message is read into the one the pointer holds, or into a new one.\<close>

definition Metric_unmarshal_Counter :: "Metric handler" where
  "Metric_unmarshal_Counter = message_field (\<lambda>s m.
     r_bind (Counter_Unmarshal s (case meCounter m of None \<Rightarrow> Counter_Reset | Some c \<Rightarrow> c))
       (\<lambda>c. Inr (m\<lparr>meCounter := Some c\<rparr>)))"

definition Metric_unmarshal_Gauge :: "Metric handler" where
  "Metric_unmarshal_Gauge = message_field (\<lambda>s m.
     r_bind (Gauge_Unmarshal s (case meGauge m of None \<Rightarrow> Gauge_Reset | Some g \<Rightarrow> g))
       (\<lambda>g. Inr (m\<lparr>meGauge := Some g\<rparr>)))"

definition Metric_unmarshal_Summary :: "Metric handler" where
  "Metric_unmarshal_Summary = message_field (\<lambda>s m.
     r_bind (Summary_Unmarshal s (case meSummary m of None \<Rightarrow> Summary_Reset | Some s \<Rightarrow> s))
       (\<lambda>s. Inr (m\<lparr>meSummary := Some s\<rparr>)))"

definition Metric_unmarshal_Host :: "Metric handler" where
  "Metric_unmarshal_Host = bytes_field (\<lambda>s m. m\<lparr>meHost := s\<rparr>)"

definition Metric_unmarshal_Micro :: "Metric handler" where
  "Metric_unmarshal_Micro = varint_field (\<lambda>v m. m\<lparr>meMicro := v\<rparr>)"

definition Metric_unmarshal_Svrname :: "Metric handler" where
  "Metric_unmarshal_Svrname = bytes_field (\<lambda>s m. m\<lparr>meSvrname := s\<rparr>)"

definition Metric_unmarshal_Extra :: "Metric handler" where
  "Metric_unmarshal_Extra = map_field (\<lambda>k v m. m\<lparr>meExtra := (meExtra m)(k \<mapsto> v)\<rparr>)"

definition Metric_fields :: "int \<Rightarrow> Metric handler option" where
  "Metric_fields fieldNum =
     (if fieldNum = 1 then Some Metric_unmarshal_Type
      else if fieldNum = 2 then Some Metric_unmarshal_Counter
      else if fieldNum = 3 then Some Metric_unmarshal_Gauge
      else if fieldNum = 4 then Some Metric_unmarshal_Summary
      else if fieldNum = 5 then Some Metric_unmarshal_Host
      else if fieldNum = 6 then Some Metric_unmarshal_Micro
      else if fieldNum = 7 then Some Metric_unmarshal_Svrname
      else if fieldNum = 8 then Some Metric_unmarshal_Extra
      else None)"

definition Metric_unrecognized :: "bytes \<Rightarrow> Metric \<Rightarrow> Metric" where
  "Metric_unrecognized s m = m\<lparr>meUnrecognized := meUnrecognized m @ s\<rparr>"

definition Metric_Unmarshal :: "bytes \<Rightarrow> Metric \<Rightarrow> perr + Metric" where
  "Metric_Unmarshal dAtA m = unmarshal_with Metric_fields Metric_unrecognized dAtA m"

section \<open>Metrics\<close>

record Metrics =
  msLists :: "Metric option list"
  msUnrecognized :: bytes

definition Metrics_Reset :: Metrics where
  "Metrics_Reset = \<lparr>msLists = [], msUnrecognized = []\<rparr>"

definition Metrics_GetLists :: "Metrics option \<Rightarrow> Metric option list" where
  "Metrics_GetLists m = (case m of Some m \<Rightarrow> msLists m | None \<Rightarrow> [])"

definition Metrics_Size :: "Metrics option \<Rightarrow> (nat \<Rightarrow> Metric_ranges) \<Rightarrow> nat" where
  "Metrics_Size m rs =
     (case m of None \<Rightarrow> 0
      | Some m \<Rightarrow>
          (\<Sum>i \<leftarrow> [0..<length (msLists m)]. size_bytes_field (Metric_Size (msLists m ! i) (rs i)))
        + length (msUnrecognized m))"

text \<open>The loop \<^verbatim>\<open>for iNdEx := len(m.Lists) - 1; iNdEx >= 0; iNdEx--\<close>, with the number of elements left.\<close>

fun Metrics_put_lists :: "Metric option list \<Rightarrow> (nat \<Rightarrow> Metric_ranges) \<Rightarrow> nat \<Rightarrow> wr \<Rightarrow> wr option" where
  "Metrics_put_lists es rs 0 w = Some w"
| "Metrics_put_lists es rs (Suc iNdEx) w = do {
     w \<leftarrow> put_message_field 0x0a (Metric_MarshalToSizedBuffer (es ! iNdEx) (rs iNdEx)) w;
     Metrics_put_lists es rs iNdEx w
   }"

definition Metrics_put :: "Metrics \<Rightarrow> (nat \<Rightarrow> Metric_ranges) \<Rightarrow> wr \<Rightarrow> wr option" where
  "Metrics_put m rs w = do {
     w \<leftarrow> wr_if (msUnrecognized m \<noteq> []) (put_bytes (msUnrecognized m)) w;
     Metrics_put_lists (msLists m) rs (length (msLists m)) w
   }"

definition Metrics_MarshalToSizedBuffer ::
    "Metrics \<Rightarrow> (nat \<Rightarrow> Metric_ranges) \<Rightarrow> bytes \<Rightarrow> (bytes \<times> int) option" where
  "Metrics_MarshalToSizedBuffer m rs dAtA = do {
     w \<leftarrow> Metrics_put m rs (dAtA, int (length dAtA));
     Some (fst w, int (length dAtA) - snd w)
   }"

definition Metrics_MarshalTo ::
    "Metrics \<Rightarrow> (nat \<Rightarrow> Metric_ranges) \<Rightarrow> (nat \<Rightarrow> Metric_ranges) \<Rightarrow> bytes \<Rightarrow> (bytes \<times> int) option" where
  "Metrics_MarshalTo m rs rs' dAtA =
     marshal_to_with (Metrics_Size (Some m) rs) (Metrics_MarshalToSizedBuffer m rs') dAtA"

definition Metrics_Marshal ::
    "Metrics \<Rightarrow> (nat \<Rightarrow> Metric_ranges) \<Rightarrow> (nat \<Rightarrow> Metric_ranges) \<Rightarrow> bytes option" where
  "Metrics_Marshal m rs rs' =
     marshal_with (Metrics_Size (Some m) rs) (Metrics_MarshalToSizedBuffer m rs')"

text \<open>A pointer to a new \<open>Metric\<close> is appended, and read into.\<close>

definition Metrics_unmarshal_Lists :: "Metrics handler" where
  "Metrics_unmarshal_Lists = message_field (\<lambda>s m.
     r_bind (Metric_Unmarshal s Metric_Reset) (\<lambda>e. Inr (m\<lparr>msLists := msLists m @ [Some e]\<rparr>)))"

definition Metrics_fields :: "int \<Rightarrow> Metrics handler option" where
  "Metrics_fields fieldNum = (if fieldNum = 1 then Some Metrics_unmarshal_Lists else None)"

definition Metrics_unrecognized :: "bytes \<Rightarrow> Metrics \<Rightarrow> Metrics" where
  "Metrics_unrecognized s m = m\<lparr>msUnrecognized := msUnrecognized m @ s\<rparr>"

definition Metrics_Unmarshal :: "bytes \<Rightarrow> Metrics \<Rightarrow> perr + Metrics" where
  "Metrics_Unmarshal dAtA m = unmarshal_with Metrics_fields Metrics_unrecognized dAtA m"

section \<open>The contract holds\<close>

lemmas Metric_handlers = Metric_unmarshal_Type_def Metric_unmarshal_Counter_def
  Metric_unmarshal_Gauge_def Metric_unmarshal_Summary_def Metric_unmarshal_Host_def
  Metric_unmarshal_Micro_def Metric_unmarshal_Svrname_def Metric_unmarshal_Extra_def

lemmas nested_total = Counter_Unmarshal_total Gauge_Unmarshal_total Summary_Unmarshal_total

interpretation metric: wire_message Metric_fields Metric_unrecognized
  by unfold_locales
    (auto simp: Metric_fields_def Metric_handlers Metric_unrecognized_def r_iffs nested_total
      intro!: advancing_rules split: if_splits)

lemma Metric_Unmarshal_total: "go_slice d \<Longrightarrow> Metric_Unmarshal d m \<noteq> Inl OutOfFuel"
  unfolding Metric_Unmarshal_def by (rule metric.unmarshal_total)

interpretation metrics: wire_message Metrics_fields Metrics_unrecognized
  by unfold_locales
    (auto simp: Metrics_fields_def Metrics_unmarshal_Lists_def Metrics_unrecognized_def r_iffs
        Metric_Unmarshal_total intro!: advancing_rules split: if_splits)

lemma Metrics_Unmarshal_total: "go_slice d \<Longrightarrow> Metrics_Unmarshal d m \<noteq> Inl OutOfFuel"
  unfolding Metrics_Unmarshal_def by (rule metrics.unmarshal_total)

section \<open>The reference encoding\<close>

definition enc_Metric :: "Metric \<Rightarrow> Metric_ranges \<Rightarrow> bytes" where
  "enc_Metric m r =
     (if meType m \<noteq> 0 then enc_varint_field 0x08 (scast (meType m)) else []) @
     (case meCounter m of None \<Rightarrow> [] | Some c \<Rightarrow> enc_bytes_field 0x12 (enc_Counter c (mrCounter r))) @
     (case meGauge m of None \<Rightarrow> [] | Some g \<Rightarrow> enc_bytes_field 0x1a (enc_Gauge g (mrGauge r))) @
     (case meSummary m of None \<Rightarrow> [] | Some s \<Rightarrow> enc_bytes_field 0x22 (enc_Summary s (mrSummary r))) @
     (if 0 < length (meHost m) then enc_bytes_field 0x2a (meHost m) else []) @
     (if meMicro m \<noteq> 0 then enc_varint_field 0x30 (meMicro m) else []) @
     (if 0 < length (meSvrname m) then enc_bytes_field 0x3a (meSvrname m) else []) @
     (if 0 < length (mrExtra r) then enc_map 0x42 (meExtra m) (mrExtra r) else []) @
     meUnrecognized m"

lemma emits_Metric: "emits (Metric_put m r) (enc_Metric m r)"
  unfolding Metric_put_def [abs_def] enc_Metric_def
  by (rule emits_eq, (rule emit_rules fills_Counter fills_Gauge fills_Summary)+) simp

lemma length_enc_Metric: "length (enc_Metric m r) = Metric_Size (Some m) r"
  by (simp add: enc_Metric_def Metric_Size_def length_enc_Counter length_enc_Gauge
      length_enc_Summary split: option.splits)

lemma fills_Metric: "fills (Metric_MarshalToSizedBuffer (Some m) r) (enc_Metric m r)"
  using fills_intro [OF emits_Metric] by (simp add: Metric_MarshalToSizedBuffer_def [abs_def])

text \<open>The visiting orders of a metric's maps.\<close>

definition Metric_range_order :: "Metric \<Rightarrow> Metric_ranges \<Rightarrow> bool" where
  "Metric_range_order m r \<longleftrightarrow>
     range_order (meExtra m) (mrExtra r) \<and>
     pred_option (\<lambda>c. range_order (ctExtra c) (mrCounter r)) (meCounter m) \<and>
     pred_option (\<lambda>g. range_order (gaExtra g) (mrGauge r)) (meGauge m) \<and>
     pred_option (\<lambda>s. range_order (smExtra s) (mrSummary r)) (meSummary m)"

lemma Metric_Size_order:
  assumes "Metric_range_order m r" "Metric_range_order m r'"
  shows "Metric_Size (Some m) r = Metric_Size (Some m) r'"
proof -
  note order = assms [unfolded Metric_range_order_def]
  have "Counter_Size (meCounter m) (mrCounter r) = Counter_Size (meCounter m) (mrCounter r')"
    using order Counter_Size_order by (cases "meCounter m") (simp_all add: Counter_Size_def [of None])
  moreover have "Gauge_Size (meGauge m) (mrGauge r) = Gauge_Size (meGauge m) (mrGauge r')"
    using order Gauge_Size_order by (cases "meGauge m") (simp_all add: Gauge_Size_def [of None])
  moreover have "Summary_Size (meSummary m) (mrSummary r) = Summary_Size (meSummary m) (mrSummary r')"
    using order Summary_Size_order by (cases "meSummary m") (simp_all add: Summary_Size_def [of None])
  moreover have "size_map (meExtra m) (mrExtra r) = size_map (meExtra m) (mrExtra r')"
    and "mrExtra r = [] \<longleftrightarrow> mrExtra r' = []"
    using assms size_map_order by (auto simp: Metric_range_order_def range_order_def)
  ultimately show ?thesis by (simp add: Metric_Size_def)
qed

lemma Metric_Marshal_enc:
  assumes "Metric_range_order m r" "Metric_range_order m r'"
  shows "Metric_Marshal (Some m) r r' = Some (enc_Metric m r')"
  using marshal_with_fills [OF fills_Metric, of m r'] Metric_Size_order [OF assms]
  by (simp add: Metric_Marshal_def length_enc_Metric)

definition enc_Metrics :: "Metrics \<Rightarrow> (nat \<Rightarrow> Metric_ranges) \<Rightarrow> bytes" where
  "enc_Metrics m rs =
     concat (map (\<lambda>i. enc_bytes_field 0x0a (enc_Metric (the (msLists m ! i)) (rs i)))
       [0..<length (msLists m)]) @ msUnrecognized m"

lemma emits_put_lists:
  assumes "\<forall>i < n. es ! i \<noteq> None"
  shows "emits (Metrics_put_lists es rs n)
     (concat (map (\<lambda>i. enc_bytes_field 0x0a (enc_Metric (the (es ! i)) (rs i))) [0..<n]))"
  using assms
proof (induction n)
  case 0
  then show ?case by (simp add: emits_def)
next
  case (Suc n)
  then have IH: "emits (Metrics_put_lists es rs n)
      (concat (map (\<lambda>i. enc_bytes_field 0x0a (enc_Metric (the (es ! i)) (rs i))) [0..<n]))"
    and n: "es ! n = Some (the (es ! n))" by auto
  have "fills (Metric_MarshalToSizedBuffer (es ! n) (rs n)) (enc_Metric (the (es ! n)) (rs n))"
    using fills_Metric [of "the (es ! n)"] n by simp
  from emits_bind [OF emits_message_field [OF this, of "0x0a"] IH] show ?case
    by (simp add: emits_def)
qed

text \<open>No nil pointer in the list.\<close>

definition Metrics_full :: "Metrics \<Rightarrow> bool" where
  "Metrics_full m \<longleftrightarrow> (\<forall>i < length (msLists m). msLists m ! i \<noteq> None)"

lemma fills_Metrics:
  assumes "Metrics_full m"
  shows "fills (Metrics_MarshalToSizedBuffer m rs) (enc_Metrics m rs)"
proof -
  have "emits (Metrics_put m rs) (enc_Metrics m rs)"
    unfolding Metrics_put_def [abs_def] enc_Metrics_def
    by (rule emits_eq, (rule emit_rules emits_put_lists assms [unfolded Metrics_full_def])+) simp
  from fills_intro [OF this] show ?thesis by (simp add: Metrics_MarshalToSizedBuffer_def [abs_def])
qed

lemma length_enc_Metrics:
  assumes "Metrics_full m"
  shows "length (enc_Metrics m rs) = Metrics_Size (Some m) rs"
proof -
  have "map (\<lambda>i. size_bytes_field (Metric_Size (Some (the (msLists m ! i))) (rs i))) [0..<length (msLists m)]
      = map (\<lambda>i. size_bytes_field (Metric_Size (msLists m ! i) (rs i))) [0..<length (msLists m)]"
    using assms by (intro map_cong) (auto simp: Metrics_full_def)
  from arg_cong [OF this, of sum_list] show ?thesis
    by (simp add: enc_Metrics_def Metrics_Size_def length_concat comp_def length_enc_Metric del: map_eq_conv)
qed

definition Metrics_range_order :: "Metrics \<Rightarrow> (nat \<Rightarrow> Metric_ranges) \<Rightarrow> bool" where
  "Metrics_range_order m rs \<longleftrightarrow>
     (\<forall>i < length (msLists m). pred_option (\<lambda>e. Metric_range_order e (rs i)) (msLists m ! i))"

lemma Metrics_Size_order:
  assumes "Metrics_range_order m rs" "Metrics_range_order m rs'"
  shows "Metrics_Size (Some m) rs = Metrics_Size (Some m) rs'"
proof -
  have "Metric_Size (msLists m ! i) (rs i) = Metric_Size (msLists m ! i) (rs' i)"
    if "i < length (msLists m)" for i
  proof (cases "msLists m ! i")
    case (Some e)
    then have "Metric_range_order e (rs i)" "Metric_range_order e (rs' i)"
      using assms that by (auto simp: Metrics_range_order_def)
    from Metric_Size_order [OF this] Some show ?thesis by simp
  qed (simp add: Metric_Size_def [of None])
  then show ?thesis
    unfolding Metrics_Size_def
    by (auto intro!: arg_cong [where f = sum_list] map_cong)
qed

lemma Metrics_Marshal_enc:
  assumes "Metrics_full m" "Metrics_range_order m rs" "Metrics_range_order m rs'"
  shows "Metrics_Marshal m rs rs' = Some (enc_Metrics m rs')"
  using marshal_with_fills [OF fills_Metrics [OF assms(1)], of rs'] Metrics_Size_order [OF assms(2,3)]
  by (simp add: Metrics_Marshal_def length_enc_Metrics [OF assms(1)])

section \<open>Reading a metric back\<close>

definition Metric_unknown :: "Metric \<Rightarrow> bool" where
  "Metric_unknown m \<longleftrightarrow>
     (\<exists>cs. list_all (unknown_chunk Metric_fields) cs \<and> meUnrecognized m = concat cs) \<and>
     pred_option (\<lambda>c. Counter_unknown (ctUnrecognized c)) (meCounter m) \<and>
     pred_option (\<lambda>g. Gauge_unknown (gaUnrecognized g)) (meGauge m) \<and>
     pred_option (\<lambda>s. Summary_unknown (smUnrecognized s)) (meSummary m)"

text \<open>What reading the encoding of \<open>m\<close> into \<open>m0\<close> gives: the nested messages are merged.\<close>

definition Metric_merge :: "Metric \<Rightarrow> Metric_ranges \<Rightarrow> Metric \<Rightarrow> Metric" where
  "Metric_merge m r m0 =
     (let m1 = (if meType m \<noteq> 0 then m0\<lparr>meType := meType m\<rparr> else m0);
          m2 = (case meCounter m of None \<Rightarrow> (\<lambda>m. m) | Some c \<Rightarrow> (\<lambda>m. m\<lparr>meCounter := Some (Counter_merge c (mrCounter r)
                  (case meCounter m of None \<Rightarrow> Counter_Reset | Some c \<Rightarrow> c))\<rparr>)) m1;
          m3 = (case meGauge m of None \<Rightarrow> (\<lambda>m. m) | Some g \<Rightarrow> (\<lambda>m. m\<lparr>meGauge := Some (Gauge_merge g (mrGauge r)
                  (case meGauge m of None \<Rightarrow> Gauge_Reset | Some g \<Rightarrow> g))\<rparr>)) m2;
          m4 = (case meSummary m of None \<Rightarrow> (\<lambda>m. m) | Some s \<Rightarrow> (\<lambda>m. m\<lparr>meSummary := Some (Summary_merge s (mrSummary r)
                  (case meSummary m of None \<Rightarrow> Summary_Reset | Some s \<Rightarrow> s))\<rparr>)) m3;
          m5 = (if 0 < length (meHost m) then m4\<lparr>meHost := meHost m\<rparr> else m4);
          m6 = (if meMicro m \<noteq> 0 then m5\<lparr>meMicro := meMicro m\<rparr> else m5);
          m7 = (if 0 < length (meSvrname m) then m6\<lparr>meSvrname := meSvrname m\<rparr> else m6);
          m8 = (if 0 < length (mrExtra r) then m7\<lparr>meExtra := fold (\<lambda>k h. h(k \<mapsto> map_get (meExtra m) k)) (rev (mrExtra r)) (meExtra m7)\<rparr> else m7)
      in Metric_unrecognized (meUnrecognized m) m8)"

lemma fold_Metric_Extra:
  "fold (\<lambda>k m. m\<lparr>meExtra := (meExtra m)(k \<mapsto> map_get mp k)\<rparr>) ks =
     (\<lambda>m. m\<lparr>meExtra := fold (\<lambda>k h. h(k \<mapsto> map_get mp k)) ks (meExtra m)\<rparr>)"
  by (induction ks) (simp_all add: fun_eq_iff)

text \<open>A nested message of the encoding is a slice of it.\<close>

lemma go_slice_nested:
  assumes "go_slice (enc_Metric m r)"
  shows "meCounter m = Some c \<Longrightarrow> go_slice (enc_Counter c (mrCounter r))"
    and "meGauge m = Some g \<Longrightarrow> go_slice (enc_Gauge g (mrGauge r))"
    and "meSummary m = Some s \<Longrightarrow> go_slice (enc_Summary s (mrSummary r))"
  using assms by (auto simp: go_slice_def enc_Metric_def size_bytes_field_def)

lemma Metric_reads_Counter:
  assumes "Counter_unknown (ctUnrecognized c)" "go_slice (enc_Counter c ks)"
  shows "reads Metric_fields Metric_unrecognized (enc_bytes_field 0x12 (enc_Counter c ks))
     (\<lambda>m. m\<lparr>meCounter := Some (Counter_merge c ks (case meCounter m of None \<Rightarrow> Counter_Reset | Some c \<Rightarrow> c))\<rparr>)"
proof (rule metric.reads_message)
  show "tag_is 0x12 2 2" by (simp add: tag_is_def)
  show "Metric_fields 2 = Some (message_field (\<lambda>s m.
      r_bind (Counter_Unmarshal s (case meCounter m of None \<Rightarrow> Counter_Reset | Some c \<Rightarrow> c))
        (\<lambda>c. Inr (m\<lparr>meCounter := Some c\<rparr>))))"
    by (simp add: Metric_fields_def Metric_handlers)
qed (simp add: Counter_Unmarshal_enc [OF assms])

lemma Metric_reads_Gauge:
  assumes "Gauge_unknown (gaUnrecognized g)" "go_slice (enc_Gauge g ks)"
  shows "reads Metric_fields Metric_unrecognized (enc_bytes_field 0x1a (enc_Gauge g ks))
     (\<lambda>m. m\<lparr>meGauge := Some (Gauge_merge g ks (case meGauge m of None \<Rightarrow> Gauge_Reset | Some g \<Rightarrow> g))\<rparr>)"
proof (rule metric.reads_message)
  show "tag_is 0x1a 3 2" by (simp add: tag_is_def)
  show "Metric_fields 3 = Some (message_field (\<lambda>s m.
      r_bind (Gauge_Unmarshal s (case meGauge m of None \<Rightarrow> Gauge_Reset | Some g \<Rightarrow> g))
        (\<lambda>g. Inr (m\<lparr>meGauge := Some g\<rparr>))))"
    by (simp add: Metric_fields_def Metric_handlers)
qed (simp add: Gauge_Unmarshal_enc [OF assms])

lemma Metric_reads_Summary:
  assumes "Summary_unknown (smUnrecognized s)" "go_slice (enc_Summary s ks)"
  shows "reads Metric_fields Metric_unrecognized (enc_bytes_field 0x22 (enc_Summary s ks))
     (\<lambda>m. m\<lparr>meSummary := Some (Summary_merge s ks (case meSummary m of None \<Rightarrow> Summary_Reset | Some s \<Rightarrow> s))\<rparr>)"
proof (rule metric.reads_message)
  show "tag_is 0x22 4 2" by (simp add: tag_is_def)
  show "Metric_fields 4 = Some (message_field (\<lambda>s m.
      r_bind (Summary_Unmarshal s (case meSummary m of None \<Rightarrow> Summary_Reset | Some s \<Rightarrow> s))
        (\<lambda>s. Inr (m\<lparr>meSummary := Some s\<rparr>))))"
    by (simp add: Metric_fields_def Metric_handlers)
qed (simp add: Summary_Unmarshal_enc [OF assms])

lemma Metric_reads:
  assumes "Metric_unknown m" "go_slice (enc_Metric m r)"
  shows "reads Metric_fields Metric_unrecognized (enc_Metric m r) (Metric_merge m r)"
proof -
  obtain cs where cs: "list_all (unknown_chunk Metric_fields) cs" "meUnrecognized m = concat cs"
    using assms(1) by (auto simp: Metric_unknown_def)
  note unk = assms(1) [unfolded Metric_unknown_def] and sl = go_slice_nested [OF assms(2)]
  have ty: "reads Metric_fields Metric_unrecognized (enc_varint_field 0x08 (scast (meType m))) (\<lambda>m0. m0\<lparr>meType := meType m\<rparr>)"
    using metric.reads_varint [of "0x08" 1 "\<lambda>v m. m\<lparr>meType := v\<rparr>" "scast (meType m)"]
    by (simp add: tag_is_def Metric_fields_def Metric_handlers ucast_scast_i32)
  have co: "reads Metric_fields Metric_unrecognized (enc_bytes_field 0x12 (enc_Counter c (mrCounter r)))
      (\<lambda>m. m\<lparr>meCounter := Some (Counter_merge c (mrCounter r) (case meCounter m of None \<Rightarrow> Counter_Reset | Some c \<Rightarrow> c))\<rparr>)"
    if "meCounter m = Some c" for c
    using unk that by (intro Metric_reads_Counter sl(1) [OF that]) simp
  have ga: "reads Metric_fields Metric_unrecognized (enc_bytes_field 0x1a (enc_Gauge g (mrGauge r)))
      (\<lambda>m. m\<lparr>meGauge := Some (Gauge_merge g (mrGauge r) (case meGauge m of None \<Rightarrow> Gauge_Reset | Some g \<Rightarrow> g))\<rparr>)"
    if "meGauge m = Some g" for g
    using unk that by (intro Metric_reads_Gauge sl(2) [OF that]) simp
  have su: "reads Metric_fields Metric_unrecognized (enc_bytes_field 0x22 (enc_Summary s (mrSummary r)))
      (\<lambda>m. m\<lparr>meSummary := Some (Summary_merge s (mrSummary r) (case meSummary m of None \<Rightarrow> Summary_Reset | Some s \<Rightarrow> s))\<rparr>)"
    if "meSummary m = Some s" for s
    using unk that by (intro Metric_reads_Summary sl(3) [OF that]) simp
  have ho: "reads Metric_fields Metric_unrecognized (enc_bytes_field 0x2a (meHost m)) (\<lambda>m0. m0\<lparr>meHost := meHost m\<rparr>)"
    using metric.reads_bytes [of "0x2a" 5 "\<lambda>s m. m\<lparr>meHost := s\<rparr>" "meHost m"]
    by (simp add: tag_is_def Metric_fields_def Metric_handlers)
  have mi: "reads Metric_fields Metric_unrecognized (enc_varint_field 0x30 (meMicro m)) (\<lambda>m0. m0\<lparr>meMicro := meMicro m\<rparr>)"
    using metric.reads_varint [of "0x30" 6 "\<lambda>v m. m\<lparr>meMicro := v\<rparr>" "meMicro m"]
    by (simp add: tag_is_def Metric_fields_def Metric_handlers)
  have sv: "reads Metric_fields Metric_unrecognized (enc_bytes_field 0x3a (meSvrname m)) (\<lambda>m0. m0\<lparr>meSvrname := meSvrname m\<rparr>)"
    using metric.reads_bytes [of "0x3a" 7 "\<lambda>s m. m\<lparr>meSvrname := s\<rparr>" "meSvrname m"]
    by (simp add: tag_is_def Metric_fields_def Metric_handlers)
  have ex: "reads Metric_fields Metric_unrecognized (enc_map 0x42 (meExtra m) (mrExtra r))
      (\<lambda>m0. m0\<lparr>meExtra := fold (\<lambda>k h. h(k \<mapsto> map_get (meExtra m) k)) (rev (mrExtra r)) (meExtra m0)\<rparr>)"
    using metric.reads_map [of "0x42" 8 "\<lambda>k v m. m\<lparr>meExtra := (meExtra m)(k \<mapsto> v)\<rparr>" "meExtra m" "mrExtra r"]
    by (simp add: tag_is_def Metric_fields_def Metric_handlers fold_Metric_Extra)
  note if_ty = metric.reads_if [where c = "meType m \<noteq> 0", OF ty]
    and if_ho = metric.reads_if [where c = "0 < length (meHost m)", OF ho]
    and if_mi = metric.reads_if [where c = "meMicro m \<noteq> 0", OF mi]
    and if_sv = metric.reads_if [where c = "0 < length (meSvrname m)", OF sv]
    and if_ex = metric.reads_if [where c = "0 < length (mrExtra r)", OF ex]
    and op_co = metric.reads_option [where v = "meCounter m", OF co]
    and op_ga = metric.reads_option [where v = "meGauge m", OF ga]
    and op_su = metric.reads_option [where v = "meSummary m", OF su]
  note rd = metric.reads_append [OF if_ty metric.reads_append [OF op_co
      metric.reads_append [OF op_ga metric.reads_append [OF op_su
      metric.reads_append [OF if_ho metric.reads_append [OF if_mi
      metric.reads_append [OF if_sv metric.reads_append [OF if_ex
      metric.reads_unknowns [OF cs(1)]]]]]]]]]
  then show ?thesis
    unfolding enc_Metric_def Metric_merge_def [abs_def] Let_def cs(2) .
qed

text \<open>An update under a condition is an update of the field.\<close>

lemma Metric_if_update:
  "(if c then m\<lparr>meType := t\<rparr> else m) = m\<lparr>meType := if c then t else meType m\<rparr>"
  "(if c then m\<lparr>meHost := b\<rparr> else m) = m\<lparr>meHost := if c then b else meHost m\<rparr>"
  "(if c then m\<lparr>meMicro := i\<rparr> else m) = m\<lparr>meMicro := if c then i else meMicro m\<rparr>"
  "(if c then m\<lparr>meSvrname := b\<rparr> else m) = m\<lparr>meSvrname := if c then b else meSvrname m\<rparr>"
  "(if c then m\<lparr>meExtra := x\<rparr> else m) = m\<lparr>meExtra := if c then x else meExtra m\<rparr>"
  by simp_all

lemma Metric_option_update:
  "(case co of None \<Rightarrow> (\<lambda>m. m) | Some c \<Rightarrow> (\<lambda>m. m\<lparr>meCounter := fc c m\<rparr>)) m =
     m\<lparr>meCounter := (case co of None \<Rightarrow> meCounter m | Some c \<Rightarrow> fc c m)\<rparr>"
  "(case ga of None \<Rightarrow> (\<lambda>m. m) | Some g \<Rightarrow> (\<lambda>m. m\<lparr>meGauge := fg g m\<rparr>)) m =
     m\<lparr>meGauge := (case ga of None \<Rightarrow> meGauge m | Some g \<Rightarrow> fg g m)\<rparr>"
  "(case su of None \<Rightarrow> (\<lambda>m. m) | Some s \<Rightarrow> (\<lambda>m. m\<lparr>meSummary := fs s m\<rparr>)) m =
     m\<lparr>meSummary := (case su of None \<Rightarrow> meSummary m | Some s \<Rightarrow> fs s m)\<rparr>"
  by (simp_all split: option.splits)

lemma Metric_merge_Reset:
  assumes "Metric_range_order m r"
  shows "Metric_merge m r Metric_Reset = m"
proof -
  note order = assms [unfolded Metric_range_order_def]
  have co: "(case meCounter m of None \<Rightarrow> None | Some c \<Rightarrow> Some (Counter_merge c (mrCounter r) Counter_Reset)) = meCounter m"
    using order Counter_merge_Reset by (auto split: option.splits)
  have ga: "(case meGauge m of None \<Rightarrow> None | Some g \<Rightarrow> Some (Gauge_merge g (mrGauge r) Gauge_Reset)) = meGauge m"
    using order Gauge_merge_Reset by (auto split: option.splits)
  have su: "(case meSummary m of None \<Rightarrow> None | Some s \<Rightarrow> Some (Summary_merge s (mrSummary r) Summary_Reset)) = meSummary m"
    using order Summary_merge_Reset by (auto split: option.splits)
  have ex: "(if 0 < length (mrExtra r)
      then fold (\<lambda>k h. h(k \<mapsto> map_get (meExtra m) k)) (rev (mrExtra r)) Map.empty
      else Map.empty) = meExtra m"
    using fold_headers_back [of "meExtra m" "mrExtra r"] order by simp
  have bytes: "(if 0 < length b then b else []) = b" for b :: bytes by simp
  have num: "(if v \<noteq> 0 then v else 0) = v" for v :: "'a :: zero" by simp
  show ?thesis
    unfolding Metric_merge_def Metric_if_update Metric_option_update Metric_Reset_def
      Metric_unrecognized_def Let_def
    by (simp only: Metric.simps option.case co ga su ex bytes num append_Nil) simp
qed

lemma Metric_Unmarshal_enc:
  assumes "Metric_range_order m r" "Metric_unknown m" "go_slice (enc_Metric m r)"
  shows "Metric_Unmarshal (enc_Metric m r) Metric_Reset = Inr m"
  unfolding Metric_Unmarshal_def
  using metric.unmarshal_reads [OF Metric_reads [OF assms(2,3)] assms(3)] Metric_merge_Reset [OF assms(1)]
  by simp

section \<open>Reading a list of metrics back\<close>

definition Metrics_unknown :: "Metrics \<Rightarrow> bool" where
  "Metrics_unknown m \<longleftrightarrow>
     (\<exists>cs. list_all (unknown_chunk Metrics_fields) cs \<and> msUnrecognized m = concat cs) \<and>
     (\<forall>i < length (msLists m). pred_option Metric_unknown (msLists m ! i))"

text \<open>Reading the encoding of \<open>m\<close> into \<open>m0\<close> appends the metrics of \<open>m\<close> to those of \<open>m0\<close>.\<close>

definition Metrics_merge :: "Metrics \<Rightarrow> Metrics \<Rightarrow> Metrics" where
  "Metrics_merge m m0 =
     Metrics_unrecognized (msUnrecognized m) (m0\<lparr>msLists := msLists m0 @ msLists m\<rparr>)"

lemma fold_append_lists:
  "n \<le> length es \<Longrightarrow>
     fold (\<lambda>i m. m\<lparr>msLists := msLists m @ [es ! i]\<rparr>) [0..<n] m = m\<lparr>msLists := msLists m @ take n es\<rparr>"
  by (induction n) (simp_all add: take_Suc_conv_app_nth)

lemma Metrics_reads_element:
  assumes "Metric_range_order e r" "Metric_unknown e" "go_slice (enc_Metric e r)"
  shows "reads Metrics_fields Metrics_unrecognized (enc_bytes_field 0x0a (enc_Metric e r))
     (\<lambda>m. m\<lparr>msLists := msLists m @ [Some e]\<rparr>)"
proof (rule metrics.reads_message)
  show "tag_is 0x0a 1 2" by (simp add: tag_is_def)
  show "Metrics_fields 1 = Some (message_field (\<lambda>s m.
      r_bind (Metric_Unmarshal s Metric_Reset) (\<lambda>e. Inr (m\<lparr>msLists := msLists m @ [Some e]\<rparr>))))"
    by (simp add: Metrics_fields_def Metrics_unmarshal_Lists_def)
qed (simp add: Metric_Unmarshal_enc [OF assms])

lemma go_slice_element:
  assumes "go_slice (enc_Metrics m rs)" "i < length (msLists m)"
  shows "go_slice (enc_Metric (the (msLists m ! i)) (rs i))"
proof -
  let ?f = "\<lambda>i. enc_bytes_field 0x0a (enc_Metric (the (msLists m ! i)) (rs i))"
  have "length (?f i) \<le> length (concat (map ?f [0..<length (msLists m)]))"
    using assms(2) by (auto simp: length_concat intro!: member_le_sum_list)
  then show ?thesis
    using assms(1) by (simp add: go_slice_def enc_Metrics_def size_bytes_field_def)
qed

lemma Metrics_reads:
  assumes "Metrics_full m" "Metrics_range_order m rs" "Metrics_unknown m" "go_slice (enc_Metrics m rs)"
  shows "reads Metrics_fields Metrics_unrecognized (enc_Metrics m rs) (Metrics_merge m)"
proof -
  obtain cs where cs: "list_all (unknown_chunk Metrics_fields) cs" "msUnrecognized m = concat cs"
    using assms(3) by (auto simp: Metrics_unknown_def)
  have el: "reads Metrics_fields Metrics_unrecognized
      (enc_bytes_field 0x0a (enc_Metric (the (msLists m ! i)) (rs i)))
      (\<lambda>m'. m'\<lparr>msLists := msLists m' @ [msLists m ! i]\<rparr>)" if "i \<in> set [0..<length (msLists m)]" for i
  proof -
    from that have i: "i < length (msLists m)" by simp
    with assms(1) obtain e where e: "msLists m ! i = Some e" by (auto simp: Metrics_full_def)
    have "Metric_range_order e (rs i)" "Metric_unknown e"
      using assms(2,3) i e by (auto simp: Metrics_range_order_def Metrics_unknown_def)
    moreover have "go_slice (enc_Metric e (rs i))"
      using go_slice_element [OF assms(4) i] e by simp
    ultimately show ?thesis using Metrics_reads_element e by simp
  qed
  have all: "reads Metrics_fields Metrics_unrecognized
      (concat (map (\<lambda>i. enc_bytes_field 0x0a (enc_Metric (the (msLists m ! i)) (rs i))) [0..<length (msLists m)]))
      (fold (\<lambda>i m'. m'\<lparr>msLists := msLists m' @ [msLists m ! i]\<rparr>) [0..<length (msLists m)])"
    by (rule metrics.reads_concat) (rule el)
  from metrics.reads_append [OF all metrics.reads_unknowns [OF cs(1)]]
  show ?thesis
    by (simp add: enc_Metrics_def Metrics_merge_def [abs_def] cs(2) fold_append_lists)
qed

lemma Metrics_merge_Reset: "Metrics_merge m Metrics_Reset = m"
  by (cases m) (simp add: Metrics_merge_def Metrics_unrecognized_def Metrics_Reset_def)

lemma Metrics_Unmarshal_enc:
  assumes "Metrics_full m" "Metrics_range_order m rs" "Metrics_unknown m" "go_slice (enc_Metrics m rs)"
  shows "Metrics_Unmarshal (enc_Metrics m rs) m0 = Inr (Metrics_merge m m0)"
  unfolding Metrics_Unmarshal_def by (rule metrics.unmarshal_reads [OF Metrics_reads [OF assms] assms(4)])

end
