(* ===== verification/Codec_Properties.thy ===== *)
theory Codec_Properties
  imports Packet_Metric
begin

text \<open>
  What the generated codec of \<open>proto/packet.pb.go\<close> promises, message by message: \<open>Marshal\<close> fills
  exactly the buffer \<open>Size\<close> asks for, \<open>Unmarshal\<close> returns what was marshalled, ends on every input,
  and merges concatenated encodings; the varint routines agree with each other. The last property is a panic
  of the map-entry loop that a peer can provoke.
\<close>

section \<open>Round trips\<close>

text \<open>C11. For every request, in whatever orders \<open>Size\<close> and \<open>MarshalToSizedBuffer\<close> range over its headers,
  \<open>Marshal\<close> returns a byte string of exactly \<open>Size\<close> bytes (it never indexes outside its buffer), and
  \<open>Unmarshal\<close> of that string into a fresh message gives the request back, header map, payload and
  unknown fields included.\<close>
theorem Request_roundtrip:
  assumes "range_order (rqHeaders m) ks" "range_order (rqHeaders m) ks'"
    and "Request_unknown (rqUnrecognized m)" "Request_Size (Some m) ks' < 2 ^ 63"
  shows "\<exists>bs. Request_Marshal m ks ks' = Some bs \<and> length bs = Request_Size (Some m) ks \<and>
           Request_Unmarshal bs Request_Reset = Inr m"
  using Request_Marshal_enc [OF assms(1,2)] Request_Unmarshal_enc [OF assms(2,3)] assms(4)
    Request_Size_order [OF assms(1,2)]
  by (simp add: go_slice_def length_enc_Request)

definition demo_Request :: Request where
  "demo_Request =
     \<lparr>rqSid = 300, rqRpcId = 7, rqHeaders = [[1] \<mapsto> [2, 3]], rqPacket = [9, 8], rqUnrecognized = [0x28, 1]\<rparr>"

lemma demo_unknown: "Request_unknown [0x28, 1]" "Response_unknown [0x28, 1]"
proof -
  have "unknown_chunk Request_fields [0x28, 1]" "unknown_chunk Response_fields [0x28, 1]" by code_simp+
  then have "list_all (unknown_chunk Request_fields) [[0x28, 1]] \<and> [0x28, 1] = concat [[0x28, 1 :: byte]]"
    "list_all (unknown_chunk Response_fields) [[0x28, 1]] \<and> [0x28, 1] = concat [[0x28, 1 :: byte]]"
    by simp_all
  then show "Request_unknown [0x28, 1]" "Response_unknown [0x28, 1]"
    unfolding Request_unknown_def Response_unknown_def by blast+
qed

lemma demo_order: "range_order [[1] \<mapsto> [2, 3]] [[1 :: byte]]"
  by (simp add: range_order_def)

lemma demo_Request_size: "Request_Size (Some demo_Request) [[1]] = 20"
  by code_simp

theorem Request_roundtrip_witness:
  "\<exists>bs. Request_Marshal demo_Request [[1]] [[1]] = Some bs \<and>
     length bs = Request_Size (Some demo_Request) [[1]] \<and>
     Request_Unmarshal bs Request_Reset = Inr demo_Request"
  using Request_roundtrip [of demo_Request "[[1]]" "[[1]]"] demo_Request_size demo_order demo_unknown
  by (simp add: demo_Request_def)

text \<open>C12. The same of every response; its 32-bit code, negative values included, survives the
  sign extension to a 64-bit varint.\<close>
theorem Response_roundtrip:
  assumes "range_order (rsHeaders m) ks" "range_order (rsHeaders m) ks'"
    and "Response_unknown (rsUnrecognized m)" "Response_Size (Some m) ks' < 2 ^ 63"
  shows "\<exists>bs. Response_Marshal m ks ks' = Some bs \<and> length bs = Response_Size (Some m) ks \<and>
           Response_Unmarshal bs Response_Reset = Inr m"
  using Response_Marshal_enc [OF assms(1,2)] Response_Unmarshal_enc [OF assms(2,3)] assms(4)
    Response_Size_order [OF assms(1,2)]
  by (simp add: go_slice_def length_enc_Response)

definition demo_Response :: Response where
  "demo_Response =
     \<lparr>rsSid = 300, rsHeaders = [[1] \<mapsto> [2, 3]], rsCode = 505, rsPacket = [9, 8], rsUnrecognized = [0x28, 1]\<rparr>"

lemma demo_Response_size: "Response_Size (Some demo_Response) [[1]] = 21"
  by code_simp

theorem Response_roundtrip_witness:
  "\<exists>bs. Response_Marshal demo_Response [[1]] [[1]] = Some bs \<and>
     length bs = Response_Size (Some demo_Response) [[1]] \<and>
     Response_Unmarshal bs Response_Reset = Inr demo_Response"
  using Response_roundtrip [of demo_Response "[[1]]" "[[1]]"] demo_Response_size demo_order demo_unknown
  by (simp add: demo_Response_def)

text \<open>C13. A list of metrics without nil pointers is marshalled into exactly \<open>Size\<close> bytes, and reading
  those bytes into a list appends the metrics, their nested counters, gauges and summaries included, to
  those already there.\<close>
theorem Metrics_roundtrip:
  assumes "Metrics_full m" "Metrics_range_order m rs" "Metrics_range_order m rs'" "Metrics_unknown m"
    and "Metrics_Size (Some m) rs' < 2 ^ 63"
  shows "\<exists>bs. Metrics_Marshal m rs rs' = Some bs \<and> length bs = Metrics_Size (Some m) rs \<and>
           Metrics_Unmarshal bs m0 = Inr (Metrics_merge m m0)"
  using Metrics_Marshal_enc [OF assms(1-3)] Metrics_Unmarshal_enc [OF assms(1,3,4)] assms(5)
    Metrics_Size_order [OF assms(2,3)]
  by (simp add: go_slice_def length_enc_Metrics [OF assms(1)])

definition demo_Metric :: Metric where
  "demo_Metric =
     \<lparr>meType = MetricType_CounterType,
      meCounter = Some \<lparr>ctMethod = [1], ctCode = [2], ctExtra = [[3] \<mapsto> [4]], ctUnrecognized = []\<rparr>,
      meGauge = None, meSummary = None, meHost = [5], meMicro = 300, meSvrname = [6],
      meExtra = [[7] \<mapsto> [8, 9]], meUnrecognized = []\<rparr>"

definition demo_Metrics :: Metrics where
  "demo_Metrics = \<lparr>msLists = [Some demo_Metric], msUnrecognized = []\<rparr>"

definition demo_ranges :: "nat \<Rightarrow> Metric_ranges" where
  "demo_ranges i = \<lparr>mrCounter = [[3]], mrGauge = [], mrSummary = [], mrExtra = [[7]]\<rparr>"

lemma demo_Metrics_size: "Metrics_Size (Some demo_Metrics) demo_ranges = 36"
  by code_simp

theorem Metrics_roundtrip_witness:
  "\<exists>bs. Metrics_Marshal demo_Metrics demo_ranges demo_ranges = Some bs \<and>
     length bs = Metrics_Size (Some demo_Metrics) demo_ranges \<and>
     Metrics_Unmarshal bs Metrics_Reset = Inr (Metrics_merge demo_Metrics Metrics_Reset)"
proof (rule Metrics_roundtrip)
  show "Metrics_full demo_Metrics" by (simp add: Metrics_full_def demo_Metrics_def)
  show order: "Metrics_range_order demo_Metrics demo_ranges"
    by (simp add: Metrics_range_order_def Metric_range_order_def range_order_def demo_Metrics_def
        demo_Metric_def demo_ranges_def)
  show "Metrics_range_order demo_Metrics demo_ranges" by (rule order)
  show "Metrics_unknown demo_Metrics"
    unfolding Metrics_unknown_def Metric_unknown_def
    by (auto simp: demo_Metrics_def demo_Metric_def intro: exI [of _ "[]"])
qed (simp add: demo_Metrics_size)

section \<open>Reading any input\<close>

text \<open>C18. \<open>Unmarshal\<close> of each of the framework's seven messages, and \<open>skipPacket\<close>, ends on every byte string a Go slice can hold, well-formed or
  not: the loops make progress, and the fuel of the model (the length of the input) is never used up.\<close>
theorem Unmarshal_terminates:
  assumes "go_slice d"
  shows "Request_Unmarshal d rq \<noteq> Inl OutOfFuel \<and> Response_Unmarshal d rs \<noteq> Inl OutOfFuel \<and>
    Metric_Unmarshal d me \<noteq> Inl OutOfFuel \<and> Metrics_Unmarshal d ms \<noteq> Inl OutOfFuel \<and>
    Counter_Unmarshal d ct \<noteq> Inl OutOfFuel \<and> Gauge_Unmarshal d ga \<noteq> Inl OutOfFuel \<and>
    Summary_Unmarshal d sm \<noteq> Inl OutOfFuel \<and> skipPacket d \<noteq> Inl OutOfFuel"
  using request.unmarshal_total [OF assms] response.unmarshal_total [OF assms]
    Metric_Unmarshal_total [OF assms] Metrics_Unmarshal_total [OF assms] nested_total [OF assms]
    skipPacket_total [OF assms]
  by (simp_all add: Request_Unmarshal_def Response_Unmarshal_def)

theorem Unmarshal_terminates_witness:
  "Request_Unmarshal [0x1a, 0x0a, 0x1a] Request_Reset \<noteq> Inl OutOfFuel"
  using Unmarshal_terminates [of "[0x1a, 0x0a, 0x1a]"] by (simp add: go_slice_def)

text \<open>Two requests whose encodings are concatenated are read as one: the fields the second one sets
  override, its headers are added to the first one's (the later entry of a key wins), and its unknown bytes are
  appended. This is the merge rule of the protobuf wire format.\<close>
theorem Request_concatenation_merges:
  assumes "range_order (rqHeaders m) ks" "Request_unknown (rqUnrecognized m)"
    and "Request_unknown (rqUnrecognized m')" "go_slice (enc_Request m ks @ enc_Request m' ks')"
  shows "Request_Unmarshal (enc_Request m ks @ enc_Request m' ks') Request_Reset =
           Inr (Request_merge m' ks' m)"
proof -
  have "go_slice (enc_Request m' ks')" using assms(4) by (simp add: go_slice_def)
  then show ?thesis
    using request.unmarshal_merge [OF Request_reads [OF assms(2)] Request_reads [OF assms(3)] assms(4)]
      request.unmarshal_reads [OF Request_reads [OF assms(3)]] Request_merge_Reset [OF assms(1)]
    by (simp add: Request_Unmarshal_def)
qed

theorem Request_concatenation_merges_witness:
  "Request_Unmarshal (enc_Request demo_Request [[1]] @ enc_Request demo_Request [[1]]) Request_Reset =
     Inr (Request_merge demo_Request [[1]] demo_Request)"
  using Request_concatenation_merges [of demo_Request "[[1]]" demo_Request "[[1]]"]
    demo_Request_size demo_order demo_unknown
  by (simp add: go_slice_def length_enc_Request) (simp add: demo_Request_def)

text \<open>\<open>MarshalTo\<close> writes the encoding at the front of the caller's buffer, leaves the rest of the
  buffer alone and reports \<open>Size\<close> bytes; it panics exactly when the buffer is shorter than that.\<close>
theorem Request_MarshalTo_frame:
  assumes "range_order (rqHeaders m) ks" "range_order (rqHeaders m) ks'"
  shows "Request_MarshalTo m ks ks' buf =
     (if Request_Size (Some m) ks \<le> length buf
      then Some (enc_Request m ks' @ drop (Request_Size (Some m) ks) buf, int (Request_Size (Some m) ks))
      else None)"
proof (cases "Request_Size (Some m) ks \<le> length buf")
  case True
  with Request_Size_order [OF assms] marshal_to_with_fills [OF fills_Request, of m ks' buf] show ?thesis
    by (simp add: Request_MarshalTo_def length_enc_Request)
qed (simp add: Request_MarshalTo_def marshal_to_with_def)

theorem Request_MarshalTo_frame_witness:
  "Request_MarshalTo demo_Request [[1]] [[1]] [0, 0] = None"
  using Request_MarshalTo_frame [of demo_Request "[[1]]" "[[1]]" "[0, 0]"] demo_Request_size demo_order
  by (simp add: demo_Request_def)

section \<open>Varints\<close>

text \<open>C23. Writing a varint backwards with \<open>encodeVarintPacket\<close>, ending at an offset with enough room, changes
  only the bytes in front of the offset, returns where the varint starts, and the reading loop of
  \<open>Unmarshal\<close> returns the value (truncated to the width of the field it is read into) and the old offset. The varint has
  \<open>sovPacket\<close> bytes, between 1 and 10.\<close>
theorem varint_roundtrip:
  fixes v :: u64
  assumes "length mid = sovPacket v"
  shows "encodeVarintPacket (pre @ mid @ post) (int (length pre + length mid)) v =
           Some (pre @ uvarint v @ post, int (length pre)) \<and>
         read_varint (pre @ uvarint v @ post) (int (length pre)) =
           Inr (ucast v :: 'a::len word, int (length pre + length mid)) \<and>
         1 \<le> length mid \<and> length mid \<le> 10"
  using encodeVarintPacket_emits [of v "pre @ mid" post] assms sovPacket_bounds [of v]
    read_varint_uvarint [of "pre @ uvarint v @ post" "int (length pre)" v, where 'a = 'a]
  by (simp_all add: length_uvarint occurs_at_def)

theorem varint_roundtrip_witness:
  "encodeVarintPacket [1, 0, 0, 2] 3 300 = Some ([1] @ uvarint 300 @ [2], 1)"
proof -
  have "length [0, 0 :: byte] = sovPacket 300" by code_simp
  from varint_roundtrip [OF this, of "[1]" "[2]", where 'a = 64] show ?thesis by simp
qed

section \<open>Panics\<close>

text \<open>A list that holds a nil metric cannot be marshalled: the pointer is dereferenced and the code
  panics (\<open>Size\<close> counts the nil metric as empty).\<close>
theorem Metrics_nil_panics:
  assumes "i < length (msLists m)" "msLists m ! i = None"
  shows "Metrics_Marshal m rs rs' = None"
proof -
  have put: "Metrics_put_lists es rs n w = None" if "i < n" "es ! i = None" for es rs n w
    using that
  proof (induction n arbitrary: w)
    case (Suc n)
    then show ?case
      by (cases "i = n") (auto simp: put_message_field_def Metric_MarshalToSizedBuffer_def
          Let_def case_prod_unfold Option.bind_eq_None_conv)
  qed simp
  have "Metrics_put m rs' w = None" for w
    using put [OF assms] by (cases "wr_if (msUnrecognized m \<noteq> []) (put_bytes (msUnrecognized m)) w")
      (simp_all add: Metrics_put_def)
  then show ?thesis
    by (simp add: Metrics_Marshal_def marshal_with_def Metrics_MarshalToSizedBuffer_def Let_def)
qed

theorem Metrics_nil_panics_witness:
  "Metrics_Marshal \<lparr>msLists = [None], msUnrecognized = []\<rparr> demo_ranges demo_ranges = None"
  by (rule Metrics_nil_panics [of 0]) simp_all

definition fails_with :: "perr \<Rightarrow> perr + 'm \<Rightarrow> bool" where
  "fails_with e r = (case r of Inl e' \<Rightarrow> e' = e | Inr _ \<Rightarrow> False)"

text \<open>C28. Twelve bytes make \<open>Unmarshal\<close> of a request panic: a header entry holds an unknown field whose
  length makes the index wrap to a negative value, the entry loop only compares it with the end of the entry, and the
  next iteration indexes the buffer with it. The outer loop, given the same field, returns \<open>ErrInvalidLengthPacket\<close>.\<close>
theorem Request_Unmarshal_can_panic:
  "Request_Unmarshal [0x1a, 0x0a, 0x1a, 0xf5, 0xff, 0xff, 0xff, 0xff, 0xff, 0xff, 0xff, 0x7f]
     Request_Reset = Inl GoPanic \<and>
   Request_Unmarshal [0x08, 0x01, 0x2a, 0xf5, 0xff, 0xff, 0xff, 0xff, 0xff, 0xff, 0xff, 0x7f]
     Request_Reset = Inl ErrInvalidLengthPacket"
proof -
  have "fails_with GoPanic (Request_Unmarshal [0x1a, 0x0a, 0x1a, 0xf5, 0xff, 0xff, 0xff, 0xff, 0xff, 0xff, 0xff, 0x7f]
      Request_Reset)" by code_simp
  moreover have "fails_with ErrInvalidLengthPacket (Request_Unmarshal [0x08, 0x01, 0x2a, 0xf5, 0xff, 0xff, 0xff, 0xff, 0xff, 0xff, 0xff, 0x7f]
      Request_Reset)" by code_simp
  ultimately show ?thesis by (auto simp: fails_with_def split: sum.splits)
qed

end
