(* ===== verification/Wire_Types.thy ===== *)
theory Wire_Types
  imports Codec_Properties
begin

text \<open>
  What \<open>Unmarshal\<close> returns is well formed: its map fields are finite, and its unknown bytes are a sequence of whole unknown fields. A predicate
  on messages that every handler of a switch keeps, and that the unknown fields keep, holds of the result; the rest is that a skipped field, cut
  out of its buffer, is skipped to its exact end.
\<close>

section \<open>A skipped field on its own\<close>

lemma dec_varint_take:
  "dec_varint c i s v = Inr (w, j) \<Longrightarrow> j \<le> int n \<Longrightarrow> dec_varint (take n c) i s v = Inr (w, j)"
proof (induction c i s v rule: dec_varint.induct)
  case (1 c i s v)
  note run = "1.prems"(1) [unfolded dec_varint.simps [of c i s v]]
  from run have i: "s < 64" "0 \<le> i" "i < int (length c)" by (auto split: if_splits)
  have j: "i < j" using dec_varint_progress [OF "1.prems"(1)] by simp
  then have nth: "take n c ! nat i = c ! nat i" "i < int (length (take n c))"
    using "1.prems"(2) i by auto
  show ?case
    using i run nth "1.IH" "1.prems"(2)
    by (subst dec_varint.simps) (auto simp: Let_def split: if_splits)
qed

lemma read_varint_take: "read_varint c i = Inr (w, j) \<Longrightarrow> j \<le> int n \<Longrightarrow> read_varint (take n c) i = Inr (w, j)"
  unfolding read_varint_def by (rule dec_varint_take)

lemma go_add_forward: "go_slice c \<Longrightarrow> 0 \<le> k \<Longrightarrow> k \<le> int (length c) \<Longrightarrow> 0 \<le> m \<Longrightarrow> m < 2 ^ 63 \<Longrightarrow> 0 \<le> go_add k m \<Longrightarrow> k \<le> go_add k m"
  using go_add_progress [of k m] by (simp add: go_slice_def)

text \<open>The tag is read first.\<close>

lemma skip_one_tag:
  assumes "skip_one c i dep = Inr (k, dep')" "read_varint c i = Inr (wire :: u64, k1)" "go_slice c" "0 \<le> k"
  shows "k1 \<le> k"
  using assms(1)
proof (cases rule: skip_one_reads)
  case (tag wire')
  with assms(2) show ?thesis by simp
next
  case (varint wire' j w)
  with assms(2) read_varint_progress [OF varint(2)] show ?thesis by simp
next
  case (fixed wire' j n)
  with assms read_varint_progress [OF fixed(1)] go_add_forward [of c j n] show ?thesis by simp
next
  case (bytes wire' j w j' n)
  with assms read_varint_progress [OF bytes(2)] go_add_forward [of c j' n] show ?thesis by simp
qed

lemma skip_one_take:
  assumes "skip_one c i dep = Inr (k, dep')" "go_slice c" "0 \<le> k" "k \<le> int n"
  shows "skip_one (take n c) i dep = Inr (k, dep')"
proof -
  obtain wire :: u64 and k1 where k1: "read_varint c i = Inr (wire, k1)"
    using assms(1) by (auto simp: skip_one_def r_iffs)
  note b1 = read_varint_progress [OF k1]
  have fwd2: "j \<le> go_add j (go_int w)" "k1 < j"
    if "read_varint c k1 = Inr (w :: u64, j)" "0 \<le> go_add j (go_int w)" "0 \<le> go_int w" for w j
    using go_add_forward [of c j "go_int w"] assms(2) read_varint_progress [OF that(1)] that(2,3) go_int_bounds [of w] by auto
  have le: "k1 \<le> k" using skip_one_tag [OF assms(1) k1 assms(2,3)] .
  have t1: "read_varint (take n c) i = Inr (wire, k1)" using read_varint_take [OF k1] le assms(4) by simp
  show ?thesis
  proof (cases "read_varint c k1 :: perr + (u64 \<times> int)")
    case (Inl e)
    with assms(1) show ?thesis by (auto simp: skip_one_def k1 t1 Let_def split: if_splits)
  next
    case (Inr r)
    obtain w j where r: "r = (w, j)" by (cases r)
    have "uint (wire AND 7) \<in> {0, 2} \<Longrightarrow> j \<le> int n"
      using assms(1,3,4) Inr r fwd2 [of w j] by (auto simp: skip_one_def k1 r_iffs Let_def split: if_splits)
    then have "uint (wire AND 7) \<in> {0, 2} \<Longrightarrow> read_varint (take n c) k1 = Inr (w, j)"
      using read_varint_take [of c k1 w j n] Inr r by simp
    with assms(1) Inr r show ?thesis by (auto simp: skip_one_def k1 t1 Let_def split: if_splits)
  qed
qed

lemma skip_loop_take:
  "skip_loop f c i dep = Inr j \<Longrightarrow> go_slice c \<Longrightarrow> j \<le> int n \<Longrightarrow> n \<le> length c \<Longrightarrow> nat (int n - i) \<le> f' \<Longrightarrow>
     skip_loop f' (take n c) i dep = Inr j"
proof (induction f arbitrary: i dep f')
  case (Suc f)
  from Suc.prems(1) obtain k dep' where k: "skip_one c i dep = Inr (k, dep')" "0 \<le> k"
      and rest: "(if dep' = 0 then Inr k else skip_loop f c k dep') = Inr j"
    by (auto simp: r_iffs split: if_splits)
  have "k \<le> j" using rest skip_loop_progress [of f c k dep' j] Suc.prems(2) by (auto split: if_splits)
  moreover have "0 \<le> i" "i < k" using skip_one_progress [OF k(1) Suc.prems(2) k(2)] by simp_all
  ultimately obtain f'' where f': "f' = Suc f''" "nat (int n - k) \<le> f''" "i < int n"
    using Suc.prems(3,5) by (cases f') auto
  have "skip_one (take n c) i dep = Inr (k, dep')"
    using skip_one_take [OF k(1) Suc.prems(2) k(2)] \<open>k \<le> j\<close> Suc.prems(3) by simp
  with rest k(2) f' Suc.IH [of k dep' f''] Suc.prems(2-4) show ?case by (auto split: if_splits)
qed (simp split: if_splits)

lemma skipPacket_take:
  assumes "skipPacket c = Inr j" "go_slice c" "j \<le> int (length c)"
  shows "skipPacket (take (nat j) c) = Inr (int (length (take (nat j) c)))"
proof -
  have j: "0 < j" using skipPacket_pos [OF assms(1,2)] .
  then have "nat j \<le> length c" "length (take (nat j) c) = nat j" using assms(3) by simp_all
  with j assms skip_loop_take [of "length c" c 0 0 j "nat j" "nat j"] show ?thesis
    by (simp add: skipPacket_def)
qed

text \<open>A read from an index is a read from the buffer's rest.\<close>

lemma dec_varint_drop:
  "dec_varint d i s v = Inr (w, k) \<Longrightarrow> 0 \<le> p \<Longrightarrow> p \<le> i \<Longrightarrow> dec_varint (drop (nat p) d) (i - p) s v = Inr (w, k - p)"
proof (induction d i s v rule: dec_varint.induct)
  case (1 d i s v)
  note run = "1.prems"(1) [unfolded dec_varint.simps [of d i s v]]
  from run have i: "s < 64" "0 \<le> i" "i < int (length d)" by (auto split: if_splits)
  have nth: "drop (nat p) d ! nat (i - p) = d ! nat i" "i - p < int (length (drop (nat p) d))"
    using i "1.prems"(2,3) by (auto simp: nat_diff_distrib)
  have IH: "dec_varint (drop (nat p) d) (i - p + 1) (s + 7) (v OR push_bit s (ucast (d ! nat i AND 0x7F))) = Inr (w, k - p)"
    if "\<not> d ! nat i < 0x80"
    using "1.IH" that i run "1.prems"(2,3) by (simp add: Let_def algebra_simps)
  show ?case
    using i run nth IH "1.prems"(3)
    by (subst dec_varint.simps) (auto simp: Let_def split: if_splits)
qed

lemma read_varint_drop: "read_varint d i = Inr (w, k) \<Longrightarrow> read_varint (drop (nat i) d) 0 = Inr (w, k - i)"
  using dec_varint_drop [of d i 0 0 w k i] read_varint_progress [of d i w k] by (simp add: read_varint_def)

lemma skipPacket_first:
  assumes "skipPacket c = Inr n" "go_slice c"
  obtains k dep where "skip_one c 0 0 = Inr (k, dep)" "0 \<le> k" "k \<le> n"
proof (cases "length c")
  case 0
  with assms(1) show thesis by (simp add: skipPacket_def)
next
  case (Suc f)
  with assms(1) obtain k dep where k: "skip_one c 0 0 = Inr (k, dep)" "0 \<le> k"
    "(if dep = 0 then Inr k else skip_loop f c k dep) = Inr n"
    by (auto simp: skipPacket_def r_iffs split: if_splits)
  with skip_loop_progress [of f c k dep n] assms(2) that show thesis by (fastforce split: if_splits)
qed

section \<open>Handlers that keep a predicate\<close>

definition keeps :: "('m \<Rightarrow> bool) \<Rightarrow> 'm handler \<Rightarrow> bool" where
  "keeps P h \<longleftrightarrow> (\<forall>wt d i m m' j. h wt d i m = Inr (m', j) \<longrightarrow> P m \<longrightarrow> P m')"

named_theorems keeps_rules "the field handlers keep what their update keeps"

lemma keeps_varint_field [keeps_rules]: "(\<And>v m. P m \<Longrightarrow> P (upd v m)) \<Longrightarrow> keeps P (varint_field upd)"
  by (auto simp: keeps_def varint_field_def r_iffs)

lemma keeps_bytes_field [keeps_rules]: "(\<And>v m. P m \<Longrightarrow> P (upd v m)) \<Longrightarrow> keeps P (bytes_field upd)"
  by (auto simp: keeps_def bytes_field_def r_iffs)

lemma keeps_map_field [keeps_rules]: "(\<And>k v m. P m \<Longrightarrow> P (upd k v m)) \<Longrightarrow> keeps P (map_field upd)"
  by (auto simp: keeps_def map_field_def r_iffs)

context wire_message
begin

text \<open>What the default case keeps is a whole unknown field.\<close>

lemma unknown_field_chunk:
  assumes "unknown_field addunk d i m = Inr (m', j)" "go_slice d" "read_varint d i = Inr (wire :: u64, k)"
    and "0 < sint (ucast (drop_bit 3 wire) :: i32)" "fields (sint (ucast (drop_bit 3 wire) :: i32)) = None" "uint (wire AND 7) \<noteq> 4"
  obtains c where "unknown_chunk fields c" "m' = addunk c m"
proof -
  note b = read_varint_progress [OF assms(3)]
  from assms(1) obtain n where n: "skipPacket (drop (nat i) d) = Inr n" "0 \<le> go_add i n" "go_add i n \<le> int (length d)"
    "m' = addunk (go_sub d i (go_add i n)) m"
    by (auto simp: unknown_field_def r_iffs)
  have slice: "go_slice (drop (nat i) d)" using assms(2) by (rule go_slice_drop)
  have add: "go_add i n = i + n" "0 < n"
    using skip_advances [OF n(1) assms(2) _ _ n(2)] b by auto
  let ?c = "take (nat n) (drop (nat i) d)"
  have c: "go_sub d i (go_add i n) = ?c" using b add by (simp add: go_sub_def nat_add_distrib take_drop add.commute)
  have len: "n \<le> int (length (drop (nat i) d))" using n(3) add b by simp
  have skip: "skipPacket ?c = Inr (int (length ?c))" using skipPacket_take [OF n(1) slice len] .
  have rd: "read_varint (drop (nat i) d) 0 = Inr (wire, k - i)" using read_varint_drop [OF assms(3)] .
  obtain k' dep' where "skip_one (drop (nat i) d) 0 0 = Inr (k', dep')" "0 \<le> k'" "k' \<le> n"
    using skipPacket_first [OF n(1) slice] .
  then have "k - i \<le> n" using skip_one_tag [OF _ rd slice] by fastforce
  then have "read_varint ?c 0 = Inr (wire, k - i)" using read_varint_take [OF rd] add(2) by simp
  then have "unknown_chunk fields ?c"
    using assms(4-6) skip by (simp add: unknown_chunk_def Let_def)
  with n(4) c that show thesis by simp
qed

lemma loop_keeps:
  assumes "\<And>n h. fields n = Some h \<Longrightarrow> keeps P h" "\<And>c m. unknown_chunk fields c \<Longrightarrow> P m \<Longrightarrow> P (addunk c m)"
  shows "unmarshal_loop f fields addunk d i m = Inr m' \<Longrightarrow> go_slice d \<Longrightarrow> P m \<Longrightarrow> P m'"
proof (induction f arbitrary: i m)
  case (Suc f)
  show ?case
  proof (cases "i < int (length d)")
    case True
    with Suc.prems(1) obtain m1 j where m1: "unmarshal_step fields addunk d i m = Inr (m1, j)"
      "unmarshal_loop f fields addunk d j m1 = Inr m'" by (auto simp: r_iffs)
    from m1(1) obtain wire :: u64 and k where rd: "read_varint d i = Inr (wire, k)"
      by (auto simp: unmarshal_step_def r_iffs)
    have "P m1"
    proof (cases "fields (sint (ucast (drop_bit 3 wire) :: i32))")
      case None
      with m1(1) rd have u: "unknown_field addunk d i m = Inr (m1, j)" "0 < sint (ucast (drop_bit 3 wire) :: i32)"
        "uint (wire AND 7) \<noteq> 4" by (auto simp: unmarshal_step_def r_iffs Let_def)
      from unknown_field_chunk [OF u(1) Suc.prems(2) rd u(2) None u(3)] assms(2) Suc.prems(3) show ?thesis by metis
    next
      case (Some h)
      with m1(1) rd have "h (uint (wire AND 7)) d k m = Inr (m1, j)"
        by (auto simp: unmarshal_step_def r_iffs Let_def)
      with assms(1) [OF Some] Suc.prems(3) show ?thesis unfolding keeps_def by blast
    qed
    with Suc.IH [OF m1(2) Suc.prems(2)] show ?thesis by blast
  qed (use Suc.prems in \<open>simp add: r_iffs\<close>)
qed (simp add: r_iffs split: if_splits)

lemma unmarshal_keeps:
  assumes "\<And>n h. fields n = Some h \<Longrightarrow> keeps P h" "\<And>c m. unknown_chunk fields c \<Longrightarrow> P m \<Longrightarrow> P (addunk c m)"
    and "unmarshal_with fields addunk d m = Inr m'" "go_slice d" "P m"
  shows "P m'"
  by (rule loop_keeps [of P, OF assms(1,2) assms(3) [unfolded unmarshal_with_def] assms(4,5)])

end

section \<open>Requests and responses\<close>

definition Request_wf :: "Request \<Rightarrow> bool" where
  "Request_wf m \<longleftrightarrow> finite (dom (rqHeaders m)) \<and> Request_unknown (rqUnrecognized m)"

definition Response_wf :: "Response \<Rightarrow> bool" where
  "Response_wf m \<longleftrightarrow> finite (dom (rsHeaders m)) \<and> Response_unknown (rsUnrecognized m)"

lemma unknown_snoc:
  "Request_unknown u \<Longrightarrow> unknown_chunk Request_fields c \<Longrightarrow> Request_unknown (u @ c)"
  "Response_unknown u \<Longrightarrow> unknown_chunk Response_fields c \<Longrightarrow> Response_unknown (u @ c)"
proof -
  have "\<exists>cs'. list_all (unknown_chunk f) cs' \<and> concat cs @ c = concat cs'"
    if "list_all (unknown_chunk f) cs" "unknown_chunk f c" for f :: "int \<Rightarrow> 'm handler option" and cs
    using that by (intro exI [of _ "cs @ [c]"]) simp
  then show "Request_unknown u \<Longrightarrow> unknown_chunk Request_fields c \<Longrightarrow> Request_unknown (u @ c)"
    "Response_unknown u \<Longrightarrow> unknown_chunk Response_fields c \<Longrightarrow> Response_unknown (u @ c)"
    unfolding Request_unknown_def Response_unknown_def by blast+
qed

lemma Request_keeps: "Request_fields n = Some h \<Longrightarrow> keeps Request_wf h"
  by (auto simp: Request_fields_def Request_handlers Request_wf_def split: if_splits intro!: keeps_rules)

lemma Response_keeps: "Response_fields n = Some h \<Longrightarrow> keeps Response_wf h"
  by (auto simp: Response_fields_def Response_handlers Response_wf_def split: if_splits intro!: keeps_rules)

lemma unrecognized_wf:
  "unknown_chunk Request_fields c \<Longrightarrow> Request_wf m \<Longrightarrow> Request_wf (Request_unrecognized c m)"
  "unknown_chunk Response_fields c \<Longrightarrow> Response_wf r \<Longrightarrow> Response_wf (Response_unrecognized c r)"
  by (simp_all add: Request_wf_def Request_unrecognized_def Response_wf_def Response_unrecognized_def unknown_snoc)

lemma Request_Unmarshal_wf: "Request_Unmarshal d m0 = Inr m \<Longrightarrow> go_slice d \<Longrightarrow> Request_wf m0 \<Longrightarrow> Request_wf m"
  unfolding Request_Unmarshal_def
  by (rule request.unmarshal_keeps [where P = Request_wf, OF Request_keeps unrecognized_wf(1)])

lemma Response_Unmarshal_wf: "Response_Unmarshal d m0 = Inr m \<Longrightarrow> go_slice d \<Longrightarrow> Response_wf m0 \<Longrightarrow> Response_wf m"
  unfolding Response_Unmarshal_def
  by (rule response.unmarshal_keeps [where P = Response_wf, OF Response_keeps unrecognized_wf(2)])

lemma Reset_wf: "Request_wf Request_Reset" "Response_wf Response_Reset"
  by (simp_all add: Request_wf_def Request_Reset_def Response_wf_def Response_Reset_def)

lemma order_exists: "finite (dom m) \<Longrightarrow> \<exists>ks. range_order m ks"
  using finite_distinct_list [of "dom m"] by (auto simp: range_order_def)

section \<open>Properties\<close>

text \<open>C24. Whatever bytes come in, what \<open>Unmarshal\<close> accepts is a well-formed message: its headers are finite and its unknown bytes are a sequence
  of whole unknown fields. So it can be forwarded: in any orders of its headers it is marshalled, without a panic, to bytes that decode to the same
  request.\<close>
theorem Request_Unmarshal_typed:
  assumes "Request_Unmarshal d Request_Reset = Inr m" "go_slice d"
  shows "Request_wf m \<and> (\<exists>ks. range_order (rqHeaders m) ks) \<and>
    (range_order (rqHeaders m) ks \<and> range_order (rqHeaders m) ks' \<and> Request_Size (Some m) ks' < 2 ^ 63 \<longrightarrow>
      (\<exists>bs. Request_Marshal m ks ks' = Some bs \<and> Request_Unmarshal bs Request_Reset = Inr m))"
proof -
  have wf: "Request_wf m" by (rule Request_Unmarshal_wf [OF assms Reset_wf(1)])
  then show ?thesis
    using order_exists [of "rqHeaders m"] Request_Marshal_enc [of m ks ks'] Request_Unmarshal_enc [of m ks']
    by (auto simp: Request_wf_def go_slice_def length_enc_Request)
qed

text \<open>The same of a response.\<close>
theorem Response_Unmarshal_typed:
  assumes "Response_Unmarshal d Response_Reset = Inr m" "go_slice d"
  shows "Response_wf m \<and> (\<exists>ks. range_order (rsHeaders m) ks) \<and>
    (range_order (rsHeaders m) ks \<and> range_order (rsHeaders m) ks' \<and> Response_Size (Some m) ks' < 2 ^ 63 \<longrightarrow>
      (\<exists>bs. Response_Marshal m ks ks' = Some bs \<and> Response_Unmarshal bs Response_Reset = Inr m))"
proof -
  have wf: "Response_wf m" by (rule Response_Unmarshal_wf [OF assms Reset_wf(2)])
  then show ?thesis
    using order_exists [of "rsHeaders m"] Response_Marshal_enc [of m ks ks'] Response_Unmarshal_enc [of m ks']
    by (auto simp: Response_wf_def go_slice_def length_enc_Response)
qed

text \<open>An input no encoder of this program writes: an unknown field in front of a known one.\<close>

definition odd_input :: bytes where
  "odd_input = [0x28, 1, 0x08, 5]"

lemma odd_input_read:
  "Request_Unmarshal odd_input Request_Reset = Inr (Request_Reset\<lparr>rqSid := 5, rqUnrecognized := [0x28, 1]\<rparr>)"
proof -
  have "unknown_chunk Request_fields [0x28, 1]" by code_simp
  note unknown = request.reads_unknown [OF this]
  have "reads Request_fields Request_unrecognized (enc_varint_field 0x08 (5 :: u64)) (\<lambda>m. m\<lparr>rqSid := 5\<rparr>)"
    using request.reads_varint [of "0x08" 1 "\<lambda>v m. m\<lparr>rqSid := v\<rparr>" 5]
    by (simp add: tag_is_def Request_fields_def Request_handlers)
  from request.unmarshal_reads [OF request.reads_append [OF unknown this], of Request_Reset] show ?thesis
    by (simp add: Request_Unmarshal_def odd_input_def enc_varint_field_def uvarint_small go_slice_def Request_unrecognized_def
        Request_Reset_def)
qed

theorem Request_Unmarshal_typed_witness:
  "\<exists>bs. Request_Marshal (Request_Reset\<lparr>rqSid := 5, rqUnrecognized := [0x28, 1]\<rparr>) [] [] = Some bs \<and> bs \<noteq> odd_input \<and>
     Request_Unmarshal bs Request_Reset = Inr (Request_Reset\<lparr>rqSid := 5, rqUnrecognized := [0x28, 1]\<rparr>)"
proof -
  let ?m = "Request_Reset\<lparr>rqSid := 5, rqUnrecognized := [0x28, 1 :: byte]\<rparr>"
  have o: "range_order (rqHeaders ?m) []" by (simp add: range_order_def Request_Reset_def)
  have size: "Request_Size (Some ?m) [] = 4" by code_simp
  have slice: "go_slice odd_input" by (simp add: odd_input_def go_slice_def)
  obtain bs where "Request_Marshal ?m [] [] = Some bs" "Request_Unmarshal bs Request_Reset = Inr ?m"
    using Request_Unmarshal_typed [OF odd_input_read slice, of "[]" "[]"] o size by auto
  moreover have "bs = [0x08, 5, 0x28, 1]"
    using calculation(1) Request_Marshal_enc [OF o o]
    by (simp add: enc_Request_def enc_varint_field_def uvarint_small Request_Reset_def)
  ultimately show ?thesis by (auto simp: odd_input_def)
qed

end
