(* ===== verification/Usernode_Parts.thy ===== *)
theory Usernode_Parts
  imports Packet_Rpc
begin

text \<open>
  The messages of the example service, \<open>example/protocol/usernode.pb.go\<close>, in the form of \<open>Packet_Rpc\<close>: here the nested message
  \<open>Authorize\<close> and the two responses. The file comes from a later version of the generator than \<open>packet.pb.go\<close>: its loop over a map
  entry tests the index after a skipped field for a wrap (\<open>map_entry_checked\<close>), and with that test no input makes \<open>Unmarshal\<close>
  panic. The helpers \<open>encodeVarintUsernode\<close>, \<open>sovUsernode\<close> and \<open>skipUsernode\<close> are those of \<open>packet.pb.go\<close> under another name.
\<close>

section \<open>Map fields with the test\<close>

fun map_entry_checked ::
    "nat \<Rightarrow> bytes \<Rightarrow> int \<Rightarrow> int \<Rightarrow> bytes \<Rightarrow> bytes \<Rightarrow> perr + (bytes \<times> bytes)" where
  "map_entry_checked 0 dAtA postIndex iNdEx mapkey mapvalue =
     (if iNdEx < postIndex then Inl OutOfFuel else Inr (mapkey, mapvalue))"
| "map_entry_checked (Suc fuel) dAtA postIndex iNdEx mapkey mapvalue =
     (if iNdEx < postIndex
      then r_bind (read_varint dAtA iNdEx) (\<lambda>(wire :: u64, i).
        let fieldNum = sint (ucast (drop_bit 3 wire) :: i32)
        in if fieldNum = 1 then
             r_bind (read_len dAtA i) (\<lambda>(i, post).
               map_entry_checked fuel dAtA postIndex post (go_sub dAtA i post) mapvalue)
           else if fieldNum = 2 then
             r_bind (read_len dAtA i) (\<lambda>(i, post).
               map_entry_checked fuel dAtA postIndex post mapkey (go_sub dAtA i post))
           else
             r_bind (skipPacket (drop (nat iNdEx) dAtA)) (\<lambda>skippy.
               r_check (skippy < 0 \<or> go_add iNdEx skippy < 0) ErrInvalidLengthPacket
                 (r_check (go_add iNdEx skippy > postIndex) ErrUnexpectedEOF
                   (map_entry_checked fuel dAtA postIndex (go_add iNdEx skippy) mapkey mapvalue))))
      else Inr (mapkey, mapvalue))"

definition map_field_checked :: "(bytes \<Rightarrow> bytes \<Rightarrow> 'm \<Rightarrow> 'm) \<Rightarrow> 'm handler" where
  "map_field_checked upd wireType dAtA iNdEx m =
     r_check (wireType \<noteq> 2) (ErrWrongWireType wireType)
       (r_bind (read_len dAtA iNdEx) (\<lambda>(iNdEx, postIndex).
         r_bind (map_entry_checked (length dAtA) dAtA postIndex iNdEx [] []) (\<lambda>(mapkey, mapvalue).
           Inr (upd mapkey mapvalue m, postIndex))))"

text \<open>The loop with the test agrees with the one without it, except that it can end with the error of the test.\<close>

lemma map_entry_checked_agrees:
  "0 \<le> post \<Longrightarrow> map_entry_checked n d post i k v = map_entry_loop n d post i k v \<or>
     map_entry_checked n d post i k v = Inl ErrInvalidLengthPacket \<and> (\<forall>r. map_entry_loop n d post i k v \<noteq> Inr r)"
proof (induction n arbitrary: i k v)
  case (Suc n)
  have neg: "map_entry_loop n d post j k' v' \<noteq> Inr r" if "j < 0" for j k' v' r
    using that Suc.prems by (cases n) (auto simp: read_varint_negative)
  show ?case
    using Suc.IH [OF Suc.prems] neg
    by (auto simp: Let_def r_bind_def r_check_def split: sum.split)
qed simp

lemma map_field_checked_Inr:
  assumes "map_field upd wt d i m = Inr r" "0 \<le> i" "go_slice d"
  shows "map_field_checked upd wt d i m = Inr r"
proof -
  have "map_entry_checked n d post j k v = Inr e"
    if "read_len d i = Inr (j, post)" "map_entry_loop n d post j k v = Inr e" for n j post k v e
    using map_entry_checked_agrees [of post n d j k v] read_len_progress [OF that(1) assms(3)] that(2) by auto
  then show ?thesis
    using assms(1) by (fastforce simp: map_field_def map_field_checked_def r_iffs)
qed

lemma advancing_map_field_checked [advancing_rules]: "advancing (map_field_checked upd)"
proof -
  have "map_entry_checked (length d) d p j [] [] \<noteq> Inl OutOfFuel"
    if "read_len d i = Inr (j, p)" "go_slice d" for d i j p
    using map_entry_checked_agrees [of p "length d" d j "[]" "[]"] read_len_progress [OF that]
      map_entry_loop_fuel [OF that(2), of p j "length d"] by auto
  then show ?thesis
    by (fastforce simp: advancing_def map_field_checked_def r_iffs dest: read_len_progress)
qed

lemma delivers_map_checked:
  fixes k v :: bytes
  defines "body \<equiv> enc_bytes_field 0x0a k @ enc_bytes_field 0x12 v"
  shows "delivers (map_field_checked upd) 2 (uvarint (of_nat (length body)) @ body) (upd k v)"
  using delivers_map [of upd k v] unfolding body_def delivers_def
  by (auto intro!: map_field_checked_Inr dest: occurs_at_bounds)

context wire_message
begin

lemma reads_map_checked:
  assumes "tag_is tag n 2" "fields n = Some (map_field_checked upd)"
  shows "reads fields addunk (enc_map tag mp ks) (fold (\<lambda>k. upd k (map_get mp k)) (rev ks))"
  unfolding enc_map_def enc_map_entry_def
  by (rule reads_concat, subst enc_bytes_field_def,
      rule reads_field [OF assms _ delivers_map_checked]) simp

end

section \<open>No input makes Unmarshal panic\<close>

text \<open>\<open>GoPanic\<close> is an index outside the buffer: every index the readers use is checked, or came forward from a checked one.\<close>

lemma read_varint_safe: "0 \<le> i \<Longrightarrow> read_varint d i \<noteq> Inl GoPanic"
  using read_varint_errors [of d i GoPanic] by auto

lemma read_len_safe: "0 \<le> i \<Longrightarrow> read_len d i \<noteq> Inl GoPanic"
  by (auto simp: read_len_def r_iffs Let_def read_varint_safe)

lemma skip_one_safe: "0 \<le> i \<Longrightarrow> skip_one d i dep \<noteq> Inl GoPanic"
  using read_varint_progress [of d i]
  by (fastforce simp: skip_one_def r_iffs Let_def read_varint_safe split: if_splits)

lemma skip_loop_safe: "0 \<le> i \<Longrightarrow> skip_loop n d i dep \<noteq> Inl GoPanic"
  by (induction n arbitrary: i dep) (auto simp: r_iffs skip_one_safe split: if_splits)

lemma skipPacket_safe: "skipPacket d \<noteq> Inl GoPanic"
  by (simp add: skipPacket_def skip_loop_safe)

lemma map_entry_checked_safe:
  "go_slice d \<Longrightarrow> 0 \<le> i \<Longrightarrow> map_entry_checked n d post i k v \<noteq> Inl GoPanic"
proof (induction n arbitrary: i k v)
  case (Suc n)
  have IH: "map_entry_checked n d post j k' v' \<noteq> Inl GoPanic" if "0 \<le> j" for j k' v'
    using Suc.IH Suc.prems(1) that by blast
  have len: "read_len d j \<noteq> Inl GoPanic" if "read_varint d i = Inr (w :: u64, j)" for w j
    using read_varint_progress [OF that] by (intro read_len_safe) simp
  have body: "map_entry_checked n d post p k' v' \<noteq> Inl GoPanic" if "read_len d j = Inr (b, p)" for j b p k' v'
    using read_len_progress [OF that Suc.prems(1)] by (intro IH) simp
  show ?case
    using Suc.prems IH len body
    by (auto simp: r_iffs Let_def read_varint_safe skipPacket_safe split: if_splits)
qed simp

definition panic_free :: "'m handler \<Rightarrow> bool" where
  "panic_free h \<longleftrightarrow>
     (\<forall>wt d i m. go_slice d \<longrightarrow> 0 \<le> i \<longrightarrow> i \<le> int (length d) \<longrightarrow> h wt d i m \<noteq> Inl GoPanic)"

named_theorems panic_free_rules "the field handlers that cannot panic"

lemma panic_free_varint [panic_free_rules]: "panic_free (varint_field upd)"
  by (auto simp: panic_free_def varint_field_def r_iffs read_varint_safe)

lemma panic_free_bytes [panic_free_rules]: "panic_free (bytes_field upd)"
  by (auto simp: panic_free_def bytes_field_def r_iffs read_len_safe)

lemma panic_free_map [panic_free_rules]: "panic_free (map_field_checked upd)"
proof -
  have "map_entry_checked n d p j [] [] \<noteq> Inl GoPanic" if "read_len d i = Inr (j, p)" "go_slice d" for n d i j p
    using read_len_progress [OF that] that(2) by (intro map_entry_checked_safe) auto
  then show ?thesis
    by (auto simp: panic_free_def map_field_checked_def r_iffs read_len_safe)
qed

lemma panic_free_message [panic_free_rules]:
  assumes "\<And>d m. go_slice d \<Longrightarrow> sub d m \<noteq> Inl GoPanic"
  shows "panic_free (message_field sub)"
proof -
  have "sub (go_sub d j p) m \<noteq> Inl GoPanic" if "go_slice d" for d j p m
    using that by (intro assms) (simp add: go_sub_def go_slice_def)
  then show ?thesis
    by (auto simp: panic_free_def message_field_def r_iffs read_len_safe)
qed

context wire_message
begin

lemma step_no_panic:
  assumes "\<And>n h. fields n = Some h \<Longrightarrow> panic_free h" "go_slice d" "0 \<le> i"
  shows "unmarshal_step fields addunk d i m \<noteq> Inl GoPanic"
proof -
  have h: "h wt d j m \<noteq> Inl GoPanic" if "fields n = Some h" "read_varint d i = Inr (w :: u64, j)" for n h wt w j
    using assms(1) [OF that(1)] read_varint_progress [OF that(2)] assms(2) by (auto simp: panic_free_def)
  then show ?thesis
    using assms(3) skipPacket_safe
    by (auto simp: unmarshal_step_def unknown_field_def r_iffs Let_def read_varint_safe split: option.splits)
qed

lemma unmarshal_no_panic:
  assumes "\<And>n h. fields n = Some h \<Longrightarrow> panic_free h" "go_slice d"
  shows "unmarshal_with fields addunk d m \<noteq> Inl GoPanic"
proof -
  have "unmarshal_loop n fields addunk d i m \<noteq> Inl GoPanic" if "0 \<le> i" for n i
    using that
  proof (induction n arbitrary: i m)
    case (Suc n)
    show ?case
    proof
      assume "unmarshal_loop (Suc n) fields addunk d i m = Inl GoPanic"
      then obtain m' j where j: "unmarshal_step fields addunk d i m = Inr (m', j)" "i < int (length d)"
          and rest: "unmarshal_loop n fields addunk d j m' = Inl GoPanic"
        using step_no_panic [OF assms Suc.prems, where m = m] by (auto simp: r_iffs split: if_splits)
      with step_advance(2) [OF assms(2) Suc.prems _ j(1)] have "0 \<le> j" using Suc.prems by simp
      with Suc.IH rest show False by blast
    qed
  qed (simp add: r_check_def)
  then show ?thesis by (simp add: unmarshal_with_def)
qed

end

section \<open>Authorize\<close>

record Authorize =
  auAppid :: bytes
  auAppkey :: bytes
  auExtra :: gomap
  auUnrecognized :: bytes

definition Authorize_Reset :: Authorize where
  "Authorize_Reset = \<lparr>auAppid = [], auAppkey = [], auExtra = Map.empty, auUnrecognized = []\<rparr>"

definition Authorize_GetAppid :: "Authorize option \<Rightarrow> bytes" where
  "Authorize_GetAppid m = (case m of Some m \<Rightarrow> auAppid m | None \<Rightarrow> [])"

definition Authorize_GetAppkey :: "Authorize option \<Rightarrow> bytes" where
  "Authorize_GetAppkey m = (case m of Some m \<Rightarrow> auAppkey m | None \<Rightarrow> [])"

definition Authorize_GetExtra :: "Authorize option \<Rightarrow> gomap" where
  "Authorize_GetExtra m = (case m of Some m \<Rightarrow> auExtra m | None \<Rightarrow> Map.empty)"

definition Authorize_Size :: "Authorize option \<Rightarrow> bytes list \<Rightarrow> nat" where
  "Authorize_Size m ks =
     (case m of None \<Rightarrow> 0
      | Some m \<Rightarrow>
          (if 0 < length (auAppid m) then size_bytes_field (length (auAppid m)) else 0)
        + (if 0 < length (auAppkey m) then size_bytes_field (length (auAppkey m)) else 0)
        + (if 0 < length ks then size_map (auExtra m) ks else 0)
        + length (auUnrecognized m))"

definition Authorize_put :: "Authorize \<Rightarrow> bytes list \<Rightarrow> wr \<Rightarrow> wr option" where
  "Authorize_put m ks w = do {
     w \<leftarrow> wr_if (auUnrecognized m \<noteq> []) (put_bytes (auUnrecognized m)) w;
     w \<leftarrow> wr_if (0 < length ks) (put_map 0x1a (auExtra m) ks) w;
     w \<leftarrow> wr_if (0 < length (auAppkey m)) (put_bytes_field 0x12 (auAppkey m)) w;
     wr_if (0 < length (auAppid m)) (put_bytes_field 0x0a (auAppid m)) w
   }"

definition Authorize_MarshalToSizedBuffer :: "Authorize \<Rightarrow> bytes list \<Rightarrow> bytes \<Rightarrow> (bytes \<times> int) option" where
  "Authorize_MarshalToSizedBuffer m ks dAtA = do {
     w \<leftarrow> Authorize_put m ks (dAtA, int (length dAtA));
     Some (fst w, int (length dAtA) - snd w)
   }"

definition Authorize_MarshalTo :: "Authorize \<Rightarrow> bytes list \<Rightarrow> bytes list \<Rightarrow> bytes \<Rightarrow> (bytes \<times> int) option" where
  "Authorize_MarshalTo m ks ks' dAtA =
     marshal_to_with (Authorize_Size (Some m) ks) (Authorize_MarshalToSizedBuffer m ks') dAtA"

definition Authorize_Marshal :: "Authorize \<Rightarrow> bytes list \<Rightarrow> bytes list \<Rightarrow> bytes option" where
  "Authorize_Marshal m ks ks' =
     marshal_with (Authorize_Size (Some m) ks) (Authorize_MarshalToSizedBuffer m ks')"

definition Authorize_unmarshal_Appid :: "Authorize handler" where
  "Authorize_unmarshal_Appid = bytes_field (\<lambda>s m. m\<lparr>auAppid := s\<rparr>)"

definition Authorize_unmarshal_Appkey :: "Authorize handler" where
  "Authorize_unmarshal_Appkey = bytes_field (\<lambda>s m. m\<lparr>auAppkey := s\<rparr>)"

definition Authorize_unmarshal_Extra :: "Authorize handler" where
  "Authorize_unmarshal_Extra = map_field_checked (\<lambda>k v m. m\<lparr>auExtra := (auExtra m)(k \<mapsto> v)\<rparr>)"

definition Authorize_fields :: "int \<Rightarrow> Authorize handler option" where
  "Authorize_fields fieldNum =
     (if fieldNum = 1 then Some Authorize_unmarshal_Appid
      else if fieldNum = 2 then Some Authorize_unmarshal_Appkey
      else if fieldNum = 3 then Some Authorize_unmarshal_Extra
      else None)"

definition Authorize_unrecognized :: "bytes \<Rightarrow> Authorize \<Rightarrow> Authorize" where
  "Authorize_unrecognized s m = m\<lparr>auUnrecognized := auUnrecognized m @ s\<rparr>"

definition Authorize_Unmarshal :: "bytes \<Rightarrow> Authorize \<Rightarrow> perr + Authorize" where
  "Authorize_Unmarshal dAtA m = unmarshal_with Authorize_fields Authorize_unrecognized dAtA m"

lemmas Authorize_handlers = Authorize_unmarshal_Appid_def Authorize_unmarshal_Appkey_def Authorize_unmarshal_Extra_def

interpretation authorize: wire_message Authorize_fields Authorize_unrecognized
  by unfold_locales
    (auto simp: Authorize_fields_def Authorize_handlers Authorize_unrecognized_def
      intro!: advancing_rules split: if_splits)

lemma Authorize_Unmarshal_total: "go_slice d \<Longrightarrow> Authorize_Unmarshal d m \<noteq> Inl OutOfFuel"
  unfolding Authorize_Unmarshal_def by (rule authorize.unmarshal_total)

lemma Authorize_Unmarshal_safe: "go_slice d \<Longrightarrow> Authorize_Unmarshal d m \<noteq> Inl GoPanic"
  unfolding Authorize_Unmarshal_def
  by (rule authorize.unmarshal_no_panic)
    (auto simp: Authorize_fields_def Authorize_handlers intro!: panic_free_rules split: if_splits)

text \<open>The reference encoding, and what \<open>Marshal\<close> has to do with it.\<close>

definition enc_Authorize :: "Authorize \<Rightarrow> bytes list \<Rightarrow> bytes" where
  "enc_Authorize m ks =
     (if 0 < length (auAppid m) then enc_bytes_field 0x0a (auAppid m) else []) @
     (if 0 < length (auAppkey m) then enc_bytes_field 0x12 (auAppkey m) else []) @
     (if 0 < length ks then enc_map 0x1a (auExtra m) ks else []) @
     auUnrecognized m"

lemma emits_Authorize: "emits (Authorize_put m ks) (enc_Authorize m ks)"
  unfolding Authorize_put_def [abs_def] enc_Authorize_def
  by (rule emits_eq, (rule emit_rules)+) simp

lemma length_enc_Authorize: "length (enc_Authorize m ks) = Authorize_Size (Some m) ks"
  by (simp add: enc_Authorize_def Authorize_Size_def)

lemma fills_Authorize: "fills (Authorize_MarshalToSizedBuffer m ks) (enc_Authorize m ks)"
  using fills_intro [OF emits_Authorize] by (simp add: Authorize_MarshalToSizedBuffer_def [abs_def])

lemma Authorize_Size_order:
  "range_order (auExtra m) ks \<Longrightarrow> range_order (auExtra m) ks' \<Longrightarrow>
     Authorize_Size (Some m) ks = Authorize_Size (Some m) ks'"
  using size_map_order [of "auExtra m" ks ks']
  by (auto simp: Authorize_Size_def range_order_def)

lemma Authorize_Marshal_enc:
  assumes "range_order (auExtra m) ks" "range_order (auExtra m) ks'"
  shows "Authorize_Marshal m ks ks' = Some (enc_Authorize m ks')"
  using marshal_with_fills [OF fills_Authorize, of m ks'] Authorize_Size_order [OF assms]
  by (simp add: Authorize_Marshal_def length_enc_Authorize)

definition Authorize_unknown :: "bytes \<Rightarrow> bool" where
  "Authorize_unknown u \<longleftrightarrow> (\<exists>cs. list_all (unknown_chunk Authorize_fields) cs \<and> u = concat cs)"

lemma Authorize_unknown_Nil [simp]: "Authorize_unknown []"
  unfolding Authorize_unknown_def by (auto intro: exI [of _ "[]"])

text \<open>What reading the encoding of \<open>m\<close> into \<open>m0\<close> gives.\<close>

definition Authorize_merge :: "Authorize \<Rightarrow> bytes list \<Rightarrow> Authorize \<Rightarrow> Authorize" where
  "Authorize_merge m ks m0 =
     (let m1 = (if 0 < length (auAppid m) then m0\<lparr>auAppid := auAppid m\<rparr> else m0);
          m2 = (if 0 < length (auAppkey m) then m1\<lparr>auAppkey := auAppkey m\<rparr> else m1);
          m3 = (if 0 < length ks then m2\<lparr>auExtra := fold (\<lambda>k h. h(k \<mapsto> map_get (auExtra m) k)) (rev ks) (auExtra m2)\<rparr> else m2)
      in Authorize_unrecognized (auUnrecognized m) m3)"

lemma fold_Authorize_Extra:
  "fold (\<lambda>k m. m\<lparr>auExtra := (auExtra m)(k \<mapsto> map_get mp k)\<rparr>) ks =
     (\<lambda>m. m\<lparr>auExtra := fold (\<lambda>k h. h(k \<mapsto> map_get mp k)) ks (auExtra m)\<rparr>)"
  by (induction ks) (simp_all add: fun_eq_iff)

lemma Authorize_reads:
  assumes "Authorize_unknown (auUnrecognized m)"
  shows "reads Authorize_fields Authorize_unrecognized (enc_Authorize m ks) (Authorize_merge m ks)"
proof -
  obtain cs where cs: "list_all (unknown_chunk Authorize_fields) cs" "auUnrecognized m = concat cs"
    using assms by (auto simp: Authorize_unknown_def)
  have x1: "reads Authorize_fields Authorize_unrecognized (enc_bytes_field 0x0a (auAppid m)) (\<lambda>m0. m0\<lparr>auAppid := auAppid m\<rparr>)"
    using authorize.reads_bytes [of "0x0a" 1 "\<lambda>s m. m\<lparr>auAppid := s\<rparr>" "auAppid m"]
    by (simp add: tag_is_def Authorize_fields_def Authorize_handlers)
  have x2: "reads Authorize_fields Authorize_unrecognized (enc_bytes_field 0x12 (auAppkey m)) (\<lambda>m0. m0\<lparr>auAppkey := auAppkey m\<rparr>)"
    using authorize.reads_bytes [of "0x12" 2 "\<lambda>s m. m\<lparr>auAppkey := s\<rparr>" "auAppkey m"]
    by (simp add: tag_is_def Authorize_fields_def Authorize_handlers)
  have x3: "reads Authorize_fields Authorize_unrecognized (enc_map 0x1a (auExtra m) ks)
      (\<lambda>m0. m0\<lparr>auExtra := fold (\<lambda>k h. h(k \<mapsto> map_get (auExtra m) k)) (rev ks) (auExtra m0)\<rparr>)"
    using authorize.reads_map_checked [of "0x1a" 3 "\<lambda>k v m. m\<lparr>auExtra := (auExtra m)(k \<mapsto> v)\<rparr>" "auExtra m" ks]
    by (simp add: tag_is_def Authorize_fields_def Authorize_handlers fold_Authorize_Extra)
  note rd = authorize.reads_append [OF authorize.reads_if [where c = "0 < length (auAppid m)", OF x1]
      authorize.reads_append [OF authorize.reads_if [where c = "0 < length (auAppkey m)", OF x2]
      authorize.reads_append [OF authorize.reads_if [where c = "0 < length ks", OF x3]
      authorize.reads_unknowns [OF cs(1)]]]]
  then show ?thesis
    unfolding enc_Authorize_def Authorize_merge_def [abs_def] Let_def cs(2) .
qed

lemma Authorize_merge_Reset:
  "range_order (auExtra m) ks \<Longrightarrow> Authorize_merge m ks Authorize_Reset = m"
  using fold_headers_back [of "auExtra m" ks]
  by (cases m) (simp add: Authorize_merge_def Authorize_Reset_def Authorize_unrecognized_def Let_def)

lemma Authorize_Unmarshal_enc:
  assumes "Authorize_unknown (auUnrecognized m)" "go_slice (enc_Authorize m ks)"
  shows "Authorize_Unmarshal (enc_Authorize m ks) m0 = Inr (Authorize_merge m ks m0)"
  unfolding Authorize_Unmarshal_def by (rule authorize.unmarshal_reads [OF Authorize_reads [OF assms(1)] assms(2)])

section \<open>CreateUserResp\<close>

record CreateUserResp =
  crCode :: i32
  crMsg :: bytes
  crExtra :: gomap
  crUnrecognized :: bytes

definition CreateUserResp_Reset :: CreateUserResp where
  "CreateUserResp_Reset = \<lparr>crCode = 0, crMsg = [], crExtra = Map.empty, crUnrecognized = []\<rparr>"

definition CreateUserResp_GetCode :: "CreateUserResp option \<Rightarrow> i32" where
  "CreateUserResp_GetCode m = (case m of Some m \<Rightarrow> crCode m | None \<Rightarrow> 0)"

definition CreateUserResp_GetMsg :: "CreateUserResp option \<Rightarrow> bytes" where
  "CreateUserResp_GetMsg m = (case m of Some m \<Rightarrow> crMsg m | None \<Rightarrow> [])"

definition CreateUserResp_GetExtra :: "CreateUserResp option \<Rightarrow> gomap" where
  "CreateUserResp_GetExtra m = (case m of Some m \<Rightarrow> crExtra m | None \<Rightarrow> Map.empty)"

definition CreateUserResp_Size :: "CreateUserResp option \<Rightarrow> bytes list \<Rightarrow> nat" where
  "CreateUserResp_Size m ks =
     (case m of None \<Rightarrow> 0
      | Some m \<Rightarrow>
          (if crCode m \<noteq> 0 then size_varint_field (scast (crCode m)) else 0)
        + (if 0 < length (crMsg m) then size_bytes_field (length (crMsg m)) else 0)
        + (if 0 < length ks then size_map (crExtra m) ks else 0)
        + length (crUnrecognized m))"

definition CreateUserResp_put :: "CreateUserResp \<Rightarrow> bytes list \<Rightarrow> wr \<Rightarrow> wr option" where
  "CreateUserResp_put m ks w = do {
     w \<leftarrow> wr_if (crUnrecognized m \<noteq> []) (put_bytes (crUnrecognized m)) w;
     w \<leftarrow> wr_if (0 < length ks) (put_map 0x1a (crExtra m) ks) w;
     w \<leftarrow> wr_if (0 < length (crMsg m)) (put_bytes_field 0x12 (crMsg m)) w;
     wr_if (crCode m \<noteq> 0) (put_varint_field 0x08 (scast (crCode m))) w
   }"

definition CreateUserResp_MarshalToSizedBuffer :: "CreateUserResp \<Rightarrow> bytes list \<Rightarrow> bytes \<Rightarrow> (bytes \<times> int) option" where
  "CreateUserResp_MarshalToSizedBuffer m ks dAtA = do {
     w \<leftarrow> CreateUserResp_put m ks (dAtA, int (length dAtA));
     Some (fst w, int (length dAtA) - snd w)
   }"

definition CreateUserResp_MarshalTo :: "CreateUserResp \<Rightarrow> bytes list \<Rightarrow> bytes list \<Rightarrow> bytes \<Rightarrow> (bytes \<times> int) option" where
  "CreateUserResp_MarshalTo m ks ks' dAtA =
     marshal_to_with (CreateUserResp_Size (Some m) ks) (CreateUserResp_MarshalToSizedBuffer m ks') dAtA"

definition CreateUserResp_Marshal :: "CreateUserResp \<Rightarrow> bytes list \<Rightarrow> bytes list \<Rightarrow> bytes option" where
  "CreateUserResp_Marshal m ks ks' =
     marshal_with (CreateUserResp_Size (Some m) ks) (CreateUserResp_MarshalToSizedBuffer m ks')"

definition CreateUserResp_unmarshal_Code :: "CreateUserResp handler" where
  "CreateUserResp_unmarshal_Code = varint_field (\<lambda>v m. m\<lparr>crCode := v\<rparr>)"

definition CreateUserResp_unmarshal_Msg :: "CreateUserResp handler" where
  "CreateUserResp_unmarshal_Msg = bytes_field (\<lambda>s m. m\<lparr>crMsg := s\<rparr>)"

definition CreateUserResp_unmarshal_Extra :: "CreateUserResp handler" where
  "CreateUserResp_unmarshal_Extra = map_field_checked (\<lambda>k v m. m\<lparr>crExtra := (crExtra m)(k \<mapsto> v)\<rparr>)"

definition CreateUserResp_fields :: "int \<Rightarrow> CreateUserResp handler option" where
  "CreateUserResp_fields fieldNum =
     (if fieldNum = 1 then Some CreateUserResp_unmarshal_Code
      else if fieldNum = 2 then Some CreateUserResp_unmarshal_Msg
      else if fieldNum = 3 then Some CreateUserResp_unmarshal_Extra
      else None)"

definition CreateUserResp_unrecognized :: "bytes \<Rightarrow> CreateUserResp \<Rightarrow> CreateUserResp" where
  "CreateUserResp_unrecognized s m = m\<lparr>crUnrecognized := crUnrecognized m @ s\<rparr>"

definition CreateUserResp_Unmarshal :: "bytes \<Rightarrow> CreateUserResp \<Rightarrow> perr + CreateUserResp" where
  "CreateUserResp_Unmarshal dAtA m = unmarshal_with CreateUserResp_fields CreateUserResp_unrecognized dAtA m"

lemmas CreateUserResp_handlers = CreateUserResp_unmarshal_Code_def CreateUserResp_unmarshal_Msg_def CreateUserResp_unmarshal_Extra_def

interpretation create_resp: wire_message CreateUserResp_fields CreateUserResp_unrecognized
  by unfold_locales
    (auto simp: CreateUserResp_fields_def CreateUserResp_handlers CreateUserResp_unrecognized_def
      intro!: advancing_rules split: if_splits)

lemma CreateUserResp_Unmarshal_total: "go_slice d \<Longrightarrow> CreateUserResp_Unmarshal d m \<noteq> Inl OutOfFuel"
  unfolding CreateUserResp_Unmarshal_def by (rule create_resp.unmarshal_total)

lemma CreateUserResp_Unmarshal_safe: "go_slice d \<Longrightarrow> CreateUserResp_Unmarshal d m \<noteq> Inl GoPanic"
  unfolding CreateUserResp_Unmarshal_def
  by (rule create_resp.unmarshal_no_panic)
    (auto simp: CreateUserResp_fields_def CreateUserResp_handlers intro!: panic_free_rules split: if_splits)

text \<open>The reference encoding, and what \<open>Marshal\<close> has to do with it.\<close>

definition enc_CreateUserResp :: "CreateUserResp \<Rightarrow> bytes list \<Rightarrow> bytes" where
  "enc_CreateUserResp m ks =
     (if crCode m \<noteq> 0 then enc_varint_field 0x08 (scast (crCode m)) else []) @
     (if 0 < length (crMsg m) then enc_bytes_field 0x12 (crMsg m) else []) @
     (if 0 < length ks then enc_map 0x1a (crExtra m) ks else []) @
     crUnrecognized m"

lemma emits_CreateUserResp: "emits (CreateUserResp_put m ks) (enc_CreateUserResp m ks)"
  unfolding CreateUserResp_put_def [abs_def] enc_CreateUserResp_def
  by (rule emits_eq, (rule emit_rules)+) simp

lemma length_enc_CreateUserResp: "length (enc_CreateUserResp m ks) = CreateUserResp_Size (Some m) ks"
  by (simp add: enc_CreateUserResp_def CreateUserResp_Size_def)

lemma fills_CreateUserResp: "fills (CreateUserResp_MarshalToSizedBuffer m ks) (enc_CreateUserResp m ks)"
  using fills_intro [OF emits_CreateUserResp] by (simp add: CreateUserResp_MarshalToSizedBuffer_def [abs_def])

lemma CreateUserResp_Size_order:
  "range_order (crExtra m) ks \<Longrightarrow> range_order (crExtra m) ks' \<Longrightarrow>
     CreateUserResp_Size (Some m) ks = CreateUserResp_Size (Some m) ks'"
  using size_map_order [of "crExtra m" ks ks']
  by (auto simp: CreateUserResp_Size_def range_order_def)

lemma CreateUserResp_Marshal_enc:
  assumes "range_order (crExtra m) ks" "range_order (crExtra m) ks'"
  shows "CreateUserResp_Marshal m ks ks' = Some (enc_CreateUserResp m ks')"
  using marshal_with_fills [OF fills_CreateUserResp, of m ks'] CreateUserResp_Size_order [OF assms]
  by (simp add: CreateUserResp_Marshal_def length_enc_CreateUserResp)

definition CreateUserResp_unknown :: "bytes \<Rightarrow> bool" where
  "CreateUserResp_unknown u \<longleftrightarrow> (\<exists>cs. list_all (unknown_chunk CreateUserResp_fields) cs \<and> u = concat cs)"

lemma CreateUserResp_unknown_Nil [simp]: "CreateUserResp_unknown []"
  unfolding CreateUserResp_unknown_def by (auto intro: exI [of _ "[]"])

text \<open>What reading the encoding of \<open>m\<close> into \<open>m0\<close> gives.\<close>

definition CreateUserResp_merge :: "CreateUserResp \<Rightarrow> bytes list \<Rightarrow> CreateUserResp \<Rightarrow> CreateUserResp" where
  "CreateUserResp_merge m ks m0 =
     (let m1 = (if crCode m \<noteq> 0 then m0\<lparr>crCode := crCode m\<rparr> else m0);
          m2 = (if 0 < length (crMsg m) then m1\<lparr>crMsg := crMsg m\<rparr> else m1);
          m3 = (if 0 < length ks then m2\<lparr>crExtra := fold (\<lambda>k h. h(k \<mapsto> map_get (crExtra m) k)) (rev ks) (crExtra m2)\<rparr> else m2)
      in CreateUserResp_unrecognized (crUnrecognized m) m3)"

lemma fold_CreateUserResp_Extra:
  "fold (\<lambda>k m. m\<lparr>crExtra := (crExtra m)(k \<mapsto> map_get mp k)\<rparr>) ks =
     (\<lambda>m. m\<lparr>crExtra := fold (\<lambda>k h. h(k \<mapsto> map_get mp k)) ks (crExtra m)\<rparr>)"
  by (induction ks) (simp_all add: fun_eq_iff)

lemma CreateUserResp_reads:
  assumes "CreateUserResp_unknown (crUnrecognized m)"
  shows "reads CreateUserResp_fields CreateUserResp_unrecognized (enc_CreateUserResp m ks) (CreateUserResp_merge m ks)"
proof -
  obtain cs where cs: "list_all (unknown_chunk CreateUserResp_fields) cs" "crUnrecognized m = concat cs"
    using assms by (auto simp: CreateUserResp_unknown_def)
  have x1: "reads CreateUserResp_fields CreateUserResp_unrecognized (enc_varint_field 0x08 (scast (crCode m))) (\<lambda>m0. m0\<lparr>crCode := crCode m\<rparr>)"
    using create_resp.reads_varint [of "0x08" 1 "\<lambda>v m. m\<lparr>crCode := v\<rparr>" "scast (crCode m)"]
    by (simp add: tag_is_def CreateUserResp_fields_def CreateUserResp_handlers ucast_scast_i32)
  have x2: "reads CreateUserResp_fields CreateUserResp_unrecognized (enc_bytes_field 0x12 (crMsg m)) (\<lambda>m0. m0\<lparr>crMsg := crMsg m\<rparr>)"
    using create_resp.reads_bytes [of "0x12" 2 "\<lambda>s m. m\<lparr>crMsg := s\<rparr>" "crMsg m"]
    by (simp add: tag_is_def CreateUserResp_fields_def CreateUserResp_handlers)
  have x3: "reads CreateUserResp_fields CreateUserResp_unrecognized (enc_map 0x1a (crExtra m) ks)
      (\<lambda>m0. m0\<lparr>crExtra := fold (\<lambda>k h. h(k \<mapsto> map_get (crExtra m) k)) (rev ks) (crExtra m0)\<rparr>)"
    using create_resp.reads_map_checked [of "0x1a" 3 "\<lambda>k v m. m\<lparr>crExtra := (crExtra m)(k \<mapsto> v)\<rparr>" "crExtra m" ks]
    by (simp add: tag_is_def CreateUserResp_fields_def CreateUserResp_handlers fold_CreateUserResp_Extra)
  note rd = create_resp.reads_append [OF create_resp.reads_if [where c = "crCode m \<noteq> 0", OF x1]
      create_resp.reads_append [OF create_resp.reads_if [where c = "0 < length (crMsg m)", OF x2]
      create_resp.reads_append [OF create_resp.reads_if [where c = "0 < length ks", OF x3]
      create_resp.reads_unknowns [OF cs(1)]]]]
  then show ?thesis
    unfolding enc_CreateUserResp_def CreateUserResp_merge_def [abs_def] Let_def cs(2) .
qed

lemma CreateUserResp_merge_Reset:
  "range_order (crExtra m) ks \<Longrightarrow> CreateUserResp_merge m ks CreateUserResp_Reset = m"
  using fold_headers_back [of "crExtra m" ks]
  by (cases m) (simp add: CreateUserResp_merge_def CreateUserResp_Reset_def CreateUserResp_unrecognized_def Let_def)

lemma CreateUserResp_Unmarshal_enc:
  assumes "CreateUserResp_unknown (crUnrecognized m)" "go_slice (enc_CreateUserResp m ks)"
  shows "CreateUserResp_Unmarshal (enc_CreateUserResp m ks) m0 = Inr (CreateUserResp_merge m ks m0)"
  unfolding CreateUserResp_Unmarshal_def by (rule create_resp.unmarshal_reads [OF CreateUserResp_reads [OF assms(1)] assms(2)])

section \<open>UserInfoResp\<close>

record UserInfoResp =
  urCode :: i32
  urMsg :: bytes
  urExtra :: gomap
  urUnrecognized :: bytes

definition UserInfoResp_Reset :: UserInfoResp where
  "UserInfoResp_Reset = \<lparr>urCode = 0, urMsg = [], urExtra = Map.empty, urUnrecognized = []\<rparr>"

definition UserInfoResp_GetCode :: "UserInfoResp option \<Rightarrow> i32" where
  "UserInfoResp_GetCode m = (case m of Some m \<Rightarrow> urCode m | None \<Rightarrow> 0)"

definition UserInfoResp_GetMsg :: "UserInfoResp option \<Rightarrow> bytes" where
  "UserInfoResp_GetMsg m = (case m of Some m \<Rightarrow> urMsg m | None \<Rightarrow> [])"

definition UserInfoResp_GetExtra :: "UserInfoResp option \<Rightarrow> gomap" where
  "UserInfoResp_GetExtra m = (case m of Some m \<Rightarrow> urExtra m | None \<Rightarrow> Map.empty)"

definition UserInfoResp_Size :: "UserInfoResp option \<Rightarrow> bytes list \<Rightarrow> nat" where
  "UserInfoResp_Size m ks =
     (case m of None \<Rightarrow> 0
      | Some m \<Rightarrow>
          (if urCode m \<noteq> 0 then size_varint_field (scast (urCode m)) else 0)
        + (if 0 < length (urMsg m) then size_bytes_field (length (urMsg m)) else 0)
        + (if 0 < length ks then size_map (urExtra m) ks else 0)
        + length (urUnrecognized m))"

definition UserInfoResp_put :: "UserInfoResp \<Rightarrow> bytes list \<Rightarrow> wr \<Rightarrow> wr option" where
  "UserInfoResp_put m ks w = do {
     w \<leftarrow> wr_if (urUnrecognized m \<noteq> []) (put_bytes (urUnrecognized m)) w;
     w \<leftarrow> wr_if (0 < length ks) (put_map 0x1a (urExtra m) ks) w;
     w \<leftarrow> wr_if (0 < length (urMsg m)) (put_bytes_field 0x12 (urMsg m)) w;
     wr_if (urCode m \<noteq> 0) (put_varint_field 0x08 (scast (urCode m))) w
   }"

definition UserInfoResp_MarshalToSizedBuffer :: "UserInfoResp \<Rightarrow> bytes list \<Rightarrow> bytes \<Rightarrow> (bytes \<times> int) option" where
  "UserInfoResp_MarshalToSizedBuffer m ks dAtA = do {
     w \<leftarrow> UserInfoResp_put m ks (dAtA, int (length dAtA));
     Some (fst w, int (length dAtA) - snd w)
   }"

definition UserInfoResp_MarshalTo :: "UserInfoResp \<Rightarrow> bytes list \<Rightarrow> bytes list \<Rightarrow> bytes \<Rightarrow> (bytes \<times> int) option" where
  "UserInfoResp_MarshalTo m ks ks' dAtA =
     marshal_to_with (UserInfoResp_Size (Some m) ks) (UserInfoResp_MarshalToSizedBuffer m ks') dAtA"

definition UserInfoResp_Marshal :: "UserInfoResp \<Rightarrow> bytes list \<Rightarrow> bytes list \<Rightarrow> bytes option" where
  "UserInfoResp_Marshal m ks ks' =
     marshal_with (UserInfoResp_Size (Some m) ks) (UserInfoResp_MarshalToSizedBuffer m ks')"

definition UserInfoResp_unmarshal_Code :: "UserInfoResp handler" where
  "UserInfoResp_unmarshal_Code = varint_field (\<lambda>v m. m\<lparr>urCode := v\<rparr>)"

definition UserInfoResp_unmarshal_Msg :: "UserInfoResp handler" where
  "UserInfoResp_unmarshal_Msg = bytes_field (\<lambda>s m. m\<lparr>urMsg := s\<rparr>)"

definition UserInfoResp_unmarshal_Extra :: "UserInfoResp handler" where
  "UserInfoResp_unmarshal_Extra = map_field_checked (\<lambda>k v m. m\<lparr>urExtra := (urExtra m)(k \<mapsto> v)\<rparr>)"

definition UserInfoResp_fields :: "int \<Rightarrow> UserInfoResp handler option" where
  "UserInfoResp_fields fieldNum =
     (if fieldNum = 1 then Some UserInfoResp_unmarshal_Code
      else if fieldNum = 2 then Some UserInfoResp_unmarshal_Msg
      else if fieldNum = 3 then Some UserInfoResp_unmarshal_Extra
      else None)"

definition UserInfoResp_unrecognized :: "bytes \<Rightarrow> UserInfoResp \<Rightarrow> UserInfoResp" where
  "UserInfoResp_unrecognized s m = m\<lparr>urUnrecognized := urUnrecognized m @ s\<rparr>"

definition UserInfoResp_Unmarshal :: "bytes \<Rightarrow> UserInfoResp \<Rightarrow> perr + UserInfoResp" where
  "UserInfoResp_Unmarshal dAtA m = unmarshal_with UserInfoResp_fields UserInfoResp_unrecognized dAtA m"

lemmas UserInfoResp_handlers = UserInfoResp_unmarshal_Code_def UserInfoResp_unmarshal_Msg_def UserInfoResp_unmarshal_Extra_def

interpretation info_resp: wire_message UserInfoResp_fields UserInfoResp_unrecognized
  by unfold_locales
    (auto simp: UserInfoResp_fields_def UserInfoResp_handlers UserInfoResp_unrecognized_def
      intro!: advancing_rules split: if_splits)

lemma UserInfoResp_Unmarshal_total: "go_slice d \<Longrightarrow> UserInfoResp_Unmarshal d m \<noteq> Inl OutOfFuel"
  unfolding UserInfoResp_Unmarshal_def by (rule info_resp.unmarshal_total)

lemma UserInfoResp_Unmarshal_safe: "go_slice d \<Longrightarrow> UserInfoResp_Unmarshal d m \<noteq> Inl GoPanic"
  unfolding UserInfoResp_Unmarshal_def
  by (rule info_resp.unmarshal_no_panic)
    (auto simp: UserInfoResp_fields_def UserInfoResp_handlers intro!: panic_free_rules split: if_splits)

text \<open>The reference encoding, and what \<open>Marshal\<close> has to do with it.\<close>

definition enc_UserInfoResp :: "UserInfoResp \<Rightarrow> bytes list \<Rightarrow> bytes" where
  "enc_UserInfoResp m ks =
     (if urCode m \<noteq> 0 then enc_varint_field 0x08 (scast (urCode m)) else []) @
     (if 0 < length (urMsg m) then enc_bytes_field 0x12 (urMsg m) else []) @
     (if 0 < length ks then enc_map 0x1a (urExtra m) ks else []) @
     urUnrecognized m"

lemma emits_UserInfoResp: "emits (UserInfoResp_put m ks) (enc_UserInfoResp m ks)"
  unfolding UserInfoResp_put_def [abs_def] enc_UserInfoResp_def
  by (rule emits_eq, (rule emit_rules)+) simp

lemma length_enc_UserInfoResp: "length (enc_UserInfoResp m ks) = UserInfoResp_Size (Some m) ks"
  by (simp add: enc_UserInfoResp_def UserInfoResp_Size_def)

lemma fills_UserInfoResp: "fills (UserInfoResp_MarshalToSizedBuffer m ks) (enc_UserInfoResp m ks)"
  using fills_intro [OF emits_UserInfoResp] by (simp add: UserInfoResp_MarshalToSizedBuffer_def [abs_def])

lemma UserInfoResp_Size_order:
  "range_order (urExtra m) ks \<Longrightarrow> range_order (urExtra m) ks' \<Longrightarrow>
     UserInfoResp_Size (Some m) ks = UserInfoResp_Size (Some m) ks'"
  using size_map_order [of "urExtra m" ks ks']
  by (auto simp: UserInfoResp_Size_def range_order_def)

lemma UserInfoResp_Marshal_enc:
  assumes "range_order (urExtra m) ks" "range_order (urExtra m) ks'"
  shows "UserInfoResp_Marshal m ks ks' = Some (enc_UserInfoResp m ks')"
  using marshal_with_fills [OF fills_UserInfoResp, of m ks'] UserInfoResp_Size_order [OF assms]
  by (simp add: UserInfoResp_Marshal_def length_enc_UserInfoResp)

definition UserInfoResp_unknown :: "bytes \<Rightarrow> bool" where
  "UserInfoResp_unknown u \<longleftrightarrow> (\<exists>cs. list_all (unknown_chunk UserInfoResp_fields) cs \<and> u = concat cs)"

lemma UserInfoResp_unknown_Nil [simp]: "UserInfoResp_unknown []"
  unfolding UserInfoResp_unknown_def by (auto intro: exI [of _ "[]"])

text \<open>What reading the encoding of \<open>m\<close> into \<open>m0\<close> gives.\<close>

definition UserInfoResp_merge :: "UserInfoResp \<Rightarrow> bytes list \<Rightarrow> UserInfoResp \<Rightarrow> UserInfoResp" where
  "UserInfoResp_merge m ks m0 =
     (let m1 = (if urCode m \<noteq> 0 then m0\<lparr>urCode := urCode m\<rparr> else m0);
          m2 = (if 0 < length (urMsg m) then m1\<lparr>urMsg := urMsg m\<rparr> else m1);
          m3 = (if 0 < length ks then m2\<lparr>urExtra := fold (\<lambda>k h. h(k \<mapsto> map_get (urExtra m) k)) (rev ks) (urExtra m2)\<rparr> else m2)
      in UserInfoResp_unrecognized (urUnrecognized m) m3)"

lemma fold_UserInfoResp_Extra:
  "fold (\<lambda>k m. m\<lparr>urExtra := (urExtra m)(k \<mapsto> map_get mp k)\<rparr>) ks =
     (\<lambda>m. m\<lparr>urExtra := fold (\<lambda>k h. h(k \<mapsto> map_get mp k)) ks (urExtra m)\<rparr>)"
  by (induction ks) (simp_all add: fun_eq_iff)

lemma UserInfoResp_reads:
  assumes "UserInfoResp_unknown (urUnrecognized m)"
  shows "reads UserInfoResp_fields UserInfoResp_unrecognized (enc_UserInfoResp m ks) (UserInfoResp_merge m ks)"
proof -
  obtain cs where cs: "list_all (unknown_chunk UserInfoResp_fields) cs" "urUnrecognized m = concat cs"
    using assms by (auto simp: UserInfoResp_unknown_def)
  have x1: "reads UserInfoResp_fields UserInfoResp_unrecognized (enc_varint_field 0x08 (scast (urCode m))) (\<lambda>m0. m0\<lparr>urCode := urCode m\<rparr>)"
    using info_resp.reads_varint [of "0x08" 1 "\<lambda>v m. m\<lparr>urCode := v\<rparr>" "scast (urCode m)"]
    by (simp add: tag_is_def UserInfoResp_fields_def UserInfoResp_handlers ucast_scast_i32)
  have x2: "reads UserInfoResp_fields UserInfoResp_unrecognized (enc_bytes_field 0x12 (urMsg m)) (\<lambda>m0. m0\<lparr>urMsg := urMsg m\<rparr>)"
    using info_resp.reads_bytes [of "0x12" 2 "\<lambda>s m. m\<lparr>urMsg := s\<rparr>" "urMsg m"]
    by (simp add: tag_is_def UserInfoResp_fields_def UserInfoResp_handlers)
  have x3: "reads UserInfoResp_fields UserInfoResp_unrecognized (enc_map 0x1a (urExtra m) ks)
      (\<lambda>m0. m0\<lparr>urExtra := fold (\<lambda>k h. h(k \<mapsto> map_get (urExtra m) k)) (rev ks) (urExtra m0)\<rparr>)"
    using info_resp.reads_map_checked [of "0x1a" 3 "\<lambda>k v m. m\<lparr>urExtra := (urExtra m)(k \<mapsto> v)\<rparr>" "urExtra m" ks]
    by (simp add: tag_is_def UserInfoResp_fields_def UserInfoResp_handlers fold_UserInfoResp_Extra)
  note rd = info_resp.reads_append [OF info_resp.reads_if [where c = "urCode m \<noteq> 0", OF x1]
      info_resp.reads_append [OF info_resp.reads_if [where c = "0 < length (urMsg m)", OF x2]
      info_resp.reads_append [OF info_resp.reads_if [where c = "0 < length ks", OF x3]
      info_resp.reads_unknowns [OF cs(1)]]]]
  then show ?thesis
    unfolding enc_UserInfoResp_def UserInfoResp_merge_def [abs_def] Let_def cs(2) .
qed

lemma UserInfoResp_merge_Reset:
  "range_order (urExtra m) ks \<Longrightarrow> UserInfoResp_merge m ks UserInfoResp_Reset = m"
  using fold_headers_back [of "urExtra m" ks]
  by (cases m) (simp add: UserInfoResp_merge_def UserInfoResp_Reset_def UserInfoResp_unrecognized_def Let_def)

lemma UserInfoResp_Unmarshal_enc:
  assumes "UserInfoResp_unknown (urUnrecognized m)" "go_slice (enc_UserInfoResp m ks)"
  shows "UserInfoResp_Unmarshal (enc_UserInfoResp m ks) m0 = Inr (UserInfoResp_merge m ks m0)"
  unfolding UserInfoResp_Unmarshal_def by (rule info_resp.unmarshal_reads [OF UserInfoResp_reads [OF assms(1)] assms(2)])

end
