(* ===== verification/Usernode_Requests.thy ===== *)
theory Usernode_Requests
  imports Usernode_Parts
begin

text \<open>
  The requests of the example service, \<open>CreateUserReq\<close> and \<open>UserInfoReq\<close> of \<open>example/protocol/usernode.pb.go\<close>. Each holds a pointer to
  an \<open>Authorize\<close>; \<open>ks\<close> is the order in which the map of that is ranged over.
\<close>

section \<open>CreateUserReq\<close>

record CreateUserReq =
  cqAuth :: "Authorize option"
  cqUsername :: bytes
  cqTelephone :: bytes
  cqEmail :: bytes
  cqUnrecognized :: bytes

definition CreateUserReq_Reset :: CreateUserReq where
  "CreateUserReq_Reset = \<lparr>cqAuth = None, cqUsername = [], cqTelephone = [], cqEmail = [], cqUnrecognized = []\<rparr>"

definition CreateUserReq_GetAuth :: "CreateUserReq option \<Rightarrow> Authorize option" where
  "CreateUserReq_GetAuth m = (case m of Some m \<Rightarrow> cqAuth m | None \<Rightarrow> None)"

definition CreateUserReq_GetUsername :: "CreateUserReq option \<Rightarrow> bytes" where
  "CreateUserReq_GetUsername m = (case m of Some m \<Rightarrow> cqUsername m | None \<Rightarrow> [])"

definition CreateUserReq_GetTelephone :: "CreateUserReq option \<Rightarrow> bytes" where
  "CreateUserReq_GetTelephone m = (case m of Some m \<Rightarrow> cqTelephone m | None \<Rightarrow> [])"

definition CreateUserReq_GetEmail :: "CreateUserReq option \<Rightarrow> bytes" where
  "CreateUserReq_GetEmail m = (case m of Some m \<Rightarrow> cqEmail m | None \<Rightarrow> [])"

definition CreateUserReq_Size :: "CreateUserReq option \<Rightarrow> bytes list \<Rightarrow> nat" where
  "CreateUserReq_Size m ks =
     (case m of None \<Rightarrow> 0
      | Some m \<Rightarrow>
          (if cqAuth m \<noteq> None then size_bytes_field (Authorize_Size (cqAuth m) ks) else 0)
        + (if 0 < length (cqUsername m) then size_bytes_field (length (cqUsername m)) else 0)
        + (if 0 < length (cqTelephone m) then size_bytes_field (length (cqTelephone m)) else 0)
        + (if 0 < length (cqEmail m) then size_bytes_field (length (cqEmail m)) else 0)
        + length (cqUnrecognized m))"

definition CreateUserReq_put :: "CreateUserReq \<Rightarrow> bytes list \<Rightarrow> wr \<Rightarrow> wr option" where
  "CreateUserReq_put m ks w = do {
     w \<leftarrow> wr_if (cqUnrecognized m \<noteq> []) (put_bytes (cqUnrecognized m)) w;
     w \<leftarrow> wr_if (0 < length (cqEmail m)) (put_bytes_field 0x22 (cqEmail m)) w;
     w \<leftarrow> wr_if (0 < length (cqTelephone m)) (put_bytes_field 0x1a (cqTelephone m)) w;
     w \<leftarrow> wr_if (0 < length (cqUsername m)) (put_bytes_field 0x12 (cqUsername m)) w;
     wr_option (cqAuth m) (\<lambda>a. put_message_field 0x0a (Authorize_MarshalToSizedBuffer a ks)) w
   }"

definition CreateUserReq_MarshalToSizedBuffer :: "CreateUserReq \<Rightarrow> bytes list \<Rightarrow> bytes \<Rightarrow> (bytes \<times> int) option" where
  "CreateUserReq_MarshalToSizedBuffer m ks dAtA = do {
     w \<leftarrow> CreateUserReq_put m ks (dAtA, int (length dAtA));
     Some (fst w, int (length dAtA) - snd w)
   }"

definition CreateUserReq_MarshalTo :: "CreateUserReq \<Rightarrow> bytes list \<Rightarrow> bytes list \<Rightarrow> bytes \<Rightarrow> (bytes \<times> int) option" where
  "CreateUserReq_MarshalTo m ks ks' dAtA =
     marshal_to_with (CreateUserReq_Size (Some m) ks) (CreateUserReq_MarshalToSizedBuffer m ks') dAtA"

definition CreateUserReq_Marshal :: "CreateUserReq \<Rightarrow> bytes list \<Rightarrow> bytes list \<Rightarrow> bytes option" where
  "CreateUserReq_Marshal m ks ks' =
     marshal_with (CreateUserReq_Size (Some m) ks) (CreateUserReq_MarshalToSizedBuffer m ks')"

definition CreateUserReq_unmarshal_Auth :: "CreateUserReq handler" where
  "CreateUserReq_unmarshal_Auth = message_field (\<lambda>s m.
     r_bind (Authorize_Unmarshal s (case cqAuth m of None \<Rightarrow> Authorize_Reset | Some a \<Rightarrow> a))
       (\<lambda>a. Inr (m\<lparr>cqAuth := Some a\<rparr>)))"

definition CreateUserReq_unmarshal_Username :: "CreateUserReq handler" where
  "CreateUserReq_unmarshal_Username = bytes_field (\<lambda>s m. m\<lparr>cqUsername := s\<rparr>)"

definition CreateUserReq_unmarshal_Telephone :: "CreateUserReq handler" where
  "CreateUserReq_unmarshal_Telephone = bytes_field (\<lambda>s m. m\<lparr>cqTelephone := s\<rparr>)"

definition CreateUserReq_unmarshal_Email :: "CreateUserReq handler" where
  "CreateUserReq_unmarshal_Email = bytes_field (\<lambda>s m. m\<lparr>cqEmail := s\<rparr>)"

definition CreateUserReq_fields :: "int \<Rightarrow> CreateUserReq handler option" where
  "CreateUserReq_fields fieldNum =
     (if fieldNum = 1 then Some CreateUserReq_unmarshal_Auth
      else if fieldNum = 2 then Some CreateUserReq_unmarshal_Username
      else if fieldNum = 3 then Some CreateUserReq_unmarshal_Telephone
      else if fieldNum = 4 then Some CreateUserReq_unmarshal_Email
      else None)"

definition CreateUserReq_unrecognized :: "bytes \<Rightarrow> CreateUserReq \<Rightarrow> CreateUserReq" where
  "CreateUserReq_unrecognized s m = m\<lparr>cqUnrecognized := cqUnrecognized m @ s\<rparr>"

definition CreateUserReq_Unmarshal :: "bytes \<Rightarrow> CreateUserReq \<Rightarrow> perr + CreateUserReq" where
  "CreateUserReq_Unmarshal dAtA m = unmarshal_with CreateUserReq_fields CreateUserReq_unrecognized dAtA m"

lemmas CreateUserReq_handlers = CreateUserReq_unmarshal_Auth_def CreateUserReq_unmarshal_Username_def CreateUserReq_unmarshal_Telephone_def CreateUserReq_unmarshal_Email_def

interpretation create_req: wire_message CreateUserReq_fields CreateUserReq_unrecognized
  by unfold_locales
    (auto simp: CreateUserReq_fields_def CreateUserReq_handlers CreateUserReq_unrecognized_def r_iffs Authorize_Unmarshal_total
      intro!: advancing_rules split: if_splits)

lemma CreateUserReq_Unmarshal_total: "go_slice d \<Longrightarrow> CreateUserReq_Unmarshal d m \<noteq> Inl OutOfFuel"
  unfolding CreateUserReq_Unmarshal_def by (rule create_req.unmarshal_total)

lemma CreateUserReq_Unmarshal_safe: "go_slice d \<Longrightarrow> CreateUserReq_Unmarshal d m \<noteq> Inl GoPanic"
  unfolding CreateUserReq_Unmarshal_def
  by (rule create_req.unmarshal_no_panic)
    (auto simp: CreateUserReq_fields_def CreateUserReq_handlers r_iffs Authorize_Unmarshal_safe intro!: panic_free_rules split: if_splits)

text \<open>The reference encoding, and what \<open>Marshal\<close> has to do with it.\<close>

definition enc_CreateUserReq :: "CreateUserReq \<Rightarrow> bytes list \<Rightarrow> bytes" where
  "enc_CreateUserReq m ks =
     (case cqAuth m of None \<Rightarrow> [] | Some a \<Rightarrow> enc_bytes_field 0x0a (enc_Authorize a ks)) @
     (if 0 < length (cqUsername m) then enc_bytes_field 0x12 (cqUsername m) else []) @
     (if 0 < length (cqTelephone m) then enc_bytes_field 0x1a (cqTelephone m) else []) @
     (if 0 < length (cqEmail m) then enc_bytes_field 0x22 (cqEmail m) else []) @
     cqUnrecognized m"

lemma emits_CreateUserReq: "emits (CreateUserReq_put m ks) (enc_CreateUserReq m ks)"
  unfolding CreateUserReq_put_def [abs_def] enc_CreateUserReq_def
  by (rule emits_eq, (rule emit_rules fills_Authorize)+) simp

lemma length_enc_CreateUserReq: "length (enc_CreateUserReq m ks) = CreateUserReq_Size (Some m) ks"
  by (simp add: enc_CreateUserReq_def CreateUserReq_Size_def length_enc_Authorize split: option.splits)

lemma fills_CreateUserReq: "fills (CreateUserReq_MarshalToSizedBuffer m ks) (enc_CreateUserReq m ks)"
  using fills_intro [OF emits_CreateUserReq] by (simp add: CreateUserReq_MarshalToSizedBuffer_def [abs_def])

lemma CreateUserReq_Size_order:
  "pred_option (\<lambda>a. range_order (auExtra a) ks) (cqAuth m) \<Longrightarrow> pred_option (\<lambda>a. range_order (auExtra a) ks') (cqAuth m) \<Longrightarrow>
     CreateUserReq_Size (Some m) ks = CreateUserReq_Size (Some m) ks'"
  using Authorize_Size_order [of "the (cqAuth m)" ks ks'] by (cases "cqAuth m") (simp_all add: CreateUserReq_Size_def)

lemma CreateUserReq_Marshal_enc:
  assumes "pred_option (\<lambda>a. range_order (auExtra a) ks) (cqAuth m)" "pred_option (\<lambda>a. range_order (auExtra a) ks') (cqAuth m)"
  shows "CreateUserReq_Marshal m ks ks' = Some (enc_CreateUserReq m ks')"
  using marshal_with_fills [OF fills_CreateUserReq, of m ks'] CreateUserReq_Size_order [OF assms]
  by (simp add: CreateUserReq_Marshal_def length_enc_CreateUserReq)

definition CreateUserReq_unknown :: "CreateUserReq \<Rightarrow> bool" where
  "CreateUserReq_unknown m \<longleftrightarrow>
     (\<exists>cs. list_all (unknown_chunk CreateUserReq_fields) cs \<and> cqUnrecognized m = concat cs) \<and>
     pred_option (\<lambda>a. Authorize_unknown (auUnrecognized a)) (cqAuth m)"

text \<open>What reading the encoding of \<open>m\<close> into \<open>m0\<close> gives.\<close>

definition CreateUserReq_merge :: "CreateUserReq \<Rightarrow> bytes list \<Rightarrow> CreateUserReq \<Rightarrow> CreateUserReq" where
  "CreateUserReq_merge m ks m0 =
     (let m1 = (case cqAuth m of None \<Rightarrow> (\<lambda>m. m) | Some a \<Rightarrow> (\<lambda>m. m\<lparr>cqAuth := Some (Authorize_merge a ks
                  (case cqAuth m of None \<Rightarrow> Authorize_Reset | Some a \<Rightarrow> a))\<rparr>)) m0;
          m2 = (if 0 < length (cqUsername m) then m1\<lparr>cqUsername := cqUsername m\<rparr> else m1);
          m3 = (if 0 < length (cqTelephone m) then m2\<lparr>cqTelephone := cqTelephone m\<rparr> else m2);
          m4 = (if 0 < length (cqEmail m) then m3\<lparr>cqEmail := cqEmail m\<rparr> else m3)
      in CreateUserReq_unrecognized (cqUnrecognized m) m4)"

lemma CreateUserReq_reads_Auth:
  assumes "Authorize_unknown (auUnrecognized a)" "go_slice (enc_Authorize a ks)"
  shows "reads CreateUserReq_fields CreateUserReq_unrecognized (enc_bytes_field 0x0a (enc_Authorize a ks))
     (\<lambda>m. m\<lparr>cqAuth := Some (Authorize_merge a ks (case cqAuth m of None \<Rightarrow> Authorize_Reset | Some a \<Rightarrow> a))\<rparr>)"
proof (rule create_req.reads_message)
  show "tag_is 0x0a 1 2" by (simp add: tag_is_def)
  show "CreateUserReq_fields 1 = Some (message_field (\<lambda>s m.
      r_bind (Authorize_Unmarshal s (case cqAuth m of None \<Rightarrow> Authorize_Reset | Some a \<Rightarrow> a))
        (\<lambda>a. Inr (m\<lparr>cqAuth := Some a\<rparr>))))"
    by (simp add: CreateUserReq_fields_def CreateUserReq_handlers)
qed (simp add: Authorize_Unmarshal_enc [OF assms])

lemma CreateUserReq_reads:
  assumes "CreateUserReq_unknown m" "go_slice (enc_CreateUserReq m ks)"
  shows "reads CreateUserReq_fields CreateUserReq_unrecognized (enc_CreateUserReq m ks) (CreateUserReq_merge m ks)"
proof -
  obtain cs where cs: "list_all (unknown_chunk CreateUserReq_fields) cs" "cqUnrecognized m = concat cs"
    using assms(1) by (auto simp: CreateUserReq_unknown_def)
  have x1: "reads CreateUserReq_fields CreateUserReq_unrecognized (enc_bytes_field 0x0a (enc_Authorize a ks))
      (\<lambda>m. m\<lparr>cqAuth := Some (Authorize_merge a ks (case cqAuth m of None \<Rightarrow> Authorize_Reset | Some a \<Rightarrow> a))\<rparr>)"
    if "cqAuth m = Some a" for a
    using assms that by (intro CreateUserReq_reads_Auth) (auto simp: CreateUserReq_unknown_def enc_CreateUserReq_def go_slice_def size_bytes_field_def)
  have x2: "reads CreateUserReq_fields CreateUserReq_unrecognized (enc_bytes_field 0x12 (cqUsername m)) (\<lambda>m0. m0\<lparr>cqUsername := cqUsername m\<rparr>)"
    using create_req.reads_bytes [of "0x12" 2 "\<lambda>s m. m\<lparr>cqUsername := s\<rparr>" "cqUsername m"]
    by (simp add: tag_is_def CreateUserReq_fields_def CreateUserReq_handlers)
  have x3: "reads CreateUserReq_fields CreateUserReq_unrecognized (enc_bytes_field 0x1a (cqTelephone m)) (\<lambda>m0. m0\<lparr>cqTelephone := cqTelephone m\<rparr>)"
    using create_req.reads_bytes [of "0x1a" 3 "\<lambda>s m. m\<lparr>cqTelephone := s\<rparr>" "cqTelephone m"]
    by (simp add: tag_is_def CreateUserReq_fields_def CreateUserReq_handlers)
  have x4: "reads CreateUserReq_fields CreateUserReq_unrecognized (enc_bytes_field 0x22 (cqEmail m)) (\<lambda>m0. m0\<lparr>cqEmail := cqEmail m\<rparr>)"
    using create_req.reads_bytes [of "0x22" 4 "\<lambda>s m. m\<lparr>cqEmail := s\<rparr>" "cqEmail m"]
    by (simp add: tag_is_def CreateUserReq_fields_def CreateUserReq_handlers)
  note rd = create_req.reads_append [OF create_req.reads_option [where v = "cqAuth m", OF x1]
      create_req.reads_append [OF create_req.reads_if [where c = "0 < length (cqUsername m)", OF x2]
      create_req.reads_append [OF create_req.reads_if [where c = "0 < length (cqTelephone m)", OF x3]
      create_req.reads_append [OF create_req.reads_if [where c = "0 < length (cqEmail m)", OF x4]
      create_req.reads_unknowns [OF cs(1)]]]]]
  then show ?thesis
    unfolding enc_CreateUserReq_def CreateUserReq_merge_def [abs_def] Let_def cs(2) .
qed

lemma CreateUserReq_merge_Reset:
  "pred_option (\<lambda>a. range_order (auExtra a) ks) (cqAuth m) \<Longrightarrow> CreateUserReq_merge m ks CreateUserReq_Reset = m"
proof (cases "cqAuth m")
  case None
  then show ?thesis
    by (cases m) (simp add: CreateUserReq_merge_def CreateUserReq_Reset_def CreateUserReq_unrecognized_def Let_def)
next
  case (Some a)
  moreover assume "pred_option (\<lambda>a. range_order (auExtra a) ks) (cqAuth m)"
  ultimately have "Authorize_merge a ks Authorize_Reset = a" by (simp add: Authorize_merge_Reset)
  with Some show ?thesis
    by (cases m) (simp add: CreateUserReq_merge_def CreateUserReq_Reset_def CreateUserReq_unrecognized_def Let_def)
qed

lemma CreateUserReq_Unmarshal_enc:
  assumes "CreateUserReq_unknown m" "go_slice (enc_CreateUserReq m ks)"
  shows "CreateUserReq_Unmarshal (enc_CreateUserReq m ks) m0 = Inr (CreateUserReq_merge m ks m0)"
  unfolding CreateUserReq_Unmarshal_def by (rule create_req.unmarshal_reads [OF CreateUserReq_reads [OF assms] assms(2)])

section \<open>UserInfoReq\<close>

record UserInfoReq =
  uqAuth :: "Authorize option"
  uqUsername :: bytes
  uqUnrecognized :: bytes

definition UserInfoReq_Reset :: UserInfoReq where
  "UserInfoReq_Reset = \<lparr>uqAuth = None, uqUsername = [], uqUnrecognized = []\<rparr>"

definition UserInfoReq_GetAuth :: "UserInfoReq option \<Rightarrow> Authorize option" where
  "UserInfoReq_GetAuth m = (case m of Some m \<Rightarrow> uqAuth m | None \<Rightarrow> None)"

definition UserInfoReq_GetUsername :: "UserInfoReq option \<Rightarrow> bytes" where
  "UserInfoReq_GetUsername m = (case m of Some m \<Rightarrow> uqUsername m | None \<Rightarrow> [])"

definition UserInfoReq_Size :: "UserInfoReq option \<Rightarrow> bytes list \<Rightarrow> nat" where
  "UserInfoReq_Size m ks =
     (case m of None \<Rightarrow> 0
      | Some m \<Rightarrow>
          (if uqAuth m \<noteq> None then size_bytes_field (Authorize_Size (uqAuth m) ks) else 0)
        + (if 0 < length (uqUsername m) then size_bytes_field (length (uqUsername m)) else 0)
        + length (uqUnrecognized m))"

definition UserInfoReq_put :: "UserInfoReq \<Rightarrow> bytes list \<Rightarrow> wr \<Rightarrow> wr option" where
  "UserInfoReq_put m ks w = do {
     w \<leftarrow> wr_if (uqUnrecognized m \<noteq> []) (put_bytes (uqUnrecognized m)) w;
     w \<leftarrow> wr_if (0 < length (uqUsername m)) (put_bytes_field 0x12 (uqUsername m)) w;
     wr_option (uqAuth m) (\<lambda>a. put_message_field 0x0a (Authorize_MarshalToSizedBuffer a ks)) w
   }"

definition UserInfoReq_MarshalToSizedBuffer :: "UserInfoReq \<Rightarrow> bytes list \<Rightarrow> bytes \<Rightarrow> (bytes \<times> int) option" where
  "UserInfoReq_MarshalToSizedBuffer m ks dAtA = do {
     w \<leftarrow> UserInfoReq_put m ks (dAtA, int (length dAtA));
     Some (fst w, int (length dAtA) - snd w)
   }"

definition UserInfoReq_MarshalTo :: "UserInfoReq \<Rightarrow> bytes list \<Rightarrow> bytes list \<Rightarrow> bytes \<Rightarrow> (bytes \<times> int) option" where
  "UserInfoReq_MarshalTo m ks ks' dAtA =
     marshal_to_with (UserInfoReq_Size (Some m) ks) (UserInfoReq_MarshalToSizedBuffer m ks') dAtA"

definition UserInfoReq_Marshal :: "UserInfoReq \<Rightarrow> bytes list \<Rightarrow> bytes list \<Rightarrow> bytes option" where
  "UserInfoReq_Marshal m ks ks' =
     marshal_with (UserInfoReq_Size (Some m) ks) (UserInfoReq_MarshalToSizedBuffer m ks')"

definition UserInfoReq_unmarshal_Auth :: "UserInfoReq handler" where
  "UserInfoReq_unmarshal_Auth = message_field (\<lambda>s m.
     r_bind (Authorize_Unmarshal s (case uqAuth m of None \<Rightarrow> Authorize_Reset | Some a \<Rightarrow> a))
       (\<lambda>a. Inr (m\<lparr>uqAuth := Some a\<rparr>)))"

definition UserInfoReq_unmarshal_Username :: "UserInfoReq handler" where
  "UserInfoReq_unmarshal_Username = bytes_field (\<lambda>s m. m\<lparr>uqUsername := s\<rparr>)"

definition UserInfoReq_fields :: "int \<Rightarrow> UserInfoReq handler option" where
  "UserInfoReq_fields fieldNum =
     (if fieldNum = 1 then Some UserInfoReq_unmarshal_Auth
      else if fieldNum = 2 then Some UserInfoReq_unmarshal_Username
      else None)"

definition UserInfoReq_unrecognized :: "bytes \<Rightarrow> UserInfoReq \<Rightarrow> UserInfoReq" where
  "UserInfoReq_unrecognized s m = m\<lparr>uqUnrecognized := uqUnrecognized m @ s\<rparr>"

definition UserInfoReq_Unmarshal :: "bytes \<Rightarrow> UserInfoReq \<Rightarrow> perr + UserInfoReq" where
  "UserInfoReq_Unmarshal dAtA m = unmarshal_with UserInfoReq_fields UserInfoReq_unrecognized dAtA m"

lemmas UserInfoReq_handlers = UserInfoReq_unmarshal_Auth_def UserInfoReq_unmarshal_Username_def

interpretation info_req: wire_message UserInfoReq_fields UserInfoReq_unrecognized
  by unfold_locales
    (auto simp: UserInfoReq_fields_def UserInfoReq_handlers UserInfoReq_unrecognized_def r_iffs Authorize_Unmarshal_total
      intro!: advancing_rules split: if_splits)

lemma UserInfoReq_Unmarshal_total: "go_slice d \<Longrightarrow> UserInfoReq_Unmarshal d m \<noteq> Inl OutOfFuel"
  unfolding UserInfoReq_Unmarshal_def by (rule info_req.unmarshal_total)

lemma UserInfoReq_Unmarshal_safe: "go_slice d \<Longrightarrow> UserInfoReq_Unmarshal d m \<noteq> Inl GoPanic"
  unfolding UserInfoReq_Unmarshal_def
  by (rule info_req.unmarshal_no_panic)
    (auto simp: UserInfoReq_fields_def UserInfoReq_handlers r_iffs Authorize_Unmarshal_safe intro!: panic_free_rules split: if_splits)

text \<open>The reference encoding, and what \<open>Marshal\<close> has to do with it.\<close>

definition enc_UserInfoReq :: "UserInfoReq \<Rightarrow> bytes list \<Rightarrow> bytes" where
  "enc_UserInfoReq m ks =
     (case uqAuth m of None \<Rightarrow> [] | Some a \<Rightarrow> enc_bytes_field 0x0a (enc_Authorize a ks)) @
     (if 0 < length (uqUsername m) then enc_bytes_field 0x12 (uqUsername m) else []) @
     uqUnrecognized m"

lemma emits_UserInfoReq: "emits (UserInfoReq_put m ks) (enc_UserInfoReq m ks)"
  unfolding UserInfoReq_put_def [abs_def] enc_UserInfoReq_def
  by (rule emits_eq, (rule emit_rules fills_Authorize)+) simp

lemma length_enc_UserInfoReq: "length (enc_UserInfoReq m ks) = UserInfoReq_Size (Some m) ks"
  by (simp add: enc_UserInfoReq_def UserInfoReq_Size_def length_enc_Authorize split: option.splits)

lemma fills_UserInfoReq: "fills (UserInfoReq_MarshalToSizedBuffer m ks) (enc_UserInfoReq m ks)"
  using fills_intro [OF emits_UserInfoReq] by (simp add: UserInfoReq_MarshalToSizedBuffer_def [abs_def])

lemma UserInfoReq_Size_order:
  "pred_option (\<lambda>a. range_order (auExtra a) ks) (uqAuth m) \<Longrightarrow> pred_option (\<lambda>a. range_order (auExtra a) ks') (uqAuth m) \<Longrightarrow>
     UserInfoReq_Size (Some m) ks = UserInfoReq_Size (Some m) ks'"
  using Authorize_Size_order [of "the (uqAuth m)" ks ks'] by (cases "uqAuth m") (simp_all add: UserInfoReq_Size_def)

lemma UserInfoReq_Marshal_enc:
  assumes "pred_option (\<lambda>a. range_order (auExtra a) ks) (uqAuth m)" "pred_option (\<lambda>a. range_order (auExtra a) ks') (uqAuth m)"
  shows "UserInfoReq_Marshal m ks ks' = Some (enc_UserInfoReq m ks')"
  using marshal_with_fills [OF fills_UserInfoReq, of m ks'] UserInfoReq_Size_order [OF assms]
  by (simp add: UserInfoReq_Marshal_def length_enc_UserInfoReq)

definition UserInfoReq_unknown :: "UserInfoReq \<Rightarrow> bool" where
  "UserInfoReq_unknown m \<longleftrightarrow>
     (\<exists>cs. list_all (unknown_chunk UserInfoReq_fields) cs \<and> uqUnrecognized m = concat cs) \<and>
     pred_option (\<lambda>a. Authorize_unknown (auUnrecognized a)) (uqAuth m)"

text \<open>What reading the encoding of \<open>m\<close> into \<open>m0\<close> gives.\<close>

definition UserInfoReq_merge :: "UserInfoReq \<Rightarrow> bytes list \<Rightarrow> UserInfoReq \<Rightarrow> UserInfoReq" where
  "UserInfoReq_merge m ks m0 =
     (let m1 = (case uqAuth m of None \<Rightarrow> (\<lambda>m. m) | Some a \<Rightarrow> (\<lambda>m. m\<lparr>uqAuth := Some (Authorize_merge a ks
                  (case uqAuth m of None \<Rightarrow> Authorize_Reset | Some a \<Rightarrow> a))\<rparr>)) m0;
          m2 = (if 0 < length (uqUsername m) then m1\<lparr>uqUsername := uqUsername m\<rparr> else m1)
      in UserInfoReq_unrecognized (uqUnrecognized m) m2)"

lemma UserInfoReq_reads_Auth:
  assumes "Authorize_unknown (auUnrecognized a)" "go_slice (enc_Authorize a ks)"
  shows "reads UserInfoReq_fields UserInfoReq_unrecognized (enc_bytes_field 0x0a (enc_Authorize a ks))
     (\<lambda>m. m\<lparr>uqAuth := Some (Authorize_merge a ks (case uqAuth m of None \<Rightarrow> Authorize_Reset | Some a \<Rightarrow> a))\<rparr>)"
proof (rule info_req.reads_message)
  show "tag_is 0x0a 1 2" by (simp add: tag_is_def)
  show "UserInfoReq_fields 1 = Some (message_field (\<lambda>s m.
      r_bind (Authorize_Unmarshal s (case uqAuth m of None \<Rightarrow> Authorize_Reset | Some a \<Rightarrow> a))
        (\<lambda>a. Inr (m\<lparr>uqAuth := Some a\<rparr>))))"
    by (simp add: UserInfoReq_fields_def UserInfoReq_handlers)
qed (simp add: Authorize_Unmarshal_enc [OF assms])

lemma UserInfoReq_reads:
  assumes "UserInfoReq_unknown m" "go_slice (enc_UserInfoReq m ks)"
  shows "reads UserInfoReq_fields UserInfoReq_unrecognized (enc_UserInfoReq m ks) (UserInfoReq_merge m ks)"
proof -
  obtain cs where cs: "list_all (unknown_chunk UserInfoReq_fields) cs" "uqUnrecognized m = concat cs"
    using assms(1) by (auto simp: UserInfoReq_unknown_def)
  have x1: "reads UserInfoReq_fields UserInfoReq_unrecognized (enc_bytes_field 0x0a (enc_Authorize a ks))
      (\<lambda>m. m\<lparr>uqAuth := Some (Authorize_merge a ks (case uqAuth m of None \<Rightarrow> Authorize_Reset | Some a \<Rightarrow> a))\<rparr>)"
    if "uqAuth m = Some a" for a
    using assms that by (intro UserInfoReq_reads_Auth) (auto simp: UserInfoReq_unknown_def enc_UserInfoReq_def go_slice_def size_bytes_field_def)
  have x2: "reads UserInfoReq_fields UserInfoReq_unrecognized (enc_bytes_field 0x12 (uqUsername m)) (\<lambda>m0. m0\<lparr>uqUsername := uqUsername m\<rparr>)"
    using info_req.reads_bytes [of "0x12" 2 "\<lambda>s m. m\<lparr>uqUsername := s\<rparr>" "uqUsername m"]
    by (simp add: tag_is_def UserInfoReq_fields_def UserInfoReq_handlers)
  note rd = info_req.reads_append [OF info_req.reads_option [where v = "uqAuth m", OF x1]
      info_req.reads_append [OF info_req.reads_if [where c = "0 < length (uqUsername m)", OF x2]
      info_req.reads_unknowns [OF cs(1)]]]
  then show ?thesis
    unfolding enc_UserInfoReq_def UserInfoReq_merge_def [abs_def] Let_def cs(2) .
qed

lemma UserInfoReq_merge_Reset:
  "pred_option (\<lambda>a. range_order (auExtra a) ks) (uqAuth m) \<Longrightarrow> UserInfoReq_merge m ks UserInfoReq_Reset = m"
proof (cases "uqAuth m")
  case None
  then show ?thesis
    by (cases m) (simp add: UserInfoReq_merge_def UserInfoReq_Reset_def UserInfoReq_unrecognized_def Let_def)
next
  case (Some a)
  moreover assume "pred_option (\<lambda>a. range_order (auExtra a) ks) (uqAuth m)"
  ultimately have "Authorize_merge a ks Authorize_Reset = a" by (simp add: Authorize_merge_Reset)
  with Some show ?thesis
    by (cases m) (simp add: UserInfoReq_merge_def UserInfoReq_Reset_def UserInfoReq_unrecognized_def Let_def)
qed

lemma UserInfoReq_Unmarshal_enc:
  assumes "UserInfoReq_unknown m" "go_slice (enc_UserInfoReq m ks)"
  shows "UserInfoReq_Unmarshal (enc_UserInfoReq m ks) m0 = Inr (UserInfoReq_merge m ks m0)"
  unfolding UserInfoReq_Unmarshal_def by (rule info_req.unmarshal_reads [OF UserInfoReq_reads [OF assms] assms(2)])

end
