(* ===== verification/Wire_Library.thy ===== *)
theory Wire_Library
  imports Packet_Metric Usernode_Requests
begin

text \<open>
  The generated methods through which the protobuf library itself uses a message (\<open>XXX_Size\<close>, \<open>XXX_Marshal\<close> and \<open>XXX_Unmarshal\<close> of
  \<open>proto/packet.pb.go\<close> and \<open>example/protocol/usernode.pb.go\<close>), and the tables of the enum's names. What the library does of its own
  (deterministic marshalling, naming an enum's value) are arguments.
\<close>

section \<open>Slices with a capacity\<close>

text \<open>An array up to the slice's capacity, and the length of the slice.\<close>

type_synonym slice = "bytes \<times> nat"

definition slice_bytes :: "slice \<Rightarrow> bytes" where
  "slice_bytes b = take (snd b) (fst b)"

text \<open>\<^verbatim>\<open>b = b[:cap(b)]; n, err := m.MarshalToSizedBuffer(b); return b[:n], nil\<close>\<close>

definition xxx_marshal_with ::
    "(slice \<Rightarrow> bool \<Rightarrow> slice option) \<Rightarrow> (bytes \<Rightarrow> (bytes \<times> int) option) \<Rightarrow> slice \<Rightarrow> bool \<Rightarrow> slice option" where
  "xxx_marshal_with info to_sized b deterministic =
     (if deterministic then info b deterministic
      else do {
        (arr, n) \<leftarrow> to_sized (fst b);
        if 0 \<le> n \<and> n \<le> int (length arr) then Some (arr, nat n) else None
      })"

section \<open>The messages\<close>

definition Request_XXX_Size :: "Request option \<Rightarrow> bytes list \<Rightarrow> nat" where
  "Request_XXX_Size m ks = Request_Size m ks"

definition Request_XXX_Marshal :: "(slice \<Rightarrow> bool \<Rightarrow> slice option) \<Rightarrow> Request \<Rightarrow> bytes list \<Rightarrow> slice \<Rightarrow> bool \<Rightarrow> slice option" where
  "Request_XXX_Marshal info m ks = xxx_marshal_with info (Request_MarshalToSizedBuffer m ks)"

definition Request_XXX_Unmarshal :: "bytes \<Rightarrow> Request \<Rightarrow> perr + Request" where
  "Request_XXX_Unmarshal b m = Request_Unmarshal b m"

definition Response_XXX_Size :: "Response option \<Rightarrow> bytes list \<Rightarrow> nat" where
  "Response_XXX_Size m ks = Response_Size m ks"

definition Response_XXX_Marshal :: "(slice \<Rightarrow> bool \<Rightarrow> slice option) \<Rightarrow> Response \<Rightarrow> bytes list \<Rightarrow> slice \<Rightarrow> bool \<Rightarrow> slice option" where
  "Response_XXX_Marshal info m ks = xxx_marshal_with info (Response_MarshalToSizedBuffer m ks)"

definition Response_XXX_Unmarshal :: "bytes \<Rightarrow> Response \<Rightarrow> perr + Response" where
  "Response_XXX_Unmarshal b m = Response_Unmarshal b m"

definition Counter_XXX_Size :: "Counter option \<Rightarrow> bytes list \<Rightarrow> nat" where
  "Counter_XXX_Size m ks = Counter_Size m ks"

definition Counter_XXX_Marshal :: "(slice \<Rightarrow> bool \<Rightarrow> slice option) \<Rightarrow> Counter \<Rightarrow> bytes list \<Rightarrow> slice \<Rightarrow> bool \<Rightarrow> slice option" where
  "Counter_XXX_Marshal info m ks = xxx_marshal_with info (Counter_MarshalToSizedBuffer m ks)"

definition Counter_XXX_Unmarshal :: "bytes \<Rightarrow> Counter \<Rightarrow> perr + Counter" where
  "Counter_XXX_Unmarshal b m = Counter_Unmarshal b m"

definition Gauge_XXX_Size :: "Gauge option \<Rightarrow> bytes list \<Rightarrow> nat" where
  "Gauge_XXX_Size m ks = Gauge_Size m ks"

definition Gauge_XXX_Marshal :: "(slice \<Rightarrow> bool \<Rightarrow> slice option) \<Rightarrow> Gauge \<Rightarrow> bytes list \<Rightarrow> slice \<Rightarrow> bool \<Rightarrow> slice option" where
  "Gauge_XXX_Marshal info m ks = xxx_marshal_with info (Gauge_MarshalToSizedBuffer m ks)"

definition Gauge_XXX_Unmarshal :: "bytes \<Rightarrow> Gauge \<Rightarrow> perr + Gauge" where
  "Gauge_XXX_Unmarshal b m = Gauge_Unmarshal b m"

definition Summary_XXX_Size :: "Summary option \<Rightarrow> bytes list \<Rightarrow> nat" where
  "Summary_XXX_Size m ks = Summary_Size m ks"

definition Summary_XXX_Marshal :: "(slice \<Rightarrow> bool \<Rightarrow> slice option) \<Rightarrow> Summary \<Rightarrow> bytes list \<Rightarrow> slice \<Rightarrow> bool \<Rightarrow> slice option" where
  "Summary_XXX_Marshal info m ks = xxx_marshal_with info (Summary_MarshalToSizedBuffer m ks)"

definition Summary_XXX_Unmarshal :: "bytes \<Rightarrow> Summary \<Rightarrow> perr + Summary" where
  "Summary_XXX_Unmarshal b m = Summary_Unmarshal b m"

definition Metric_XXX_Size :: "Metric option \<Rightarrow> Metric_ranges \<Rightarrow> nat" where
  "Metric_XXX_Size m ks = Metric_Size m ks"

definition Metric_XXX_Marshal :: "(slice \<Rightarrow> bool \<Rightarrow> slice option) \<Rightarrow> Metric option \<Rightarrow> Metric_ranges \<Rightarrow> slice \<Rightarrow> bool \<Rightarrow> slice option" where
  "Metric_XXX_Marshal info m ks = xxx_marshal_with info (Metric_MarshalToSizedBuffer m ks)"

definition Metric_XXX_Unmarshal :: "bytes \<Rightarrow> Metric \<Rightarrow> perr + Metric" where
  "Metric_XXX_Unmarshal b m = Metric_Unmarshal b m"

definition Metrics_XXX_Size :: "Metrics option \<Rightarrow> (nat \<Rightarrow> Metric_ranges) \<Rightarrow> nat" where
  "Metrics_XXX_Size m ks = Metrics_Size m ks"

definition Metrics_XXX_Marshal :: "(slice \<Rightarrow> bool \<Rightarrow> slice option) \<Rightarrow> Metrics \<Rightarrow> (nat \<Rightarrow> Metric_ranges) \<Rightarrow> slice \<Rightarrow> bool \<Rightarrow> slice option" where
  "Metrics_XXX_Marshal info m ks = xxx_marshal_with info (Metrics_MarshalToSizedBuffer m ks)"

definition Metrics_XXX_Unmarshal :: "bytes \<Rightarrow> Metrics \<Rightarrow> perr + Metrics" where
  "Metrics_XXX_Unmarshal b m = Metrics_Unmarshal b m"

definition Authorize_XXX_Size :: "Authorize option \<Rightarrow> bytes list \<Rightarrow> nat" where
  "Authorize_XXX_Size m ks = Authorize_Size m ks"

definition Authorize_XXX_Marshal :: "(slice \<Rightarrow> bool \<Rightarrow> slice option) \<Rightarrow> Authorize \<Rightarrow> bytes list \<Rightarrow> slice \<Rightarrow> bool \<Rightarrow> slice option" where
  "Authorize_XXX_Marshal info m ks = xxx_marshal_with info (Authorize_MarshalToSizedBuffer m ks)"

definition Authorize_XXX_Unmarshal :: "bytes \<Rightarrow> Authorize \<Rightarrow> perr + Authorize" where
  "Authorize_XXX_Unmarshal b m = Authorize_Unmarshal b m"

definition CreateUserReq_XXX_Size :: "CreateUserReq option \<Rightarrow> bytes list \<Rightarrow> nat" where
  "CreateUserReq_XXX_Size m ks = CreateUserReq_Size m ks"

definition CreateUserReq_XXX_Marshal :: "(slice \<Rightarrow> bool \<Rightarrow> slice option) \<Rightarrow> CreateUserReq \<Rightarrow> bytes list \<Rightarrow> slice \<Rightarrow> bool \<Rightarrow> slice option" where
  "CreateUserReq_XXX_Marshal info m ks = xxx_marshal_with info (CreateUserReq_MarshalToSizedBuffer m ks)"

definition CreateUserReq_XXX_Unmarshal :: "bytes \<Rightarrow> CreateUserReq \<Rightarrow> perr + CreateUserReq" where
  "CreateUserReq_XXX_Unmarshal b m = CreateUserReq_Unmarshal b m"

definition CreateUserResp_XXX_Size :: "CreateUserResp option \<Rightarrow> bytes list \<Rightarrow> nat" where
  "CreateUserResp_XXX_Size m ks = CreateUserResp_Size m ks"

definition CreateUserResp_XXX_Marshal :: "(slice \<Rightarrow> bool \<Rightarrow> slice option) \<Rightarrow> CreateUserResp \<Rightarrow> bytes list \<Rightarrow> slice \<Rightarrow> bool \<Rightarrow> slice option" where
  "CreateUserResp_XXX_Marshal info m ks = xxx_marshal_with info (CreateUserResp_MarshalToSizedBuffer m ks)"

definition CreateUserResp_XXX_Unmarshal :: "bytes \<Rightarrow> CreateUserResp \<Rightarrow> perr + CreateUserResp" where
  "CreateUserResp_XXX_Unmarshal b m = CreateUserResp_Unmarshal b m"

definition UserInfoReq_XXX_Size :: "UserInfoReq option \<Rightarrow> bytes list \<Rightarrow> nat" where
  "UserInfoReq_XXX_Size m ks = UserInfoReq_Size m ks"

definition UserInfoReq_XXX_Marshal :: "(slice \<Rightarrow> bool \<Rightarrow> slice option) \<Rightarrow> UserInfoReq \<Rightarrow> bytes list \<Rightarrow> slice \<Rightarrow> bool \<Rightarrow> slice option" where
  "UserInfoReq_XXX_Marshal info m ks = xxx_marshal_with info (UserInfoReq_MarshalToSizedBuffer m ks)"

definition UserInfoReq_XXX_Unmarshal :: "bytes \<Rightarrow> UserInfoReq \<Rightarrow> perr + UserInfoReq" where
  "UserInfoReq_XXX_Unmarshal b m = UserInfoReq_Unmarshal b m"

definition UserInfoResp_XXX_Size :: "UserInfoResp option \<Rightarrow> bytes list \<Rightarrow> nat" where
  "UserInfoResp_XXX_Size m ks = UserInfoResp_Size m ks"

definition UserInfoResp_XXX_Marshal :: "(slice \<Rightarrow> bool \<Rightarrow> slice option) \<Rightarrow> UserInfoResp \<Rightarrow> bytes list \<Rightarrow> slice \<Rightarrow> bool \<Rightarrow> slice option" where
  "UserInfoResp_XXX_Marshal info m ks = xxx_marshal_with info (UserInfoResp_MarshalToSizedBuffer m ks)"

definition UserInfoResp_XXX_Unmarshal :: "bytes \<Rightarrow> UserInfoResp \<Rightarrow> perr + UserInfoResp" where
  "UserInfoResp_XXX_Unmarshal b m = UserInfoResp_Unmarshal b m"

section \<open>The enum's names\<close>

definition MetricType_name :: "i32 \<rightharpoonup> bytes" where
  "MetricType_name = [0 \<mapsto> str ''CounterType'', 1 \<mapsto> str ''GaugeType'', 2 \<mapsto> str ''SummaryType'']"

definition MetricType_value :: "bytes \<rightharpoonup> i32" where
  "MetricType_value = [str ''CounterType'' \<mapsto> 0, str ''GaugeType'' \<mapsto> 1, str ''SummaryType'' \<mapsto> 2]"

definition MetricType_String :: "((i32 \<rightharpoonup> bytes) \<Rightarrow> i32 \<Rightarrow> bytes) \<Rightarrow> MetricType \<Rightarrow> bytes" where
  "MetricType_String EnumName x = EnumName MetricType_name x"

lemma enum_strings:
  "str ''CounterType'' \<noteq> str ''GaugeType''" "str ''CounterType'' \<noteq> str ''SummaryType''" "str ''GaugeType'' \<noteq> str ''SummaryType''"
  by code_simp+

lemma three_entries_inverse:
  assumes "a \<noteq> b" "a \<noteq> c" "b \<noteq> c" "u \<noteq> v" "u \<noteq> w" "v \<noteq> w"
  shows "[a \<mapsto> u, b \<mapsto> v, c \<mapsto> w] x = Some y \<longleftrightarrow> [u \<mapsto> a, v \<mapsto> b, w \<mapsto> c] y = Some x"
  using assms by (auto simp: fun_upd_apply split: if_splits)

lemma MetricType_roundtrip: "MetricType_name x = Some s \<longleftrightarrow> MetricType_value s = Some x"
  unfolding MetricType_name_def MetricType_value_def by (rule three_entries_inverse) (simp_all only: enum_strings, simp_all)

section \<open>Lemmas\<close>

lemma xxx_marshal_fills:
  assumes "fills f s" "length s \<le> length arr"
  shows "xxx_marshal_with info f (arr, l) False = Some (take (length arr - length s) arr @ s, length s)"
  using fillsD [OF assms(1), of "drop (length arr - length s) arr" "take (length arr - length s) arr"] assms(2)
  by (simp add: xxx_marshal_with_def)

lemma slice_bytes_filled:
  "length s \<le> length arr \<Longrightarrow> slice_bytes (take (length arr - length s) arr @ s, length s) = take (length s) (take (length arr - length s) arr @ s)"
  by (simp add: slice_bytes_def)

section \<open>Properties\<close>

text \<open>What \<open>XXX_Marshal\<close> makes is what \<open>Marshal\<close> makes when the buffer's capacity is the message's size, which is how the library calls it.
  It does not append to the buffer, as the name of the argument suggests: with more room the message lies at the end of the array, and the
  slice returned is the array's beginning; with twice the room it holds what was in the buffer before.\<close>
theorem XXX_Marshal_capacity:
  assumes "range_order (rqHeaders m) ks" "range_order (rqHeaders m) ks'" "Request_XXX_Size (Some m) ks \<le> length arr"
  shows "\<exists>bs b. Request_Marshal m ks ks' = Some bs \<and> Request_XXX_Marshal info m ks' (arr, l) False = Some b \<and>
     (length arr = Request_XXX_Size (Some m) ks \<longrightarrow> slice_bytes b = bs) \<and>
     (2 * Request_XXX_Size (Some m) ks \<le> length arr \<longrightarrow> slice_bytes b = take (length bs) arr) \<and>
     drop (length arr - length bs) (fst b) = bs"
proof -
  let ?bs = "enc_Request m ks'"
  have len: "length ?bs = Request_XXX_Size (Some m) ks"
    using Request_Size_order [OF assms(1,2)] by (simp add: Request_XXX_Size_def length_enc_Request)
  with assms(3) have "length ?bs \<le> length arr" by simp
  note x = xxx_marshal_fills [OF fills_Request this, of info l] and b = slice_bytes_filled [OF this]
  have "take (length ?bs) (take (length arr - length ?bs) arr @ ?bs) = take (length ?bs) arr" if "2 * length ?bs \<le> length arr"
  proof -
    have "length ?bs \<le> length arr - length ?bs" using that by simp
    then show ?thesis by (simp add: min_absorb1)
  qed
  with x b len show ?thesis
    using Request_Marshal_enc [OF assms(1,2)] by (auto simp: Request_XXX_Marshal_def)
qed

theorem XXX_Marshal_capacity_witness:
  "\<exists>b. Request_XXX_Marshal (\<lambda>_ _. None) (Request_Reset\<lparr>rqSid := 5\<rparr>) [] ([7, 7, 7, 7], 0) False = Some b \<and> slice_bytes b = [7, 7]"
proof -
  have "Request_XXX_Size (Some (Request_Reset\<lparr>rqSid := 5\<rparr>)) [] = 2" by code_simp
  moreover have "Request_Marshal (Request_Reset\<lparr>rqSid := 5\<rparr>) [] [] = Some [8, 5]" by code_simp
  moreover have "range_order (rqHeaders (Request_Reset\<lparr>rqSid := 5\<rparr>)) []" by (simp add: range_order_def Request_Reset_def)
  ultimately show ?thesis
    using XXX_Marshal_capacity [of "Request_Reset\<lparr>rqSid := 5\<rparr>" "[]" "[]" "[7, 7, 7, 7]" "\<lambda>_ _. None" 0] by auto
qed

end
