(* ===== verification/Header.thy ===== *)
theory Header
  imports Varint
begin

text \<open>
  The frame header of \<open>transport/header.go\<close>: eight bytes, a signature and the body length as a
  signed varint in four bytes. The signature is a permutation of the length's four bytes, and
  \<open>Check\<close> undoes the permutation and compares. \<open>binary.PutVarint\<close> and \<open>binary.Varint\<close> of
  the standard library are in \<open>Varint\<close>.
\<close>

section \<open>The operations\<close>

record Header =
  hSign :: bytes
  hSize :: i64

definition Header_new :: "i64 \<Rightarrow> Header" where
  "Header_new n = \<lparr>hSign = [0, 0, 0, 0], hSize = n\<rparr>"

datatype header_err = ErrShortHeader | ErrDecodeHeader2 | ErrSignCheck

text \<open>\<open>Encoder\<close>: \<open>PutVarint\<close> into the four bytes \<open>S2\<close> (it panics when they are not enough),
  and the signature \<^verbatim>\<open>[4]byte{S2[1], S2[3], S2[2], S2[0]}\<close> in front.\<close>

definition Header_Encoder :: "Header \<Rightarrow> bytes option" where
  "Header_Encoder h = do {
     S2 \<leftarrow> PutVarint [0, 0, 0, 0] (hSize h);
     Some ([S2 ! 1, S2 ! 3, S2 ! 2, S2 ! 0] @ S2)
   }"

text \<open>\<open>Decoder\<close>: \<open>binary.Read\<close> fills the eight bytes of the struct or fails; \<open>Varint\<close> returns 0 when no
  byte of \<open>S2\<close> ends the varint.\<close>

definition Header_Decoder :: "Header \<Rightarrow> bytes \<Rightarrow> header_err + Header" where
  "Header_Decoder h buf =
     (if length buf < 8 then Inl ErrShortHeader
      else let S1 = take 4 buf; S2 = take 4 (drop 4 buf); (sz, n) = Varint S2
           in if n = 0 then Inl ErrDecodeHeader2 else Inr \<lparr>hSign = S1, hSize = sz\<rparr>)"

definition Header_Check :: "Header \<Rightarrow> header_err option" where
  "Header_Check h =
     (let sign = [hSign h ! 3, hSign h ! 0, hSign h ! 2, hSign h ! 1]; (val, _) = Varint sign
      in if val = hSize h then None else Some ErrSignCheck)"

section \<open>Which lengths fit\<close>

text \<open>The lengths whose zigzag varint has at most four bytes.\<close>

definition header_range :: "i64 \<Rightarrow> bool" where
  "header_range x \<longleftrightarrow> - (2 ^ 27) \<le> sint x \<and> sint x < 2 ^ 27"

lemma header_range_iff: "sovPacket (zigzag x) \<le> 4 \<longleftrightarrow> header_range x"
proof -
  have "sovPacket (zigzag x) \<le> 4 \<longleftrightarrow> nat (if sint x < 0 then - sint x - 1 else sint x) < 2 ^ 27"
    by (simp add: sovPacket_le_iff unat_zigzag_half)
  also have "... \<longleftrightarrow> header_range x"
    by (auto simp: header_range_def nat_less_iff)
  finally show ?thesis .
qed

lemma length_4D: "length (xs :: bytes) = 4 \<Longrightarrow> \<exists>a b c d. xs = [a, b, c, d]"
  by (simp add: length_Suc_conv eval_nat_numeral) blast

text \<open>In range, the encoder returns the signature and the padded varint.\<close>

lemma Header_Encoder_in_range:
  assumes "header_range (hSize h)"
  obtains a b c d pad where "Header_Encoder h = Some [b, d, c, a, a, b, c, d]"
    and "[a, b, c, d] = uvarint (zigzag (hSize h)) @ pad"
proof -
  let ?z = "zigzag (hSize h)"
  have "sovPacket ?z \<le> length [0, 0, 0, 0 :: byte]"
    using assms header_range_iff [of "hSize h"] by simp
  note put = PutVarint_emits [OF this]
  let ?S2 = "uvarint ?z @ drop (sovPacket ?z) [0, 0, 0, 0]"
  have "length ?S2 = 4"
    using assms header_range_iff [of "hSize h"] by (simp add: length_uvarint)
  then obtain a b c d where S2: "?S2 = [a, b, c, d]" using length_4D by blast
  then have "Header_Encoder h = Some [b, d, c, a, a, b, c, d]"
    using put by (simp add: Header_Encoder_def)
  from that [OF this S2 [symmetric]] show thesis .
qed

lemma Header_Encoder_out_of_range: "\<not>  header_range (hSize h) \<Longrightarrow> Header_Encoder h = None"
  using header_range_iff [of "hSize h"] PutVarint_short [of "[0, 0, 0, 0]" "hSize h"]
  by (simp add: Header_Encoder_def)

section \<open>Decoding\<close>

text \<open>What the encoder wrote decodes to the same length, and the check passes.\<close>

lemma Header_decode_encoded:
  assumes "Header_Encoder h = Some bs"
  shows "length bs = 8" and "Header_Decoder h0 (bs @ rest) = Inr \<lparr>hSign = take 4 bs, hSize = hSize h\<rparr>"
    and "Header_Check \<lparr>hSign = take 4 bs, hSize = hSize h\<rparr> = None"
proof -
  have r: "header_range (hSize h)"
    using assms Header_Encoder_out_of_range by fastforce
  obtain a b c d pad where e: "Header_Encoder h = Some [b, d, c, a, a, b, c, d]"
    and S2: "[a, b, c, d] = uvarint (zigzag (hSize h)) @ pad"
    using Header_Encoder_in_range [OF r] .
  have bs: "bs = [b, d, c, a, a, b, c, d]" using assms e by simp
  have v: "Varint [a, b, c, d] = (hSize h, int (length (uvarint (zigzag (hSize h)))))"
    unfolding S2 by (rule Varint_uvarint)
  show "length bs = 8" by (simp add: bs)
  show "Header_Decoder h0 (bs @ rest) = Inr \<lparr>hSign = take 4 bs, hSize = hSize h\<rparr>"
    using v uvarint_nonempty [of "zigzag (hSize h)"] by (simp add: bs Header_Decoder_def)
  show "Header_Check \<lparr>hSign = take 4 bs, hSize = hSize h\<rparr> = None"
    using v by (simp add: bs Header_Check_def)
qed

section \<open>Properties\<close>

text \<open>C29. \<open>Encoder\<close> succeeds exactly on body lengths from \<open>-2^27\<close> to \<open>2^27 - 1\<close>: on any other length
  \<open>PutVarint\<close> runs out of its four bytes and the process panics. What it returns has eight bytes; followed by
  anything, it decodes to the same length, and the signature check passes.\<close>
theorem Header_roundtrip:
  "(case Header_Encoder h of
      None \<Rightarrow> \<not>  (- (2 ^ 27) \<le> sint (hSize h) \<and> sint (hSize h) < 2 ^ 27)
    | Some bs \<Rightarrow> - (2 ^ 27) \<le> sint (hSize h) \<and> sint (hSize h) < 2 ^ 27 \<and> length bs = 8 \<and>
        (\<exists>h'. Header_Decoder h0 (bs @ rest) = Inr h' \<and> hSize h' = hSize h \<and> Header_Check h' = None))"
proof (cases "Header_Encoder h")
  case None
  with Header_Encoder_in_range [of h] show ?thesis by (fastforce simp: header_range_def)
next
  case (Some bs)
  with Header_Encoder_out_of_range [of h] Header_decode_encoded(1,3) [OF Some]
    Header_decode_encoded(2) [OF Some, of h0 rest] show ?thesis
    by (fastforce simp: header_range_def)
qed

end
