(* ===== verification/Transport.thy ===== *)
theory Transport
  imports Header
begin

text \<open>
  Frames over a TCP connection: \<open>Response.Write\<close> of \<open>transport/response.go\<close> and the receiving loop
  \<open>Socket.onRecv\<close> of \<open>transport/socket.go\<close>. A connection's input is what the kernel hands out, a list of chunks
  and faults; its end is the peer's close. The loop keeps its two buffers, as the code does. \<open>recv_flat\<close> is
  the reference: it parses the flat byte stream, and the loop refines it however the stream is cut into chunks.
\<close>

section \<open>Writing a frame\<close>

text \<open>The outcome of one \<open>TCPConn.Write\<close>: \<open>Wrote k\<close> took \<open>k\<close> bytes (never more than it was given),
  \<open>WFail k\<close> returned an error after \<open>k\<close> bytes. The list ends where the code would still be waiting.\<close>

datatype wres = Wrote nat | WFail nat

datatype write_out =
    WDone bytes nat bool  
  | WBlocked bytes

fun write_loop :: "bytes \<Rightarrow> nat \<Rightarrow> wres list \<Rightarrow> bytes \<Rightarrow> write_out" where
  "write_loop toWrite n [] sent =
     (if n < length toWrite then WBlocked sent else WDone sent n False)"
| "write_loop toWrite n (r # rs) sent =
     (if n < length toWrite
      then case r of
          Wrote k \<Rightarrow> (let bytesWritten = min k (length toWrite - n)
            in write_loop toWrite (n + bytesWritten) rs (sent @ take bytesWritten (drop n toWrite)))
        | WFail k \<Rightarrow> WDone (sent @ take k (drop n toWrite)) n True
      else WDone sent n False)"

text \<open>\<open>None\<close> is the panic of the header encoder. An empty packet and a nil connection are not written.\<close>

definition Response_Write :: "bool \<Rightarrow> bytes \<Rightarrow> wres list \<Rightarrow> write_out option" where
  "Response_Write connected packet rs =
     (if length packet = 0 then Some (WDone [] 0 False)
      else if \<not>  connected then Some (WDone [] 0 False)
      else do {
        msgHeader \<leftarrow> Header_Encoder (Header_new (of_nat (length packet)));
        Some (write_loop (msgHeader @ packet) 0 rs [])
      })"

text \<open>The frame of a packet.\<close>

definition frame :: "bytes \<Rightarrow> bytes option" where
  "frame packet = map_option (\<lambda>h. h @ packet) (Header_Encoder (Header_new (of_nat (length packet))))"

section \<open>Reading\<close>

datatype tcp_in = Chunk bytes | Fault

datatype conn_err = EOF | ReadFault

text \<open>One \<open>TCPConn.Read\<close> into a buffer of \<open>n\<close> bytes: at most one chunk, and no more than fits.\<close>

fun tcp_read :: "nat \<Rightarrow> tcp_in list \<Rightarrow> (conn_err + bytes)  \<times>  tcp_in list" where
  "tcp_read n [] = (Inl EOF, [])"
| "tcp_read n (Fault # conn) = (Inl ReadFault, conn)"
| "tcp_read n (Chunk c # conn) =
     (if n < length c then (Inr (take n c), Chunk (drop n c) # conn) else (Inr c, conn))"

fun tcp_weight :: "tcp_in \<Rightarrow> nat" where
  "tcp_weight (Chunk c) = Suc (length c)"
| "tcp_weight Fault = 1"

definition conn_weight :: "tcp_in list \<Rightarrow> nat" where
  "conn_weight conn = (\<Sum>c \<leftarrow> conn. tcp_weight c)"

lemma conn_weight_simps [simp]:
  "conn_weight [] = 0" "conn_weight (c # conn) = tcp_weight c + conn_weight conn"
  by (simp_all add: conn_weight_def)

lemma tcp_read_weight:
  "0 < n \<Longrightarrow> tcp_read n conn = (Inr bs, conn') \<Longrightarrow> conn_weight conn' < conn_weight conn"
  by (induction n conn rule: tcp_read.induct) (auto split: if_splits)

lemma tcp_read_length: "tcp_read n conn = (Inr bs, conn') \<Longrightarrow> length bs \<le> n"
  by (cases "(n, conn)" rule: tcp_read.cases) (auto split: if_splits)

text \<open>The loop \<^verbatim>\<open>for pos < limit { n, err := s.readFromConnection(s.conn, buf[pos:limit]); ... pos += n }\<close>.\<close>

function read_into :: "bytes \<Rightarrow> nat \<Rightarrow> nat \<Rightarrow> tcp_in list \<Rightarrow> (conn_err + bytes)  \<times>  tcp_in list" where
  "read_into buf pos limit conn =
     (if pos < limit
      then case tcp_read (limit - pos) conn of
          (Inl e, conn) \<Rightarrow> (Inl e, conn)
        | (Inr bs, conn) \<Rightarrow>
            read_into (take pos buf @ bs @ drop (pos + length bs) buf) (pos + length bs) limit conn
      else (Inr buf, conn))"
  by pat_completeness auto
termination
  by (relation "measure (\<lambda>(_, _, _, conn). conn_weight conn)")
    (simp, metis in_measure case_prod_conv tcp_read_weight zero_less_diff)

declare read_into.simps [simp del]

lemma read_into_weight:
  "read_into buf pos limit conn = (Inr buf', conn') \<Longrightarrow>
     conn_weight conn' \<le> conn_weight conn \<and> (pos < limit \<longrightarrow> conn_weight conn' < conn_weight conn)"
proof (induction buf pos limit conn rule: read_into.induct)
  case (1 buf pos limit conn)
  show ?case
  proof (cases "pos < limit")
    case True
    with "1.prems" obtain bs c where r: "tcp_read (limit - pos) conn = (Inr bs, c)"
      by (subst (asm) read_into.simps) (auto split: prod.splits sum.splits)
    from "1.prems" True r have
      "read_into (take pos buf @ bs @ drop (pos + length bs) buf) (pos + length bs) limit c = (Inr buf', conn')"
      by (subst (asm) read_into.simps) simp
    from "1.IH" [OF True r [symmetric] refl this] tcp_read_weight [OF _ r] True show ?thesis
      by simp
  next
    case False
    with "1.prems" show ?thesis by (subst (asm) read_into.simps) simp
  qed
qed

section \<open>The receiving loop\<close>

text \<open>What the message callback does: returns nil or an error (only logged), panics with an \<open>error\<close> value, or
  panics with another value.\<close>

datatype rcb_result = RcbNil | RcbError | RcbPanicError | RcbPanicOther

type_synonym rcb = "bytes list \<Rightarrow> bytes \<Rightarrow> rcb_result"

datatype recv_end = EndRead conn_err | EndDecode | EndCheck | EndSlice | EndRcbPanic | EndCrash

text \<open>Every frame takes input away: an empty header buffer is never decoded.\<close>

lemma read_header_weight:
  assumes "read_into hb 0 (length hb) conn = (Inr hb', conn1)" "Header_Decoder h hb' = Inr h'"
    and "read_into db 0 n conn1 = (Inr db', conn2)"
  shows "conn_weight conn2 < conn_weight conn"
proof -
  have "hb \<noteq> []"
    using assms(1,2) by (auto simp: read_into.simps Header_Decoder_def)
  then show ?thesis using read_into_weight [OF assms(1)] read_into_weight [OF assms(3)] by simp
qed

text \<open>\<open>headerBuffer\<close> has \<open>headerByteSize\<close> bytes and \<open>dataBuffer\<close> \<open>maxMessageSize\<close>; the third
  buffer argument collects the packets handed to the callback. A length above the size of the data buffer makes the slice expression
  panic; a length that is not positive reads nothing, and the loop goes on.\<close>

function recv_loop ::
    "rcb \<Rightarrow> bytes \<Rightarrow> bytes \<Rightarrow> tcp_in list \<Rightarrow> bytes list \<Rightarrow> recv_end  \<times>  bytes list" where
  "recv_loop rcb headerBuffer dataBuffer conn out =
     (case read_into headerBuffer 0 (length headerBuffer) conn of
        (Inl e, _) \<Rightarrow> (EndRead e, out)
      | (Inr headerBuffer', conn1) \<Rightarrow>
          (case Header_Decoder (Header_new 0) headerBuffer' of
              Inl _ \<Rightarrow> (EndDecode, out)
            | Inr header \<Rightarrow>
                (if Header_Check header \<noteq> None then (EndCheck, out)
                 else let iMsgLength = sint (hSize header)
                   in if 0 < iMsgLength \<and> int (length dataBuffer) < iMsgLength then (EndSlice, out)
                   else case read_into dataBuffer 0 (nat iMsgLength) conn1 of
                      (Inl e, _) \<Rightarrow> (EndRead e, out)
                    | (Inr dataBuffer', conn2) \<Rightarrow>
                        (if iMsgLength \<le> 0 then recv_loop rcb headerBuffer' dataBuffer' conn2 out
                         else let packet = take (nat iMsgLength) dataBuffer'
                           in case rcb out packet of
                                RcbPanicError \<Rightarrow> (EndRcbPanic, out @ [packet])
                              | RcbPanicOther \<Rightarrow> (EndCrash, out @ [packet])
                              | _ \<Rightarrow> recv_loop rcb headerBuffer' dataBuffer' conn2 (out @ [packet])))))"
  by pat_completeness auto

termination
  by (relation "measure (\<lambda>(_, _, _, conn, _). conn_weight conn)")
    (simp_all, (metis nat_0_iff linorder_not_less read_header_weight nat_le_0)+)

declare recv_loop.simps [simp del]

text \<open>The deferred function: the connection is closed and the close callback runs, unless the panic value is no
  \<open>error\<close>: then the type assertion in the deferred function panics again, and the process ends.\<close>

record recv_result =
  rrDelivered :: "bytes list"
  rrEnd :: recv_end
  rrClosed :: bool
  rrCloseCalls :: nat

definition Socket_onRecv :: "nat \<Rightarrow> nat \<Rightarrow> rcb \<Rightarrow> bool \<Rightarrow> tcp_in list \<Rightarrow> recv_result" where
  "Socket_onRecv headerByteSize maxMessageSize rcb ccb conn =
     (let headerBuffer = replicate headerByteSize 0; dataBuffer = replicate maxMessageSize 0;
          (e, out) = recv_loop rcb headerBuffer dataBuffer conn []
      in \<lparr>rrDelivered = out, rrEnd = e, rrClosed = (e \<noteq> EndCrash),
           rrCloseCalls = (if e \<noteq> EndCrash \<and> ccb then 1 else 0)\<rparr>)"

definition DefaultHeaderSize :: nat where "DefaultHeaderSize = 8"
definition DefaultMaxMessageSize :: nat where "DefaultMaxMessageSize = 2 ^ 20"

definition Socket_Handle :: "rcb \<Rightarrow> bool \<Rightarrow> tcp_in list \<Rightarrow> recv_result" where
  "Socket_Handle rcb ccb conn = Socket_onRecv DefaultHeaderSize DefaultMaxMessageSize rcb ccb conn"

section \<open>The reference: parsing the flat stream\<close>

function recv_flat :: "rcb \<Rightarrow> nat \<Rightarrow> bytes \<Rightarrow> bytes list \<Rightarrow> recv_end  \<times>  bytes list" where
  "recv_flat rcb maxSize s out =
     (if length s < 8 then (EndRead EOF, out)
      else case Header_Decoder (Header_new 0) (take 8 s) of
          Inl _ \<Rightarrow> (EndDecode, out)
        | Inr h \<Rightarrow>
            (if Header_Check h \<noteq> None then (EndCheck, out)
             else let n = nat (sint (hSize h)); body = drop 8 s
               in if maxSize < n then (EndSlice, out)
               else if n = 0 then recv_flat rcb maxSize body out
               else if length body < n then (EndRead EOF, out)
               else case rcb out (take n body) of
                   RcbPanicError \<Rightarrow> (EndRcbPanic, out @ [take n body])
                 | RcbPanicOther \<Rightarrow> (EndCrash, out @ [take n body])
                 | _ \<Rightarrow> recv_flat rcb maxSize (drop n body) (out @ [take n body])))"
  by pat_completeness auto
termination
  by (relation "measure (\<lambda>(_, _, s, _). length s)") auto

declare recv_flat.simps [simp del]

section \<open>The loop refines the reference\<close>

lemma tcp_read_chunks:
  assumes "0 < n"
  shows "tcp_read n (map Chunk []) = (Inl EOF, [])"
    and "n < length c \<Longrightarrow> tcp_read n (map Chunk (c # cs)) = (Inr (take n c), map Chunk (drop n c # cs))"
    and "length c \<le> n \<Longrightarrow> tcp_read n (map Chunk (c # cs)) = (Inr c, map Chunk cs)"
  by simp_all

lemma read_into_done: "limit \<le> pos \<Longrightarrow> read_into buf pos limit conn = (Inr buf, conn)"
  by (subst read_into.simps) simp

lemma read_into_more:
  "pos < limit \<Longrightarrow> read_into buf pos limit conn =
     (case tcp_read (limit - pos) conn of
        (Inl e, conn) \<Rightarrow> (Inl e, conn)
      | (Inr bs, conn) \<Rightarrow>
          read_into (take pos buf @ bs @ drop (pos + length bs) buf) (pos + length bs) limit conn)"
  by (subst read_into.simps) simp

lemma read_into_chunks_short:
  "length (concat cs) < limit - pos \<Longrightarrow> \<exists>c. read_into buf pos limit (map Chunk cs) = (Inl EOF, c)"
proof (induction cs arbitrary: buf pos)
  case Nil
  then show ?case by (subst read_into.simps) simp
next
  case (Cons c cs)
  then have "length (concat cs) < limit - (pos + length c)" by simp
  from Cons.IH [OF this] Cons.prems show ?case
    by (subst read_into.simps) (auto split: if_splits)
qed

lemma read_into_chunks:
  assumes "pos \<le> limit" "limit \<le> length buf" "limit - pos \<le> length (concat cs)"
  shows "\<exists>cs'. read_into buf pos limit (map Chunk cs) =
       (Inr (take pos buf @ take (limit - pos) (concat cs) @ drop limit buf), map Chunk cs') \<and>
     concat cs' = drop (limit - pos) (concat cs)"
  using assms
proof (induction cs arbitrary: buf pos)
  case Nil
  then show ?case by (subst read_into.simps) (auto intro: exI [of _ "[]"])
next
  case (Cons c cs)
  show ?case
  proof (cases "limit - pos < length c")
    case True
    let ?buf = "take pos buf @ take (limit - pos) c @ drop (pos + (limit - pos)) buf"
    have "read_into buf pos limit (map Chunk (c # cs)) =
        (Inr (take pos buf @ take (limit - pos) (concat (c # cs)) @ drop limit buf),
         map Chunk (if pos < limit then drop (limit - pos) c # cs else c # cs))"
      using True Cons.prems
      by (cases "pos < limit") (simp_all add: read_into_more read_into_done)
    moreover have "concat (if pos < limit then drop (limit - pos) c # cs else c # cs) =
        drop (limit - pos) (concat (c # cs))"
      using True Cons.prems by simp
    ultimately show ?thesis by blast
  next
    case False
    let ?buf = "take pos buf @ c @ drop (pos + length c) buf"
    have "pos + length c \<le> limit" "limit \<le> length ?buf" "limit - (pos + length c) \<le> length (concat cs)"
      using False Cons.prems by auto
    from Cons.IH [OF this] obtain cs' where
      r: "read_into ?buf (pos + length c) limit (map Chunk cs) =
        (Inr (take (pos + length c) ?buf @ take (limit - (pos + length c)) (concat cs) @ drop limit ?buf), map Chunk cs')"
      and cs': "concat cs' = drop (limit - (pos + length c)) (concat cs)" by blast
    show ?thesis
    proof (cases "pos < limit")
      case True
      with False Cons.prems r cs' show ?thesis
        by (intro exI [of _ cs'], subst read_into.simps) (simp add: min_def)
    next
      case False
      with Cons.prems show ?thesis
        by (intro exI [of _ "c # cs"], subst read_into.simps) simp
    qed
  qed
qed

text \<open>A read of a whole header or body from chunks; the buffer is overwritten up to the limit, so no
  byte of an earlier frame is left in it.\<close>

lemma read_whole:
  assumes "n \<le> length buf" "n \<le> length (concat cs)"
  obtains cs' where "read_into buf 0 n (map Chunk cs) = (Inr (take n (concat cs) @ drop n buf), map Chunk cs')"
    and "concat cs' = drop n (concat cs)"
  using read_into_chunks [of 0 n buf cs] assms by auto

lemma recv_loop_flat:
  "length hb = 8 \<Longrightarrow>
     recv_loop rcb hb db (map Chunk cs) out = recv_flat rcb (length db) (concat cs) out"
proof (induction "length (concat cs)" arbitrary: hb db cs out rule: less_induct)
  case less
  let ?s = "concat cs"
  show ?case
  proof (cases "length ?s < 8")
    case True
    then obtain c where "read_into hb 0 (length hb) (map Chunk cs) = (Inl EOF, c)"
      using read_into_chunks_short [of cs "length hb" 0 hb] less.prems by auto
    with True show ?thesis by (subst recv_loop.simps, subst recv_flat.simps) simp
  next
    case False
    then obtain cs1 where hdr: "read_into hb 0 (length hb) (map Chunk cs) = (Inr (take 8 ?s), map Chunk cs1)"
      and cs1: "concat cs1 = drop 8 ?s"
      using read_whole [of 8 hb cs] less.prems by auto
    have IH0: "recv_loop rcb (take 8 ?s) db' (map Chunk cs') out' =
        recv_flat rcb (length db') (concat cs') out'"
      if "length (concat cs') < length ?s" for db' cs' out'
      using less.hyps [OF that] False by simp
    show ?thesis
    proof (cases "Header_Decoder (Header_new 0) (take 8 ?s)")
      case (Inl e)
      with hdr False show ?thesis by (subst recv_loop.simps, subst recv_flat.simps) simp
    next
      case (Inr h)
      let ?n = "nat (sint (hSize h))"
      show ?thesis
      proof (cases "Header_Check h = None \<and> ?n \<le> length db")
        case False
        with hdr Inr \<open>\<not>  length ?s < 8\<close> show ?thesis
          by (subst recv_loop.simps, subst recv_flat.simps) (auto simp: Let_def)
      next
        case True
        then have fit: "\<not>  (0 < sint (hSize h) \<and> int (length db) < sint (hSize h))" by auto
        show ?thesis
        proof (cases "length (concat cs1) < ?n")
          case short: True
          then obtain c where "read_into db 0 ?n (map Chunk cs1) = (Inl EOF, c)"
            using read_into_chunks_short [of cs1 ?n 0 db] by auto
          moreover have "\<not>  sint (hSize h) \<le> 0" using short by auto
          ultimately show ?thesis
            using hdr Inr True fit short cs1 False
            by (subst recv_loop.simps, subst recv_flat.simps) (simp add: Let_def)
        next
          case long: False
          then obtain cs2 where body: "read_into db 0 ?n (map Chunk cs1) =
              (Inr (take ?n (drop 8 ?s) @ drop ?n db), map Chunk cs2)"
            and cs2: "concat cs2 = drop ?n (concat cs1)"
            using read_whole [of ?n db cs1] True cs1 by auto
          let ?db = "take ?n (drop 8 ?s) @ drop ?n db"
          have len: "length ?db = length db" using long True cs1 by (simp add: min_def)
          have IH: "recv_loop rcb (take 8 ?s) ?db (map Chunk cs2) out' =
              recv_flat rcb (length db) (drop ?n (drop 8 ?s)) out'" for out'
            using IH0 [of cs2 ?db out'] len cs1 cs2 False by simp
          have "recv_loop rcb hb db (map Chunk cs) out =
              (if sint (hSize h) \<le> 0 then recv_loop rcb (take 8 ?s) ?db (map Chunk cs2) out
               else case rcb out (take ?n (drop 8 ?s)) of
                   RcbPanicError \<Rightarrow> (EndRcbPanic, out @ [take ?n (drop 8 ?s)])
                 | RcbPanicOther \<Rightarrow> (EndCrash, out @ [take ?n (drop 8 ?s)])
                 | _ \<Rightarrow> recv_loop rcb (take 8 ?s) ?db (map Chunk cs2) (out @ [take ?n (drop 8 ?s)]))"
          proof (cases "sint (hSize h) \<le> 0")
            case nonpos: True
            with body have "read_into db 0 0 (map Chunk cs1) = (Inr ?db, map Chunk cs2)" by simp
            with hdr Inr True nonpos show ?thesis by (subst recv_loop.simps) (simp add: Let_def)
          next
            case pos: False
            with hdr Inr True fit body long cs1 show ?thesis
              by (subst recv_loop.simps) (simp add: Let_def)
          qed
          then show ?thesis
            unfolding IH using Inr True long cs1 False
            by (subst recv_flat.simps) (auto simp: Let_def split: rcb_result.splits)
        qed
      qed
    qed
  qed
qed

section \<open>What the writer sends\<close>

lemma write_loop_prefix:
  "n \<le> length tw \<Longrightarrow> sent = take n tw \<Longrightarrow>
     (case write_loop tw n rs sent of
        WDone out k err \<Rightarrow> out = take (length out) tw \<and> k \<le> length out \<and> (\<not>  err \<longrightarrow> out = tw \<and> k = length tw)
      | WBlocked out \<Rightarrow> out = take (length out) tw \<and> length out < length tw)"
proof (induction tw n rs sent rule: write_loop.induct)
  case (2 tw n r rs sent)
  show ?case
  proof (cases "n < length tw")
    case True
    show ?thesis
    proof (cases r)
      case (Wrote k)
      let ?k = "min k (length tw - n)"
      have "sent @ take ?k (drop n tw) = take (n + ?k) tw" using "2.prems"(2) by (simp add: take_add)
      with "2.IH" [OF True Wrote refl] True Wrote show ?thesis by (simp add: Let_def)
    next
      case (WFail k)
      have "take n tw @ take k (drop n tw) = take (n + k) tw" by (simp add: take_add)
      with WFail True "2.prems"(2) show ?thesis by (simp add: min_def)
    qed
  qed (use "2.prems" in simp)
qed auto

text \<open>As long as no call fails and each takes a byte, the loop ends.\<close>

lemma write_loop_ends:
  "length tw - n \<le> length rs \<Longrightarrow> (\<forall>r \<in> set rs. \<exists>k. r = Wrote (Suc k)) \<Longrightarrow>
     \<exists>out k. write_loop tw n rs sent = WDone out k False"
proof (induction tw n rs sent rule: write_loop.induct)
  case (2 tw n r rs sent)
  show ?case
  proof (cases "n < length tw")
    case True
    from "2.prems"(2) obtain k where r: "r = Wrote (Suc k)" by auto
    with True "2.prems" "2.IH" [OF True r refl] show ?thesis by (simp add: Let_def)
  qed simp
qed auto

section \<open>Frames\<close>

text \<open>A packet the receiver accepts: not empty, no longer than its data buffer, and of a length the header can hold.\<close>

definition sendable :: "nat \<Rightarrow> bytes \<Rightarrow> bool" where
  "sendable maxSize p \<longleftrightarrow> p \<noteq> [] \<and> length p \<le> maxSize \<and> length p < 2 ^ 27"

lemma sint_of_nat_small: "n < 2 ^ 63 \<Longrightarrow> sint (of_nat n :: i64) = int n"
  using go_int_of_nat [of n] by (simp add: go_int_def)

lemma frame_decode:
  assumes "frame p = Some f" "length p < 2 ^ 63"
  shows "\<exists>h. Header_Decoder (Header_new 0) (take 8 (f @ rest)) = Inr h \<and> Header_Check h = None \<and>
           sint (hSize h) = int (length p)" and "drop 8 (f @ rest) = p @ rest" and "8 \<le> length f"
proof -
  obtain bs where bs: "Header_Encoder (Header_new (of_nat (length p))) = Some bs" "f = bs @ p"
    using assms(1) by (auto simp: frame_def)
  note d = Header_decode_encoded [OF bs(1)]
  show "\<exists>h. Header_Decoder (Header_new 0) (take 8 (f @ rest)) = Inr h \<and> Header_Check h = None \<and>
      sint (hSize h) = int (length p)"
    using d(1,3) d(2) [of "Header_new 0" "[]"] sint_of_nat_small [OF assms(2)]
    by (simp add: bs(2) Header_new_def)
  show "drop 8 (f @ rest) = p @ rest" "8 \<le> length f" using d(1) bs(2) by simp_all
qed

lemma sendable_frame:
  assumes "sendable maxSize p"
  shows "\<exists>f. frame p = Some f"
proof -
  have "length p < 2 ^ 63" "length p < 2 ^ 27" using assms by (simp_all add: sendable_def)
  then have "header_range (hSize (Header_new (of_nat (length p))))"
    using sint_of_nat_small [of "length p"] by (simp add: header_range_def Header_new_def)
  from Header_Encoder_in_range [OF this] show ?thesis by (metis frame_def option.map(2))
qed

text \<open>One frame in front of a stream.\<close>

lemma recv_flat_frame:
  assumes "frame p = Some f" "sendable maxSize p"
  shows "recv_flat rcb maxSize (f @ rest) out =
     (case rcb out p of
        RcbPanicError \<Rightarrow> (EndRcbPanic, out @ [p])
      | RcbPanicOther \<Rightarrow> (EndCrash, out @ [p])
      | _ \<Rightarrow> recv_flat rcb maxSize rest (out @ [p]))"
proof -
  have p: "length p < 2 ^ 63" "p \<noteq> []" "length p \<le> maxSize" using assms(2) by (simp_all add: sendable_def)
  note fd = frame_decode [OF assms(1) p(1)]
  obtain h where h: "Header_Decoder (Header_new 0) (take 8 (f @ rest)) = Inr h" "Header_Check h = None"
      "sint (hSize h) = int (length p)"
    using fd(1) by blast
  have "\<not>  length (f @ rest) < 8" using fd(3) by simp
  then show ?thesis
    using h p fd(2) by (subst recv_flat.simps) (simp add: Let_def split: rcb_result.splits)
qed

definition frames :: "bytes list \<Rightarrow> bytes" where
  "frames ps = concat (map (\<lambda>p. the (frame p)) ps)"

lemma recv_flat_frames:
  assumes "list_all (sendable maxSize) ps" "\<And>out p. rcb out p = RcbNil \<or> rcb out p = RcbError"
  shows "recv_flat rcb maxSize (frames ps @ rest) out = recv_flat rcb maxSize rest (out @ ps)"
  using assms(1)
proof (induction ps arbitrary: out)
  case Nil
  then show ?case by (simp add: frames_def)
next
  case (Cons p ps)
  then obtain f where f: "frame p = Some f" using sendable_frame [of maxSize p] by auto
  have "recv_flat rcb maxSize (f @ (frames ps @ rest)) out = recv_flat rcb maxSize (frames ps @ rest) (out @ [p])"
    using recv_flat_frame [OF f, of maxSize rcb "frames ps @ rest" out] Cons.prems assms(2) [of out p] by auto
  with Cons f show ?case by (simp add: frames_def)
qed

lemma recv_flat_end: "length s < 8 \<Longrightarrow> recv_flat rcb maxSize s out = (EndRead EOF, out)"
  by (subst recv_flat.simps) simp

lemma Socket_onRecv_flat:
  "Socket_onRecv 8 maxSize rcb ccb (map Chunk cs) =
     (let (e, out) = recv_flat rcb maxSize (concat cs) []
      in \<lparr>rrDelivered = out, rrEnd = e, rrClosed = (e \<noteq> EndCrash),
           rrCloseCalls = (if e \<noteq> EndCrash \<and> ccb then 1 else 0)\<rparr>)"
  by (simp add: Socket_onRecv_def recv_loop_flat)

lemma recv_loop_crash:
  "recv_loop rcb hb db conn out = (EndCrash, out') \<Longrightarrow> \<exists>out p. rcb out p = RcbPanicOther"
proof (induction rcb hb db conn out rule: recv_loop.induct)
  case (1 rcb hb db conn out)
  show ?case
    using "1.prems"
    by (subst (asm) recv_loop.simps)
      (auto simp: Let_def split: prod.splits sum.splits if_splits rcb_result.splits dest: "1.IH" [rotated -1])
qed

lemma Socket_onRecv_frames:
  assumes "concat cs = frames ps" "list_all (sendable maxSize) ps" "\<And>out p. rcb out p = RcbNil \<or> rcb out p = RcbError"
  shows "Socket_onRecv 8 maxSize rcb ccb (map Chunk cs) =
     \<lparr>rrDelivered = ps, rrEnd = EndRead EOF, rrClosed = True, rrCloseCalls = (if ccb then 1 else 0)\<rparr>"
  using recv_flat_frames [OF assms(2,3), where rest = "[]" and out = "[]"] assms(1)
  by (simp add: Socket_onRecv_flat recv_flat_end)

lemma Response_Write_cases:
  assumes "0 < length packet" "length packet < 2 ^ 63"
  shows "(case frame packet of
      None \<Rightarrow> 2 ^ 27 \<le> length packet \<and> Response_Write True packet rs = None
    | Some f \<Rightarrow> length packet < 2 ^ 27 \<and>
        (case Response_Write True packet rs of
           None \<Rightarrow> False
         | Some (WBlocked out) \<Rightarrow> out = take (length out) f
         | Some (WDone out n err) \<Rightarrow> out = take (length out) f \<and> (\<not>  err \<longrightarrow> out = f \<and> n = length packet + 8)))"
proof -
  note sz = sint_of_nat_small [OF assms(2)]
  show ?thesis
  proof (cases "Header_Encoder (Header_new (of_nat (length packet)))")
    case None
    then have "\<not>  header_range (hSize (Header_new (of_nat (length packet))))"
      by (metis Header_Encoder_in_range option.distinct(1))
    with None assms sz show ?thesis
      by (simp add: frame_def Response_Write_def header_range_def Header_new_def)
  next
    case (Some bs)
    then have "header_range (hSize (Header_new (of_nat (length packet))))"
      using Header_Encoder_out_of_range by fastforce
    with sz have "length packet < 2 ^ 27" by (simp add: header_range_def Header_new_def)
    with Some assms(1) Header_decode_encoded(1) [OF Some] write_loop_prefix [of 0 "bs @ packet" "[]" rs]
    show ?thesis by (auto simp: frame_def Response_Write_def split: write_out.splits)
  qed
qed

text \<open>As long as no call of the kernel fails and each takes a byte, \<open>Write\<close> returns nil, and the whole frame is out.\<close>

lemma Response_Write_nil:
  assumes "0 < length p" "length p < 2 ^ 27" "length p + 8 \<le> length ws" "\<forall>r \<in> set ws. \<exists>k. r = Wrote (Suc k)"
  obtains f where "frame p = Some f" "Response_Write True p ws = Some (WDone f (length p + 8) False)"
proof -
  have "length p < 2 ^ 63" using assms(2) by simp
  note cases = Response_Write_cases [OF assms(1) this, of ws]
  then obtain f where f: "frame p = Some f" using assms(2) by (auto split: option.splits)
  then obtain h where h: "Header_Encoder (Header_new (of_nat (length p))) = Some h" "f = h @ p" by (auto simp: frame_def)
  have "length (h @ p) - 0 \<le> length ws" using Header_decode_encoded(1) [OF h(1)] assms(3) by simp
  from write_loop_ends [OF this assms(4), of "[]"] obtain out k where w: "write_loop (h @ p) 0 ws [] = WDone out k False" by blast
  have "Response_Write True p ws = Some (WDone out k False)" using assms(1) h(1) w by (simp add: Response_Write_def)
  with cases f show thesis by (intro that) auto
qed

section \<open>Properties\<close>

text \<open>C9. Packets cross a connection intact: when the bytes on the wire are the frames of a list of packets (each not empty and
  within the default maximum), then however TCP cuts them into chunks, the receiving loop hands exactly these packets to the
  callback, in order, ends at the peer's close, closes the connection and calls the close callback once.\<close>
theorem frames_delivered:
  assumes "concat cs = frames ps" "list_all (sendable DefaultMaxMessageSize) ps"
    and "\<And>out p. rcb out p = RcbNil \<or> rcb out p = RcbError"
  shows "Socket_Handle rcb True (map Chunk cs) =
     \<lparr>rrDelivered = ps, rrEnd = EndRead EOF, rrClosed = True, rrCloseCalls = 1\<rparr>"
  by (simp add: Socket_Handle_def DefaultHeaderSize_def Socket_onRecv_frames [OF assms])

theorem frames_delivered_witness:
  "Socket_Handle (%_ _. RcbNil) True (map Chunk [take 3 (frames [[1], [2, 3]]), drop 3 (frames [[1], [2, 3]])]) =
     \<lparr>rrDelivered = [[1], [2, 3]], rrEnd = EndRead EOF, rrClosed = True, rrCloseCalls = 1\<rparr>"
  by (rule frames_delivered) (simp_all add: sendable_def DefaultMaxMessageSize_def)

text \<open>C15. What the receiving loop does depends only on the bytes received, not on how they were cut into chunks, and
  this for every byte stream, well-formed or not, and every callback: the loop, with its reused buffers, computes the
  reference parser on the flat stream.\<close>
theorem onRecv_chunking:
  assumes "concat cs = concat cs'"
  shows "Socket_onRecv 8 maxSize rcb ccb (map Chunk cs) = Socket_onRecv 8 maxSize rcb ccb (map Chunk cs') \<and>
     rrEnd (Socket_onRecv 8 maxSize rcb ccb (map Chunk cs)) = fst (recv_flat rcb maxSize (concat cs) []) \<and>
     rrDelivered (Socket_onRecv 8 maxSize rcb ccb (map Chunk cs)) = snd (recv_flat rcb maxSize (concat cs) [])"
  using assms by (simp add: Socket_onRecv_flat case_prod_unfold Let_def)

theorem onRecv_chunking_witness:
  "Socket_onRecv 8 100 (%_ _. RcbNil) True (map Chunk [[1, 2], [3]]) =
   Socket_onRecv 8 100 (%_ _. RcbNil) True (map Chunk [[1], [2, 3]])"
  using onRecv_chunking [of "[[1, 2], [3]]" "[[1], [2, 3]]" 100 "%_ _. RcbNil" True] by simp

text \<open>C30. Whatever the peer sends and however the connection fails, the loop ends once its input does, closes the connection and
  calls the close callback exactly once, as long as the message callback never panics with a value that is not an
  \<open>error\<close>.\<close>
theorem onRecv_closes:
  assumes "\<And>out p. rcb out p \<noteq> RcbPanicOther"
  shows "rrClosed (Socket_onRecv headerByteSize maxMessageSize rcb ccb conn) \<and>
     rrCloseCalls (Socket_onRecv headerByteSize maxMessageSize rcb ccb conn) = (if ccb then 1 else 0)"
proof -
  obtain e out where r: "recv_loop rcb (replicate headerByteSize 0) (replicate maxMessageSize 0) conn [] = (e, out)"
    by (cases "recv_loop rcb (replicate headerByteSize 0) (replicate maxMessageSize 0) conn []")
  then have "e \<noteq> EndCrash" using recv_loop_crash assms by blast
  with r show ?thesis by (simp add: Socket_onRecv_def)
qed

theorem onRecv_closes_witness:
  "rrClosed (Socket_onRecv 8 16 (%_ _. RcbPanicError) True [Chunk [1, 2], Fault])"
  using onRecv_closes [of "%_ _. RcbPanicError" 8 16 True "[Chunk [1, 2], Fault]"] by simp

text \<open>C31. \<open>Response.Write\<close> of a packet below 2^27 bytes sends the header and then the packet, through any number of partial
  writes, and reports \<open>len(packet) + 8\<close> bytes (more than it was given); of a longer packet it
  panics. What went out before a failing call is a prefix of the frame.\<close>
theorem Response_Write_sends:
  assumes "0 < length packet" "length packet < 2 ^ 63"
  shows "(case frame packet of
      None \<Rightarrow> 2 ^ 27 \<le> length packet \<and> Response_Write True packet rs = None
    | Some f \<Rightarrow> length packet < 2 ^ 27 \<and>
        (case Response_Write True packet rs of
           None \<Rightarrow> False
         | Some (WBlocked out) \<Rightarrow> out = take (length out) f
         | Some (WDone out n err) \<Rightarrow> out = take (length out) f \<and> (\<not>  err \<longrightarrow> out = f \<and> n = length packet + 8)))"
  using assms by (rule Response_Write_cases)

theorem Response_Write_sends_witness:
  "case frame [7] of
      None \<Rightarrow> False
    | Some f \<Rightarrow> Response_Write True [7] [Wrote 3, Wrote 6] = Some (WDone f 9 False)"
proof -
  have enc: "Header_Encoder (Header_new (of_nat (length [7 :: byte]))) = Some [0, 0, 0, 2, 2, 0, 0, 0]"
    by code_simp
  have "Response_Write True [7] [Wrote 3, Wrote 6] = Some (WDone [0, 0, 0, 2, 2, 0, 0, 0, 7] 9 False)"
    unfolding Response_Write_def enc by (simp add: Let_def)
  with Response_Write_sends [of "[7]" "[Wrote 3, Wrote 6]"] enc show ?thesis
    by (simp add: frame_def)
qed

text \<open>C32. A packet longer than the receiver's maximum (and shorter than 2^27 bytes) is sent without an error, whatever pieces the kernel
  takes it in, but what was sent ends the receiver: however it is cut into chunks, the packets in front of it are delivered, then slicing
  the data buffer panics, the panic is recovered, and the connection is closed with everything after it unread.\<close>
theorem oversized_frame_ends_connection:
  assumes "maxSize < length p" "length p < 2 ^ 27" "length p + 8 \<le> length ws" "\<forall>r \<in> set ws. \<exists>k. r = Wrote (Suc k)"
    and "list_all (sendable maxSize) ps" "\<And>out p. rcb out p = RcbNil \<or> rcb out p = RcbError"
  shows "\<exists>out. Response_Write True p ws = Some (WDone out (length p + 8) False) \<and>
    (\<forall>cs rest. concat cs = frames ps @ out @ rest \<longrightarrow>
       Socket_onRecv 8 maxSize rcb True (map Chunk cs) = \<lparr>rrDelivered = ps, rrEnd = EndSlice, rrClosed = True, rrCloseCalls = 1\<rparr>)"
proof -
  obtain f where f: "frame p = Some f" "Response_Write True p ws = Some (WDone f (length p + 8) False)"
  proof -
    have "0 < length p" using assms(1) by linarith
    from Response_Write_nil [OF this assms(2-4)] that show thesis by blast
  qed
  have "length p < 2 ^ 63" using assms(2) by simp
  note fd = frame_decode [OF f(1) this]
  have "recv_flat rcb maxSize (f @ rest) out = (EndSlice, out)" for rest out
  proof -
    obtain h where h: "Header_Decoder (Header_new 0) (take 8 (f @ rest)) = Inr h" "Header_Check h = None"
        "sint (hSize h) = int (length p)"
      using fd(1) by blast
    have "\<not>  length (f @ rest) < 8" using fd(3) by simp
    with h assms(1) show ?thesis by (subst recv_flat.simps) (simp add: Let_def)
  qed
  with recv_flat_frames [OF assms(5,6), where out = "[]"] f(2) show ?thesis
    by (intro exI [of _ f]) (simp add: Socket_onRecv_flat)
qed

theorem oversized_frame_ends_connection_witness:
  "\<exists>out. Response_Write True [7, 7] (replicate 10 (Wrote 1)) = Some (WDone out 10 False) \<and>
    Socket_onRecv 8 1 (%_ _. RcbNil) True (map Chunk [frames [[5]], out]) =
      \<lparr>rrDelivered = [[5]], rrEnd = EndSlice, rrClosed = True, rrCloseCalls = 1\<rparr>"
proof -
  have "\<forall>r \<in> set (replicate 10 (Wrote 1)). \<exists>k. r = Wrote (Suc k)" by simp
  from oversized_frame_ends_connection [of 1 "[7, 7]" "replicate 10 (Wrote 1)" "[[5]]" "%_ _. RcbNil", OF _ _ _ this]
  obtain out where out: "Response_Write True [7, 7] (replicate 10 (Wrote 1)) = Some (WDone out 10 False)"
    "\<And>cs rest. concat cs = frames [[5]] @ out @ rest \<Longrightarrow>
       Socket_onRecv 8 1 (%_ _. RcbNil) True (map Chunk cs) =
         \<lparr>rrDelivered = [[5]], rrEnd = EndSlice, rrClosed = True, rrCloseCalls = 1\<rparr>"
    by (auto simp: sendable_def)
  with out(2) [of "[frames [[5]], out]" "[]"] show ?thesis by auto
qed

end
