(* ===== verification/Simulation.thy ===== *)
theory Simulation
  imports Main
begin

text \<open>
  Simulation between two step relations: the interface through which a detailed system is shown to implement an abstract one. A step of the
  system is a step of the abstract one or leaves it where it is, as long as the state satisfies the invariant and the run stays
  within the bounds \<open>within\<close> (which no step can re-enter).
\<close>

locale simulation =
  fixes step :: "'s \<Rightarrow> 's \<Rightarrow> bool"
    and init :: 's
    and inv :: "'s \<Rightarrow> bool"
    and bounded :: "'s \<Rightarrow> bool"
    and spec_step :: "'a \<Rightarrow> 'a \<Rightarrow> bool"
    and abstraction :: "'s \<Rightarrow> 'a"
  assumes inv_init: "inv init"
    and inv_step: "step s t \<Longrightarrow> inv s \<Longrightarrow> inv t"
    and bounded_before: "step s t \<Longrightarrow> bounded t \<Longrightarrow> bounded s"
    and simulates: "step s t \<Longrightarrow> inv s \<Longrightarrow> bounded t \<Longrightarrow> spec_step\<^sup>=\<^sup>= (abstraction s) (abstraction t)"
begin

lemma reachable_inv: "step\<^sup>*\<^sup>* init s \<Longrightarrow> inv s"
  by (induction rule: rtranclp_induct) (auto intro: inv_init inv_step)

lemma run_simulates: "step\<^sup>*\<^sup>* init s \<Longrightarrow> bounded s \<Longrightarrow> spec_step\<^sup>*\<^sup>* (abstraction init) (abstraction s)"
proof (induction rule: rtranclp_induct)
  case (step s t)
  have "spec_step\<^sup>*\<^sup>* (abstraction init) (abstraction s)"
    using step.IH bounded_before [OF step.hyps(2) step.prems] by blast
  moreover have "spec_step\<^sup>=\<^sup>= (abstraction s) (abstraction t)"
    using simulates [OF step.hyps(2) reachable_inv [OF step.hyps(1)] step.prems] .
  ultimately show ?case by auto
qed simp

text \<open>What the abstract system keeps holds of the system's runs.\<close>

lemma run_keeps:
  assumes "step\<^sup>*\<^sup>* init s" "bounded s" "P (abstraction init)" "\<And>a b. spec_step a b \<Longrightarrow> P a \<Longrightarrow> P b"
  shows "P (abstraction s)"
  using run_simulates [OF assms(1,2)] assms(3)
  by (induction rule: rtranclp_induct) (auto intro: assms(4))

end

end
