(* ===== verification/Connection.thy ===== *)
theory Connection
  imports Transport Simulation "HOL-Library.Sublist" "HOL-Library.Multiset"
begin

text \<open>
  One direction of a connection, while it is in use: goroutines that call \<open>Response.Write\<close>, each under the mutex of the \<open>Response\<close> it was
  given, the kernel that takes their bytes in pieces, and the receiving loop that is handed chunks. The clients' calls share the
  \<open>Response\<close> of their socket; the server makes a \<open>Response\<close> for each request (\<open>socket.go\<close>, at the call of the callback), so that its workers hold
  different mutexes, and their frames are kept apart by the lock that \<open>net\<close> holds during a \<open>Write\<close>. The abstract machine is a queue of packets.
\<close>

section \<open>State\<close>

text \<open>A call of \<open>Write\<close>: waiting for the mutex \<open>l\<close>; holding it, with \<open>n\<close> bytes of the frame taken by the kernel; returned nil; returned an error, having
  written some of the frame or nothing; panicked in the header's encoder, before the mutex.\<close>

datatype writer = Waits nat bytes | Holds nat bytes nat | Wrote_all bytes | Write_failed bytes bool | Write_panicked bytes

text \<open>\<open>Write\<close> up to its mutex: an empty packet returns nil at once, and a packet that has no header makes the encoder panic.\<close>

definition Write_enter :: "nat \<Rightarrow> bytes \<Rightarrow> writer" where
  "Write_enter l packet =
     (if packet = [] then Wrote_all packet
      else if frame packet = None then Write_panicked packet
      else Waits l packet)"

text \<open>A call of the kernel's \<open>Write\<close> that has begun and not ended.\<close>

definition mid_frame :: "writer \<Rightarrow> bool" where
  "mid_frame w = (case w of Holds l p n \<Rightarrow> 0 < n \<and> n < length (the (frame p)) | _ \<Rightarrow> False)"

lemma mid_frame_simps [simp]:
  "\<not> mid_frame (Waits l p)" "\<not> mid_frame (Wrote_all p)" "\<not> mid_frame (Write_failed p b)" "\<not> mid_frame (Write_panicked p)"
  "mid_frame (Holds l p n) \<longleftrightarrow> 0 < n \<and> n < length (the (frame p))"
  by (simp_all add: mid_frame_def)

text \<open>The bytes of writer \<open>i\<close> can be taken: with \<open>fd\<close>, only while no other call of the kernel's \<open>Write\<close> is under way.\<close>

definition may_write :: "bool \<Rightarrow> writer list \<Rightarrow> nat \<Rightarrow> bool" where
  "may_write fd ws i \<longleftrightarrow> (fd \<longrightarrow> (\<forall>j < length ws. j \<noteq> i \<longrightarrow> \<not> mid_frame (ws ! j)))"

text \<open>\<open>cnStream\<close> is what the kernel has taken, \<open>cnChunks\<close> what it has handed to the receiver. The last component is history: the packets
  of which a first byte was taken, in order.\<close>

record connection =
  cnWriters :: "writer list"
  cnStream :: bytes
  cnChunks :: "bytes list"
  cnBroken :: bool
  cnSent :: "bytes list"

definition connection_init :: connection where
  "connection_init = \<lparr>cnWriters = [], cnStream = [], cnChunks = [], cnBroken = False, cnSent = []\<rparr>"

text \<open>The packets the receiving loop has handed to its callback, after the chunks it was given.\<close>

definition received :: "connection \<Rightarrow> bytes list" where
  "received s = rrDelivered (Socket_Handle (\<lambda>_ _. RcbNil) True (map Chunk (cnChunks s)))"

section \<open>Steps\<close>

text \<open>
  \<open>shared\<close>: all calls are on one \<open>Response\<close>. \<open>fd\<close>: \<open>net\<close> lets one \<open>TCPConn.Write\<close> run at a time, as Go's does under the lock of its file
  descriptor. A \<open>TCPConn.Write\<close> that reports no error has written all it was given, as \<open>io.Writer\<close> documents; the kernel takes the bytes in
  pieces all the same, and an error can come between two. No write deadline is ever set, so an error of a write means that the connection is
  gone: nothing is taken from then on. A packet is a Go slice of any length.
\<close>

inductive connection_step :: "bool \<Rightarrow> bool \<Rightarrow> connection \<Rightarrow> connection \<Rightarrow> bool" for shared fd where
  call:
    "length p < 2 ^ 63 \<Longrightarrow> (shared \<Longrightarrow> l = 0) \<Longrightarrow>
     connection_step shared fd s (s\<lparr>cnWriters := cnWriters s @ [Write_enter l p]\<rparr>)"
| lock:
    "i < length (cnWriters s) \<Longrightarrow> cnWriters s ! i = Waits l p \<Longrightarrow> (\<forall>q n. Holds l q n \<notin> set (cnWriters s)) \<Longrightarrow>
     connection_step shared fd s (s\<lparr>cnWriters := (cnWriters s)[i := Holds l p 0]\<rparr>)"
| take_bytes:
    "i < length (cnWriters s) \<Longrightarrow> cnWriters s ! i = Holds l p n \<Longrightarrow> frame p = Some toWrite \<Longrightarrow> \<not> cnBroken s \<Longrightarrow>
     may_write fd (cnWriters s) i \<Longrightarrow> 0 < k \<Longrightarrow> n + k \<le> length toWrite \<Longrightarrow>
     connection_step shared fd s
       (s\<lparr>cnStream := cnStream s @ take k (drop n toWrite), cnWriters := (cnWriters s)[i := Holds l p (n + k)],
          cnSent := (if n = 0 then cnSent s @ [p] else cnSent s)\<rparr>)"
| take_fails:
    "i < length (cnWriters s) \<Longrightarrow> cnWriters s ! i = Holds l p n \<Longrightarrow> frame p = Some toWrite \<Longrightarrow> n < length toWrite \<Longrightarrow>
     n + k \<le> length toWrite \<Longrightarrow> (cnBroken s \<or> \<not> may_write fd (cnWriters s) i \<Longrightarrow> k = 0) \<Longrightarrow>
     connection_step shared fd s
       (s\<lparr>cnStream := cnStream s @ take k (drop n toWrite), cnWriters := (cnWriters s)[i := Write_failed p (0 < n + k)], cnBroken := True,
          cnSent := (if n = 0 \<and> 0 < k then cnSent s @ [p] else cnSent s)\<rparr>)"
| unlock:
    "i < length (cnWriters s) \<Longrightarrow> cnWriters s ! i = Holds l p n \<Longrightarrow> frame p = Some toWrite \<Longrightarrow> n = length toWrite \<Longrightarrow>
     connection_step shared fd s (s\<lparr>cnWriters := (cnWriters s)[i := Wrote_all p]\<rparr>)"
| hand_out:
    "prefix (concat (cnChunks s) @ c) (cnStream s) \<Longrightarrow>
     connection_step shared fd s (s\<lparr>cnChunks := cnChunks s @ [c]\<rparr>)"

abbreviation connection_steps :: "bool \<Rightarrow> bool \<Rightarrow> connection \<Rightarrow> connection \<Rightarrow> bool" where
  "connection_steps shared fd \<equiv> (connection_step shared fd)\<^sup>*\<^sup>*"

section \<open>The queue of packets\<close>

record packet_queue =
  pqSent :: "bytes list"
  pqGot :: "bytes list"

definition queue_init :: packet_queue where
  "queue_init = \<lparr>pqSent = [], pqGot = []\<rparr>"

inductive queue_step :: "packet_queue \<Rightarrow> packet_queue \<Rightarrow> bool" where
  send: "queue_step q (q\<lparr>pqSent := pqSent q @ [p]\<rparr>)"
| get: "prefix (pqGot q) ps \<Longrightarrow> prefix ps (pqSent q) \<Longrightarrow> queue_step q (q\<lparr>pqGot := ps\<rparr>)"

lemma queue_step_prefix: "queue_step q q' \<Longrightarrow> prefix (pqGot q) (pqSent q) \<Longrightarrow> prefix (pqGot q') (pqSent q')"
  by (induction rule: queue_step.induct) auto

section \<open>A prefix of a stream of frames\<close>

lemma frames_Nil: "frames [] = []"
  by (simp add: frames_def)

lemma frames_Cons: "frames (p # ps) = the (frame p) @ frames ps"
  by (simp add: frames_def)

lemma frames_append: "frames (ps @ qs) = frames ps @ frames qs"
  by (simp add: frames_def)

lemma frame_starts:
  assumes "frame p = Some f" "sendable maxSize p" "prefix bs f" "bs \<noteq> f"
  shows "recv_flat rcb maxSize bs out = (EndRead EOF, out)"
proof (cases "length bs < 8")
  case True
  then show ?thesis by (rule recv_flat_end)
next
  case False
  obtain tl where f: "f = bs @ tl" "tl \<noteq> []" using assms(3,4) by (auto simp: prefix_def)
  have p: "length p < 2 ^ 63" "p \<noteq> []" "length p \<le> maxSize" using assms(2) by (simp_all add: sendable_def)
  note fd = frame_decode(1) [OF assms(1) p(1), of "[]"] frame_decode(2) [OF assms(1) p(1), of "[]"]
  obtain h where h: "Header_Decoder (Header_new 0) (take 8 bs) = Inr h" "Header_Check h = None" "sint (hSize h) = int (length p)"
    using fd(1) f(1) False by auto
  have "drop 8 bs @ tl = p" using fd(2) f(1) False by simp
  then have "length (drop 8 bs) < length p" using f(2) by (metis length_append length_greater_0_conv less_add_same_cancel1)
  with h p False show ?thesis by (subst recv_flat.simps) (simp add: Let_def)
qed

text \<open>The reference parser on a prefix of the stream: it delivers the packets whose frames are complete.\<close>

lemma recv_flat_prefix:
  assumes "list_all (sendable maxSize) ps" "prefix bs (frames ps)" "\<And>out p. rcb out p = RcbNil \<or> rcb out p = RcbError"
  shows "\<exists>k \<le> length ps. recv_flat rcb maxSize bs out = (EndRead EOF, out @ take k ps) \<and> prefix (frames (take k ps)) bs \<and>
    (k < length ps \<longrightarrow> length bs < length (frames (take (Suc k) ps)))"
  using assms(1,2)
proof (induction ps arbitrary: bs out)
  case Nil
  then show ?case by (simp add: frames_Nil recv_flat_end)
next
  case (Cons p ps)
  then obtain f where f: "frame p = Some f" using sendable_frame [of maxSize p] by auto
  have p: "sendable maxSize p" using Cons.prems(1) by simp
  have bs: "prefix bs (f @ frames ps)" using Cons.prems(2) f by (simp add: frames_Cons)
  show ?case
  proof (cases "prefix f bs")
    case True
    then obtain bs' where bs': "bs = f @ bs'" by (auto simp: prefix_def)
    with bs have "prefix bs' (frames ps)" by simp
    with Cons.IH [of bs' "out @ [p]"] Cons.prems(1) obtain k where k: "k \<le> length ps" "recv_flat rcb maxSize bs' (out @ [p]) = (EndRead EOF, (out @ [p]) @ take k ps)"
      "prefix (frames (take k ps)) bs'" "k < length ps \<longrightarrow> length bs' < length (frames (take (Suc k) ps))"
      by auto
    have "recv_flat rcb maxSize bs out = recv_flat rcb maxSize bs' (out @ [p])"
      using recv_flat_frame [OF f p, of rcb bs' out] assms(3) [of out p] bs' by auto
    with k f bs' show ?thesis by (intro exI [of _ "Suc k"]) (simp add: frames_Cons)
  next
    case False
    then have "prefix bs f" "bs \<noteq> f" using bs by (auto simp: prefix_append)
    moreover from this have "length bs < length f" by (auto dest: prefix_length_prefix simp: prefix_def)
    ultimately show ?thesis using frame_starts [OF f p] f by (intro exI [of _ 0]) (simp add: frames_Cons frames_Nil)
  qed
qed

text \<open>The packets a sender can put into frames, and those of them that the receiver takes: those in front of the first oversized one.\<close>

definition framed :: "bytes \<Rightarrow> bool" where
  "framed p \<longleftrightarrow> p \<noteq> [] \<and> length p < 2 ^ 27"

definition accepted :: "bytes list \<Rightarrow> bytes list" where
  "accepted ps = takeWhile (\<lambda>p. length p \<le> DefaultMaxMessageSize) ps"

lemma framed_frame: "p \<noteq> [] \<Longrightarrow> length p < 2 ^ 63 \<Longrightarrow> frame p = Some f \<Longrightarrow> framed p"
  using Response_Write_cases [of p "[]"] by (simp add: framed_def)

lemma framed_Some: "framed p \<Longrightarrow> \<exists>f. frame p = Some f"
  using sendable_frame [of "length p" p] by (simp add: framed_def sendable_def)

lemma accepted_sendable: "list_all framed ps \<Longrightarrow> list_all (sendable DefaultMaxMessageSize) (accepted ps)"
  by (induction ps) (auto simp: accepted_def framed_def sendable_def)

lemma accepted_append: "prefix (accepted ps) (accepted (ps @ qs))"
  by (induction ps) (auto simp: accepted_def)

lemma accepted_prefix: "prefix (accepted ps) ps"
  unfolding accepted_def by (metis prefixI takeWhile_dropWhile_id)

lemma accepted_all: "(\<And>p. p \<in> set ps \<Longrightarrow> length p \<le> DefaultMaxMessageSize) \<Longrightarrow> accepted ps = ps"
  by (simp add: accepted_def takeWhile_eq_all_conv)

lemma oversized_stops:
  assumes "framed p" "maxSize < length p" "prefix bs (the (frame p) @ rest)"
  shows "snd (recv_flat rcb maxSize bs out) = out"
proof (cases "length bs < 8")
  case True
  then show ?thesis by (simp add: recv_flat_end)
next
  case False
  obtain f where f: "frame p = Some f" using framed_Some [OF assms(1)] by blast
  have p: "length p < 2 ^ 63" using assms(1) by (simp add: framed_def)
  obtain tl where "f @ rest = bs @ tl" using assms(3) f by (auto simp: prefix_def)
  then have "take 8 (f @ rest) = take 8 bs" using False by simp
  with frame_decode(1) [OF f p, of rest] obtain h where
    "Header_Decoder (Header_new 0) (take 8 bs) = Inr h" "Header_Check h = None" "sint (hSize h) = int (length p)"
    by auto
  with False assms(2) show ?thesis by (subst recv_flat.simps) (simp add: Let_def)
qed

lemma received_flat: "received s = snd (recv_flat (\<lambda>_ _. RcbNil) DefaultMaxMessageSize (concat (cnChunks s)) [])"
  by (simp add: received_def Socket_Handle_def DefaultHeaderSize_def Socket_onRecv_flat case_prod_unfold Let_def)

lemma received_stopped:
  assumes "list_all framed ps" "concat (cnChunks s) = frames (accepted ps) @ bs" "prefix bs (frames (drop (length (accepted ps)) ps))"
  shows "received s = accepted ps"
proof -
  have flat: "received s = snd (recv_flat (\<lambda>_ _. RcbNil) DefaultMaxMessageSize bs (accepted ps))"
    using recv_flat_frames [OF accepted_sendable [OF assms(1)], of "\<lambda>_ _. RcbNil" bs "[]"] assms(2) by (simp add: received_flat)
  show ?thesis
  proof (cases "drop (length (accepted ps)) ps")
    case Nil
    with assms(3) flat show ?thesis by (simp add: frames_Nil recv_flat_end)
  next
    case (Cons q qs)
    have "dropWhile (\<lambda>p. length p \<le> DefaultMaxMessageSize) ps = q # qs"
      using Cons unfolding accepted_def by (metis append_eq_conv_conj takeWhile_dropWhile_id)
    then have "DefaultMaxMessageSize < length q" "q \<in> set ps"
      by (auto simp: dropWhile_eq_Cons_conv dest: set_dropWhileD) (metis in_set_conv_decomp takeWhile_dropWhile_id)
    with assms(1,3) Cons oversized_stops [of q DefaultMaxMessageSize bs "frames qs"] flat show ?thesis
      by (simp add: frames_Cons list_all_iff)
  qed
qed

lemma received_prefix:
  assumes "list_all framed ps" "prefix (concat (cnChunks s)) (frames ps)"
  obtains k where "k \<le> length (accepted ps)" "received s = take k (accepted ps)" "prefix (frames (take k (accepted ps))) (concat (cnChunks s))"
    "k < length (accepted ps) \<longrightarrow> length (concat (cnChunks s)) < length (frames (take (Suc k) (accepted ps)))"
proof -
  have ps: "frames ps = frames (accepted ps) @ frames (drop (length (accepted ps)) ps)"
    using accepted_prefix [of ps] by (metis append_eq_conv_conj frames_append prefix_def)
  with assms(2) have "prefix (concat (cnChunks s)) (frames (accepted ps)) \<or>
      (\<exists>bs. concat (cnChunks s) = frames (accepted ps) @ bs \<and> prefix bs (frames (drop (length (accepted ps)) ps)))"
    by (auto simp: prefix_append)
  then show thesis
  proof
    assume "prefix (concat (cnChunks s)) (frames (accepted ps))"
    then obtain k where "k \<le> length (accepted ps)" "prefix (frames (take k (accepted ps))) (concat (cnChunks s))"
      "recv_flat (\<lambda>_ _. RcbNil) DefaultMaxMessageSize (concat (cnChunks s)) [] = (EndRead EOF, [] @ take k (accepted ps))"
      "k < length (accepted ps) \<longrightarrow> length (concat (cnChunks s)) < length (frames (take (Suc k) (accepted ps)))"
      using recv_flat_prefix [OF accepted_sendable [OF assms(1)], of _ "\<lambda>_ _. RcbNil" "[]"] by blast
    then show thesis by (intro that) (simp_all add: received_flat)
  next
    assume "\<exists>bs. concat (cnChunks s) = frames (accepted ps) @ bs \<and> prefix bs (frames (drop (length (accepted ps)) ps))"
    then obtain bs where "concat (cnChunks s) = frames (accepted ps) @ bs" "prefix bs (frames (drop (length (accepted ps)) ps))" by blast
    with received_stopped [OF assms(1) this] show thesis by (intro that [of "length (accepted ps)"]) simp_all
  qed
qed

text \<open>More bytes, or more packets behind them, never change what was delivered; all bytes deliver all that is accepted.\<close>

lemma received_all:
  assumes "list_all framed ps" "concat (cnChunks s) = frames ps"
  shows "received s = accepted ps"
proof -
  have "frames ps = frames (accepted ps) @ frames (drop (length (accepted ps)) ps)"
    using accepted_prefix [of ps] by (metis append_eq_conv_conj frames_append prefix_def)
  with assms show ?thesis by (intro received_stopped [OF _ _ prefix_order.refl]) simp_all
qed

lemma received_mono:
  assumes "list_all framed ps" "prefix (concat (cnChunks t)) (frames ps)"
    and "prefix (concat (cnChunks s)) (concat (cnChunks t))"
  shows "prefix (received s) (received t)"
proof -
  have s: "prefix (concat (cnChunks s)) (frames ps)" using assms(2,3) by (rule prefix_order.order_trans [rotated])
  obtain k where k: "received s = take k (accepted ps)" "prefix (frames (take k (accepted ps))) (concat (cnChunks s))" "k \<le> length (accepted ps)"
    using received_prefix [OF assms(1) s] by metis
  obtain k' where k': "received t = take k' (accepted ps)" "k' \<le> length (accepted ps)"
    "k' < length (accepted ps) \<longrightarrow> length (concat (cnChunks t)) < length (frames (take (Suc k') (accepted ps)))"
    using received_prefix [OF assms(1,2)] by metis
  have "k \<le> k'"
  proof (rule ccontr)
    assume "\<not> k \<le> k'"
    then have less: "k' < k" "k' < length (accepted ps)" using k(3) by simp_all
    then have "take k (accepted ps) = take (Suc k') (accepted ps) @ drop (Suc k') (take k (accepted ps))" by (metis Suc_leI append_take_drop_id min_def take_take)
    then have "length (frames (take (Suc k') (accepted ps))) \<le> length (frames (take k (accepted ps)))" by (metis frames_append le_add1 length_append)
    also have "\<dots> \<le> length (concat (cnChunks t))"
      using k(2) assms(3) by (meson prefix_length_le prefix_order.order_trans)
    finally show False using k'(3) less(2) by simp
  qed
  then have "take k (accepted ps) = take k (take k' (accepted ps))" by (simp add: min_def)
  then show ?thesis unfolding k(1) k'(1) by (metis take_is_prefix)
qed

section \<open>The invariant\<close>

text \<open>What is missing of a frame of which a part is written.\<close>

definition open_rest :: "writer \<Rightarrow> bytes" where
  "open_rest w = (case w of Holds l p n \<Rightarrow> if 0 < n then drop n (the (frame p)) else [] | _ \<Rightarrow> [])"

lemma open_rest_simps [simp]:
  "open_rest (Waits l p) = []" "open_rest (Wrote_all p) = []" "open_rest (Write_failed p b) = []" "open_rest (Write_panicked p) = []"
  "open_rest (Holds l p 0) = []"
  "0 < n \<Longrightarrow> open_rest (Holds l p n) = drop n (the (frame p))"
  by (simp_all add: open_rest_def)

lemma open_rest_mid_frame: "\<not> mid_frame w \<Longrightarrow> open_rest w = []"
  by (cases w) (auto simp: open_rest_def)

definition writer_ok :: "bool \<Rightarrow> writer \<Rightarrow> bool" where
  "writer_ok shared w \<longleftrightarrow>
     (case w of
        Waits l p \<Rightarrow> framed p \<and> (shared \<longrightarrow> l = 0)
      | Holds l p n \<Rightarrow> framed p \<and> (shared \<longrightarrow> l = 0) \<and> n \<le> length (the (frame p))
      | _ \<Rightarrow> True)"

lemma writer_ok_simps [simp]:
  "writer_ok shared (Waits l p) \<longleftrightarrow> framed p \<and> (shared \<longrightarrow> l = 0)"
  "writer_ok shared (Holds l p n) \<longleftrightarrow> framed p \<and> (shared \<longrightarrow> l = 0) \<and> n \<le> length (the (frame p))"
  "writer_ok shared (Wrote_all p)" "writer_ok shared (Write_failed p b)" "writer_ok shared (Write_panicked p)"
  by (simp_all add: writer_ok_def)

text \<open>The packets of which a byte was taken.\<close>

fun started :: "writer \<Rightarrow> bytes list" where
  "started (Waits l p) = []"
| "started (Holds l p n) = (if 0 < n then [p] else [])"
| "started (Wrote_all p) = (if p = [] then [] else [p])"
| "started (Write_failed p b) = (if b then [p] else [])"
| "started (Write_panicked p) = []"

text \<open>A mutex has one holder.\<close>

definition exclusive :: "writer list \<Rightarrow> bool" where
  "exclusive ws \<longleftrightarrow>
     (\<forall>i j l p n q m. i < length ws \<longrightarrow> j < length ws \<longrightarrow> ws ! i = Holds l p n \<longrightarrow> ws ! j = Holds l q m \<longrightarrow> i = j)"

definition connection_inv :: "bool \<Rightarrow> connection \<Rightarrow> bool" where
  "connection_inv shared s \<longleftrightarrow>
     list_all (writer_ok shared) (cnWriters s) \<and> exclusive (cnWriters s) \<and>
     list_all framed (cnSent s) \<and> mset (cnSent s) = mset (concat (map started (cnWriters s))) \<and>
     prefix (concat (cnChunks s)) (cnStream s) \<and> prefix (cnStream s) (frames (cnSent s)) \<and>
     (\<not> cnBroken s \<longrightarrow> cnStream s @ concat (map open_rest (cnWriters s)) = frames (cnSent s))"

lemma exclusive_update:
  "exclusive ws \<Longrightarrow> i < length ws \<Longrightarrow> (\<And>l p n. w = Holds l p n \<Longrightarrow> \<exists>q m. ws ! i = Holds l q m) \<Longrightarrow> exclusive (ws[i := w])"
  unfolding exclusive_def by (auto simp: nth_list_update)

lemma exclusive_done:
  "exclusive ws \<Longrightarrow> i < length ws \<Longrightarrow> exclusive (ws[i := Wrote_all p])"
  "exclusive ws \<Longrightarrow> i < length ws \<Longrightarrow> exclusive (ws[i := Write_failed p b])"
  by (rule exclusive_update; simp)+

lemma exclusive_lock:
  assumes "exclusive ws" "\<forall>q n. Holds l q n \<notin> set ws"
  shows "exclusive (ws[i := Holds l p 0])"
  unfolding exclusive_def
proof (intro allI impI)
  fix a b l' q n r m
  assume a: "a < length (ws[i := Holds l p 0])" "ws[i := Holds l p 0] ! a = Holds l' q n"
    and b: "b < length (ws[i := Holds l p 0])" "ws[i := Holds l p 0] ! b = Holds l' r m"
  have none: "ws ! j \<noteq> Holds l q n" if "j < length ws" for j q n using assms(2) nth_mem [OF that] by metis
  show "a = b"
  proof (cases "a = i \<or> b = i")
    case True
    with a b none show ?thesis by (auto simp: nth_list_update split: if_splits)
  next
    case False
    with a b show ?thesis using assms(1) unfolding exclusive_def by simp
  qed
qed

lemma exclusive_append: "exclusive ws \<Longrightarrow> exclusive (ws @ [Write_enter l p])"
  by (auto simp: exclusive_def nth_append Write_enter_def split: if_splits)

lemma Write_enter_simps:
  "open_rest (Write_enter l p) = []" "started (Write_enter l p) = []"
  "length p < 2 ^ 63 \<Longrightarrow> (shared \<Longrightarrow> l = 0) \<Longrightarrow> writer_ok shared (Write_enter l p)"
  using framed_frame [of p] by (auto simp: Write_enter_def)

text \<open>Under either discipline, nobody else has a frame half written when a holder writes.\<close>

lemma others_closed:
  assumes "shared \<or> fd" "may_write fd (cnWriters s) i" "connection_inv shared s" "i < length (cnWriters s)" "cnWriters s ! i = Holds l p n"
    and "j < length (cnWriters s)" "j \<noteq> i"
  shows "open_rest (cnWriters s ! j) = []"
proof (cases shared)
  case shared: True
  show ?thesis
  proof (cases "cnWriters s ! j")
    case (Holds l' q m)
    have "writer_ok shared (cnWriters s ! i)" "writer_ok shared (cnWriters s ! j)"
      using assms(3,4,6) by (auto simp: connection_inv_def list_all_length)
    then have "l' = l" using shared assms(5) Holds by simp
    with assms(3-7) Holds show ?thesis unfolding connection_inv_def exclusive_def by metis
  qed simp_all
next
  case False
  with assms(1,2,6,7) show ?thesis by (auto simp: may_write_def intro: open_rest_mid_frame)
qed

lemma concat_update_closed:
  assumes "i < length ws" "\<And>j. j < length ws \<Longrightarrow> j \<noteq> i \<Longrightarrow> f (ws ! j) = []"
  shows "concat (map f (ws[i := w])) = f w"
proof -
  have "map f (ws[i := w]) = (replicate (length ws) [])[i := f w]"
    using assms by (intro nth_equalityI) (auto simp: nth_list_update)
  also have "\<dots> = replicate i [] @ f w # replicate (length ws - Suc i) []"
    using assms(1) by (intro nth_equalityI) (auto simp: nth_append nth_list_update nth_Cons split: nat.split)
  finally show ?thesis by simp
qed

lemma concat_update_same:
  assumes "i < length ws" "f w = f (ws ! i)"
  shows "concat (map f (ws[i := w])) = concat (map f ws)"
  using assms by (metis list_update_id map_update)

text \<open>A writer that holds its mutex continues the stream where it stands.\<close>

lemma stream_at_holder:
  assumes "shared \<or> fd" "may_write fd (cnWriters s) i" "connection_inv shared s" "\<not> cnBroken s"
    and "i < length (cnWriters s)" "cnWriters s ! i = Holds l p n" "frame p = Some f"
  shows "frames (if n = 0 then cnSent s @ [p] else cnSent s) = cnStream s @ drop n f" "n \<le> length f" "framed p"
proof -
  have "writer_ok shared (cnWriters s ! i)" using assms(3,5) by (auto simp: connection_inv_def list_all_length)
  with assms(6,7) show n: "n \<le> length f" "framed p" by simp_all
  have "concat (map open_rest (cnWriters s)) = open_rest (cnWriters s ! i)"
    using concat_update_closed [of i "cnWriters s" open_rest "cnWriters s ! i"] others_closed [OF assms(1,2,3,5,6)] assms(5) by simp
  then have "frames (cnSent s) = cnStream s @ (if 0 < n then drop n f else [])"
    using assms(3,4,6,7) by (auto simp: connection_inv_def)
  then show "frames (if n = 0 then cnSent s @ [p] else cnSent s) = cnStream s @ drop n f"
    using assms(7) by (simp add: frames_append frames_Cons frames_Nil)
qed

lemma connection_inv_init: "connection_inv shared connection_init"
  by (simp add: connection_inv_def connection_init_def exclusive_def frames_Nil)

lemma list_all_update: "list_all P xs \<Longrightarrow> P x \<Longrightarrow> list_all P (xs[i := x])"
  unfolding list_all_iff using set_update_subset_insert [of xs i x] by blast

text \<open>The part of the invariant about the writers.\<close>

lemma writers_step:
  assumes "connection_step shared fd s t"
    and "list_all (writer_ok shared) (cnWriters s)" "exclusive (cnWriters s)"
  shows "list_all (writer_ok shared) (cnWriters t) \<and> exclusive (cnWriters t)"
  using assms
proof (induction rule: connection_step.induct)
  case (call p l s)
  then show ?case by (simp add: exclusive_append Write_enter_simps)
next
  case (lock i s l p)
  then have "writer_ok shared (Waits l p)" by (metis list_all_length)
  with lock show ?case by (simp add: list_all_update exclusive_lock)
next
  case (take_bytes i s l p n f k)
  then have "writer_ok shared (Holds l p n)" by (metis list_all_length)
  with take_bytes have "writer_ok shared (Holds l p (n + k))" by simp
  moreover have "exclusive ((cnWriters s)[i := Holds l p (n + k)])"
    by (rule exclusive_update) (use take_bytes in auto)
  ultimately show ?case using take_bytes by (simp add: list_all_update)
qed (simp_all add: list_all_update exclusive_done)

lemma mset_concat_update:
  "i < length ws \<Longrightarrow> mset (concat (map f (ws[i := w]))) + mset (f (ws ! i)) = mset (concat (map f ws)) + mset (f w)"
proof (induction ws arbitrary: i)
  case (Cons v ws)
  then show ?case by (cases i) (auto simp: ac_simps)
qed simp

lemma started_step:
  assumes "connection_step shared fd s t" "list_all (writer_ok shared) (cnWriters s)"
    and "mset (cnSent s) = mset (concat (map started (cnWriters s)))"
  shows "mset (cnSent t) = mset (concat (map started (cnWriters t)))"
  using assms
proof (induction rule: connection_step.induct)
  case (lock i s l p)
  with mset_concat_update [of i "cnWriters s" started "Holds l p 0"] show ?case by simp
next
  case (take_bytes i s l p n f k)
  with mset_concat_update [of i "cnWriters s" started "Holds l p (n + k)"] show ?case by (auto split: if_splits)
next
  case (take_fails i s l p n f k)
  with mset_concat_update [of i "cnWriters s" started "Write_failed p (0 < n + k)"] show ?case by (auto split: if_splits)
next
  case (unlock i s l p n f)
  then have "writer_ok shared (Holds l p n)" by (metis list_all_length)
  then have "p \<noteq> []" by (simp add: framed_def)
  moreover have "f \<noteq> []" using unlock frame_decode(3) [of p f] by (auto simp: frame_def)
  ultimately show ?case using unlock mset_concat_update [of i "cnWriters s" started "Wrote_all p"] by (auto split: if_splits)
qed (simp_all add: Write_enter_simps)

text \<open>The part about the bytes.\<close>

lemma stream_step:
  assumes "connection_step shared fd s t" "shared \<or> fd" "connection_inv shared s"
  shows "prefix (cnSent s) (cnSent t) \<and> prefix (cnStream s) (cnStream t) \<and> prefix (concat (cnChunks s)) (concat (cnChunks t)) \<and>
    list_all framed (cnSent t) \<and>
    prefix (concat (cnChunks t)) (cnStream t) \<and> prefix (cnStream t) (frames (cnSent t)) \<and>
    (\<not> cnBroken t \<longrightarrow> cnStream t @ concat (map open_rest (cnWriters t)) = frames (cnSent t))"
  using assms(1)
proof cases
  case (call p l)
  with assms(3) show ?thesis by (simp add: connection_inv_def Write_enter_simps)
next
  case (lock i l p)
  with assms(3) concat_update_same [of i "cnWriters s" open_rest "Holds l p 0"] show ?thesis
    by (simp add: connection_inv_def)
next
  case (take_bytes i l p n f k)
  note at = stream_at_holder [OF assms(2) take_bytes(6) assms(3) take_bytes(5,2,3,4)]
  have "concat (map open_rest (cnWriters t)) = open_rest (Holds l p (n + k))"
    using take_bytes concat_update_closed [of i "cnWriters s" open_rest] others_closed [OF assms(2) take_bytes(6) assms(3) take_bytes(2,3)] by simp
  also have "\<dots> = drop (n + k) f" using take_bytes by simp
  finally have "cnStream t @ concat (map open_rest (cnWriters t)) = cnStream s @ drop n f"
    using take_bytes(1) by (simp add: add.commute flip: drop_drop)
  moreover have "frames (cnSent t) = cnStream s @ drop n f" using at(1) take_bytes(1) by simp
  ultimately show ?thesis
    using assms(3) at(3) take_bytes(1)
    by (auto simp: connection_inv_def take_is_prefix intro: prefix_order.order_trans)
next
  case (take_fails i l p n f k)
  have "writer_ok shared (Holds l p n)" using assms(3) take_fails by (metis connection_inv_def list_all_length)
  then have sent: "list_all framed (cnSent t)" "prefix (cnSent s) (cnSent t)"
    using assms(3) take_fails by (auto simp: connection_inv_def)
  have "prefix (cnStream t) (frames (cnSent t))"
  proof (cases "k = 0")
    case True
    then show ?thesis using assms(3) take_fails by (simp add: connection_inv_def)
  next
    case False
    then have "\<not> cnBroken s" "may_write fd (cnWriters s) i" using take_fails by auto
    from stream_at_holder(1) [OF assms(2) this(2) assms(3) this(1) take_fails(2,3,4)] False
    have "frames (cnSent t) = cnStream s @ drop n f" using take_fails(1) by (simp split: if_splits)
    then show ?thesis using take_fails(1) by (simp add: take_is_prefix)
  qed
  with sent assms(3) take_fails(1) show ?thesis
    by (auto simp: connection_inv_def intro: prefix_order.order_trans)
next
  case (unlock i l p n f)
  have "open_rest (cnWriters s ! i) = []" using unlock by (cases "n = 0") simp_all
  with assms(3) concat_update_same [of i "cnWriters s" open_rest "Wrote_all p"] unlock show ?thesis
    by (simp add: connection_inv_def)
next
  case (hand_out c)
  with assms(3) show ?thesis by (simp add: connection_inv_def)
qed

lemma connection_inv_step:
  "shared \<or> fd \<Longrightarrow> connection_step shared fd s t \<Longrightarrow> connection_inv shared s \<Longrightarrow> connection_inv shared t"
  using stream_step [of shared fd s t] writers_step [of shared fd s t] started_step [of shared fd s t]
  by (simp add: connection_inv_def)

section \<open>The connection is a queue of packets\<close>

definition packets :: "connection \<Rightarrow> packet_queue" where
  "packets s = \<lparr>pqSent = cnSent s, pqGot = received s\<rparr>"

lemma received_sent:
  assumes "connection_inv shared s"
  shows "prefix (received s) (accepted (cnSent s))"
proof -
  have "prefix (concat (cnChunks s)) (frames (cnSent s))"
    using assms unfolding connection_inv_def by (blast intro: prefix_order.order_trans)
  then obtain k where "received s = take k (accepted (cnSent s))"
    using received_prefix [of "cnSent s" s] assms by (auto simp: connection_inv_def)
  then show ?thesis by (simp add: take_is_prefix)
qed

lemma connection_simulates:
  assumes "shared \<or> fd" "connection_step shared fd s t" "connection_inv shared s"
  shows "queue_step\<^sup>=\<^sup>= (packets s) (packets t)"
proof -
  note inv = connection_inv_step [OF assms]
  show ?thesis
  proof (cases "cnChunks t = cnChunks s")
    case True
    then have got: "received t = received s" by (simp add: received_def)
    from assms(2) have "cnSent t = cnSent s \<or> (\<exists>p. cnSent t = cnSent s @ [p])" by cases auto
    then show ?thesis
    proof
      assume "cnSent t = cnSent s"
      with got show ?thesis by (simp add: packets_def)
    next
      assume "\<exists>p. cnSent t = cnSent s @ [p]"
      then obtain p where "cnSent t = cnSent s @ [p]" ..
      then have "packets t = (packets s)\<lparr>pqSent := pqSent (packets s) @ [p]\<rparr>" using got by (simp add: packets_def)
      then show ?thesis using queue_step.send [of "packets s" p] by simp
    qed
  next
    case False
    from assms(2) False have sent: "cnSent t = cnSent s" by cases auto
    have "prefix (concat (cnChunks t)) (frames (cnSent t))"
      using inv unfolding connection_inv_def by (blast intro: prefix_order.order_trans)
    then have "prefix (received s) (received t)"
      using inv stream_step [OF assms(2,1,3)] by (intro received_mono [of "cnSent t"]) (simp_all add: connection_inv_def)
    then have "queue_step (packets s) ((packets s)\<lparr>pqGot := received t\<rparr>)"
      using prefix_order.order_trans [OF received_sent [OF inv] accepted_prefix] sent by (intro queue_step.get) (simp_all add: packets_def)
    then show ?thesis using sent by (simp add: packets_def)
  qed
qed

text \<open>The clients' connections, where the mutex keeps the frames apart, and the server's, where only the lock of \<open>net\<close> does.\<close>

interpretation one_mutex: simulation "connection_step True fd" connection_init "connection_inv True" "\<lambda>_. True" queue_step packets
  for fd
  by unfold_locales (rule connection_inv_init, (auto intro: connection_inv_step) [1], simp, (rule connection_simulates; simp))

interpretation own_mutexes: simulation "connection_step shared True" connection_init "connection_inv shared" "\<lambda>_. True" queue_step packets
  for shared
  by unfold_locales (rule connection_inv_init, (auto intro: connection_inv_step) [1], simp, (rule connection_simulates; simp))

section \<open>Properties\<close>

text \<open>C10. A connection is a queue of packets, whatever its goroutines and the kernel do: any number of concurrent writes of packets of any
  size, taken in any pieces, and any chunks at the receiver. What the receiver's callback has been given is at each moment a prefix of the
  packets written, in the order of their first bytes, and nothing from the first packet above the default maximum on. When every write has
  returned nil and every byte has come through, exactly the packets that are not empty were written, each once, and the receiver has all in
  front of the first oversized one: all of them, if there is none. The frames are kept apart by the mutex, when all writes share one \<open>Response\<close>, or
  else by \<open>net\<close> running one \<open>Write\<close> of a connection at a time.\<close>
theorem connection_refines_queue:
  assumes "shared \<or> fd" "connection_steps shared fd connection_init s"
  shows "queue_step\<^sup>*\<^sup>* queue_init (packets s) \<and> prefix (received s) (takeWhile (\<lambda>p. length p \<le> DefaultMaxMessageSize) (cnSent s)) \<and>
    (cnWriters s = map Wrote_all ps \<and> \<not> cnBroken s \<and> concat (cnChunks s) = cnStream s \<longrightarrow>
       received s = takeWhile (\<lambda>p. length p \<le> DefaultMaxMessageSize) (cnSent s) \<and> mset (cnSent s) = mset (filter (\<lambda>p. p \<noteq> []) ps) \<and>
       ((\<forall>p \<in> set ps. length p \<le> DefaultMaxMessageSize) \<longrightarrow> mset (received s) = mset (filter (\<lambda>p. p \<noteq> []) ps)))"
proof -
  have init: "packets connection_init = queue_init"
    by (simp add: packets_def queue_init_def connection_init_def received_flat recv_flat_end)
  from assms have "connection_inv shared s \<and> queue_step\<^sup>*\<^sup>* queue_init (packets s)"
    using one_mutex.reachable_inv one_mutex.run_simulates own_mutexes.reachable_inv own_mutexes.run_simulates init by auto
  then have inv: "connection_inv shared s" and queue: "queue_step\<^sup>*\<^sup>* queue_init (packets s)" by simp_all
  have "received s = accepted (cnSent s)" "mset (cnSent s) = mset (filter (\<lambda>p. p \<noteq> []) ps)"
    if "cnWriters s = map Wrote_all ps" "\<not> cnBroken s" "concat (cnChunks s) = cnStream s"
  proof -
    have "concat (map (open_rest \<circ> Wrote_all) ps) = []" "concat (map (started \<circ> Wrote_all) ps) = filter (\<lambda>p. p \<noteq> []) ps"
      by (induction ps) simp_all
    with inv that have sent: "concat (cnChunks s) = frames (cnSent s)" "mset (cnSent s) = mset (filter (\<lambda>p. p \<noteq> []) ps)"
      unfolding connection_inv_def by auto
    then show "received s = accepted (cnSent s)" "mset (cnSent s) = mset (filter (\<lambda>p. p \<noteq> []) ps)"
      using inv by (auto intro!: received_all simp: connection_inv_def)
  qed
  moreover have "accepted (cnSent s) = cnSent s"
    if "mset (cnSent s) = mset (filter (\<lambda>p. p \<noteq> []) ps)" "\<forall>p \<in> set ps. length p \<le> DefaultMaxMessageSize"
    using that mset_eq_setD [OF that(1)] by (intro accepted_all) auto
  ultimately show ?thesis using queue received_sent [OF inv] unfolding accepted_def [symmetric] by auto
qed

text \<open>A frame of one byte, taken in two pieces.\<close>

lemma frame_one: "frame [b] = Some [0, 0, 0, 2, 2, 0, 0, 0, b]"
proof -
  have "Header_Encoder (Header_new 1) = Some [0, 0, 0, 2, 2, 0, 0, 0]" by code_simp
  then show ?thesis by (simp add: frame_def)
qed

definition at_writers :: "writer list \<Rightarrow> bytes \<Rightarrow> bytes list \<Rightarrow> bytes list \<Rightarrow> connection" where
  "at_writers ws stream chunks sent = \<lparr>cnWriters = ws, cnStream = stream, cnChunks = chunks, cnBroken = False, cnSent = sent\<rparr>"

lemma demo_piecewise:
  "connection_steps True True connection_init
     (at_writers [Wrote_all [1]] [0, 0, 0, 2, 2, 0, 0, 0, 1] [[0, 0, 0], [2, 2, 0, 0, 0, 1]] [[1]])"
proof -
  have "connection_step True True connection_init (at_writers [Waits 0 [1]] [] [] [])"
    using call [of "[1]" True 0 True connection_init] by (simp add: Write_enter_def frame_one connection_init_def at_writers_def)
  moreover have "connection_step True True (at_writers [Waits 0 [1]] [] [] []) (at_writers [Holds 0 [1] 0] [] [] [])"
    using lock [of 0 "at_writers [Waits 0 [1]] [] [] []" 0 "[1]" True True] by (simp add: at_writers_def)
  moreover have "connection_step True True (at_writers [Holds 0 [1] 0] [] [] []) (at_writers [Holds 0 [1] 4] [0, 0, 0, 2] [] [[1]])"
    using take_bytes [of 0 "at_writers [Holds 0 [1] 0] [] [] []" 0 "[1]" 0 _ True 4 True, OF _ _ frame_one] by (simp add: at_writers_def may_write_def)
  moreover have "connection_step True True (at_writers [Holds 0 [1] 4] [0, 0, 0, 2] [] [[1]])
      (at_writers [Holds 0 [1] 9] [0, 0, 0, 2, 2, 0, 0, 0, 1] [] [[1]])"
    using take_bytes [of 0 "at_writers [Holds 0 [1] 4] [0, 0, 0, 2] [] [[1]]" 0 "[1]" 4 _ True 5 True, OF _ _ frame_one]
    by (simp add: at_writers_def may_write_def)
  moreover have "connection_step True True (at_writers [Holds 0 [1] 9] [0, 0, 0, 2, 2, 0, 0, 0, 1] [] [[1]])
      (at_writers [Wrote_all [1]] [0, 0, 0, 2, 2, 0, 0, 0, 1] [] [[1]])"
    using unlock [of 0 "at_writers [Holds 0 [1] 9] [0, 0, 0, 2, 2, 0, 0, 0, 1] [] [[1]]" 0 "[1]" 9, OF _ _ frame_one]
    by (simp add: at_writers_def)
  moreover have "connection_step True True (at_writers [Wrote_all [1]] [0, 0, 0, 2, 2, 0, 0, 0, 1] [] [[1]])
      (at_writers [Wrote_all [1]] [0, 0, 0, 2, 2, 0, 0, 0, 1] [[0, 0, 0]] [[1]])"
    using hand_out [of "at_writers [Wrote_all [1]] [0, 0, 0, 2, 2, 0, 0, 0, 1] [] [[1]]" "[0, 0, 0]"] by (simp add: at_writers_def)
  moreover have "connection_step True True (at_writers [Wrote_all [1]] [0, 0, 0, 2, 2, 0, 0, 0, 1] [[0, 0, 0]] [[1]])
      (at_writers [Wrote_all [1]] [0, 0, 0, 2, 2, 0, 0, 0, 1] [[0, 0, 0], [2, 2, 0, 0, 0, 1]] [[1]])"
    using hand_out [of "at_writers [Wrote_all [1]] [0, 0, 0, 2, 2, 0, 0, 0, 1] [[0, 0, 0]] [[1]]" "[2, 2, 0, 0, 0, 1]"] by (simp add: at_writers_def)
  ultimately show ?thesis by (meson converse_rtranclp_into_rtranclp rtranclp.rtrancl_refl)
qed

theorem connection_refines_queue_witness:
  "connection_steps True True connection_init
     (at_writers [Wrote_all [1]] [0, 0, 0, 2, 2, 0, 0, 0, 1] [[0, 0, 0], [2, 2, 0, 0, 0, 1]] [[1]]) \<and>
   received (at_writers [Wrote_all [1]] [0, 0, 0, 2, 2, 0, 0, 0, 1] [[0, 0, 0], [2, 2, 0, 0, 0, 1]] [[1]]) = [[1]]"
proof (rule conjI [OF demo_piecewise])
  from connection_refines_queue [OF _ demo_piecewise, where ps = "[[1]]"] DefaultMaxMessageSize_def
  show "received (at_writers [Wrote_all [1]] [0, 0, 0, 2, 2, 0, 0, 0, 1] [[0, 0, 0], [2, 2, 0, 0, 0, 1]] [[1]]) = [[1]]"
    by (simp add: at_writers_def)
qed

end
