(* ===== verification/Go_Chan.thy ===== *)
theory Go_Chan
  imports Go_Prelude "HOL-Library.Multiset"
begin

text \<open>
  Buffered Go channels, and the interface of a queue behind a gate: a goroutine first tests the length of the queue and gives up when it
  is nearly full, and then sends, which blocks when the queue has filled up in between. The server's request channel and the metrics channel are both
  used this way, by several goroutines at once: the locale proves what holds for them whatever the interleaving, and how many there may be.
\<close>

section \<open>Channels\<close>

record 'a chan =
  chBuf :: "'a list"
  chCap :: nat
  chClosed :: bool

datatype 'a go_op = Done 'a | Blocks | Panics

definition make_chan :: "nat \<Rightarrow> 'a chan" where
  "make_chan n = \<lparr>chBuf = [], chCap = n, chClosed = False\<rparr>"

definition chan_send :: "'a chan \<Rightarrow> 'a \<Rightarrow> 'a chan go_op" where
  "chan_send c x =
     (if chClosed c then Panics
      else if length (chBuf c) < chCap c then Done (c\<lparr>chBuf := chBuf c @ [x]\<rparr>)
      else Blocks)"

text \<open>A receive from a closed, drained channel returns the zero value and \<open>false\<close>, here \<open>None\<close>.\<close>

definition chan_recv :: "'a chan \<Rightarrow> ('a option  \<times>  'a chan) go_op" where
  "chan_recv c =
     (case chBuf c of
        x # xs \<Rightarrow> Done (Some x, c\<lparr>chBuf := xs\<rparr>)
      | [] \<Rightarrow> if chClosed c then Done (None, c) else Blocks)"

definition chan_close :: "'a chan \<Rightarrow> 'a chan go_op" where
  "chan_close c = (if chClosed c then Panics else Done (c\<lparr>chClosed := True\<rparr>))"

section \<open>A queue behind a gate\<close>

text \<open>The test and the send are two actions of a goroutine, and others act in between. Waiting are those that have passed the test and not yet sent;
  the last two components record what has been sent and taken.\<close>

datatype 'a gate_ev = Test 'a | Send nat | Take

record ('q, 'a) gate =
  gtQueue :: 'q
  gtWaiting :: "'a list"
  gtSent :: "'a list"
  gtTaken :: "'a list"

definition gate_init :: "'q \<Rightarrow> ('q, 'a) gate" where
  "gate_init q = \<lparr>gtQueue = q, gtWaiting = [], gtSent = [], gtTaken = []\<rparr>"

text \<open>A send that blocks leaves its goroutine waiting; a take from an empty queue does nothing.\<close>

definition gate_event ::
    "('q \<Rightarrow> bool) \<Rightarrow> ('q \<Rightarrow> 'a \<Rightarrow> 'q option) \<Rightarrow> ('q \<Rightarrow> ('a \<times> 'q) option) \<Rightarrow> 'a gate_ev \<Rightarrow> ('q, 'a) gate \<Rightarrow> ('q, 'a) gate" where
  "gate_event full send poll ev g =
     (case ev of
        Test x \<Rightarrow> if full (gtQueue g) then g else g\<lparr>gtWaiting := gtWaiting g @ [x]\<rparr>
      | Send i \<Rightarrow>
          if i < length (gtWaiting g)
          then (case send (gtQueue g) (gtWaiting g ! i) of
                  None \<Rightarrow> g
                | Some q \<Rightarrow> g\<lparr>gtQueue := q, gtWaiting := take i (gtWaiting g) @ drop (Suc i) (gtWaiting g),
                               gtSent := gtSent g @ [gtWaiting g ! i]\<rparr>)
          else g
      | Take \<Rightarrow>
          (case poll (gtQueue g) of
             None \<Rightarrow> g
           | Some (x, q) \<Rightarrow> g\<lparr>gtQueue := q, gtTaken := gtTaken g @ [x]\<rparr>))"

fun gate_run ::
    "('q \<Rightarrow> bool) \<Rightarrow> ('q \<Rightarrow> 'a \<Rightarrow> 'q option) \<Rightarrow> ('q \<Rightarrow> ('a \<times> 'q) option) \<Rightarrow> 'a gate_ev list \<Rightarrow> ('q, 'a) gate \<Rightarrow> ('q, 'a) gate" where
  "gate_run full send poll [] g = g"
| "gate_run full send poll (ev # evs) g = gate_run full send poll evs (gate_event full send poll ev g)"

text \<open>At no moment of the run do more than \<open>n\<close> goroutines wait.\<close>

fun at_most ::
    "nat \<Rightarrow> ('q \<Rightarrow> bool) \<Rightarrow> ('q \<Rightarrow> 'a \<Rightarrow> 'q option) \<Rightarrow> ('q \<Rightarrow> ('a \<times> 'q) option) \<Rightarrow> 'a gate_ev list \<Rightarrow> ('q, 'a) gate \<Rightarrow> bool" where
  "at_most n full send poll [] g \<longleftrightarrow> length (gtWaiting g) \<le> n"
| "at_most n full send poll (ev # evs) g \<longleftrightarrow>
     length (gtWaiting g) \<le> n \<and> at_most n full send poll evs (gate_event full send poll ev g)"

text \<open>What was tested, in order.\<close>

definition tested :: "'a gate_ev list \<Rightarrow> 'a list" where
  "tested evs = concat (map (\<lambda>ev. case ev of Test x \<Rightarrow> [x] | _ \<Rightarrow> []) evs)"

lemma tested_simps [simp]:
  "tested [] = []" "tested (Test x # evs) = x # tested evs" "tested (Send i # evs) = tested evs" "tested (Take # evs) = tested evs"
  "tested (evs @ evs') = tested evs @ tested evs'"
  by (simp_all add: tested_def)

lemma gate_run_append: "gate_run full send poll (evs @ evs') g = gate_run full send poll evs' (gate_run full send poll evs g)"
  by (induction evs arbitrary: g) simp_all

lemma at_most_append:
  "at_most n full send poll (evs @ evs') g \<longleftrightarrow>
     at_most n full send poll evs g \<and> at_most n full send poll evs' (gate_run full send poll evs g)"
proof (induction evs arbitrary: g)
  case Nil
  then show ?case by (cases evs') auto
qed simp

lemma mset_take_drop: "i < length xs \<Longrightarrow> mset xs = add_mset (xs ! i) (mset (take i xs @ drop (Suc i) xs))"
  by (subst id_take_nth_drop [of i xs]) simp_all

locale gated_queue =
  fixes full :: "'q \<Rightarrow> bool"
    and send :: "'q \<Rightarrow> 'a \<Rightarrow> 'q option"
    and poll :: "'q \<Rightarrow> ('a \<times> 'q) option"
    and items :: "'q \<Rightarrow> 'a list"
    and ok :: "'q \<Rightarrow> bool"
    and limit :: nat
    and cap :: nat
  assumes full_limit: "ok q \<Longrightarrow> \<not> full q \<Longrightarrow> length (items q) \<le> limit"
    and send_items: "ok q \<Longrightarrow> send q x = Some q' \<Longrightarrow> items q' = items q @ [x] \<and> ok q'"
    and send_blocks: "ok q \<Longrightarrow> send q x = None \<longleftrightarrow> cap \<le> length (items q)"
    and poll_items: "ok q \<Longrightarrow> poll q = Some (x, q') \<Longrightarrow> items q = x # items q' \<and> ok q'"
    and poll_empty: "ok q \<Longrightarrow> poll q = None \<longleftrightarrow> items q = []"
begin

text \<open>Nothing is lost, doubled or overtaken behind the gate, and the queue never grows past its capacity.\<close>

definition gate_inv :: "'a multiset \<Rightarrow> ('q, 'a) gate \<Rightarrow> bool" where
  "gate_inv tests g \<longleftrightarrow>
     ok (gtQueue g) \<and> length (items (gtQueue g)) \<le> cap \<and> gtSent g = gtTaken g @ items (gtQueue g) \<and>
     mset (gtSent g) + mset (gtWaiting g) \<subseteq># tests"

lemma gate_inv_mono: "gate_inv tests g \<Longrightarrow> tests \<subseteq># tests' \<Longrightarrow> gate_inv tests' g"
  by (auto simp: gate_inv_def intro: subset_mset.order_trans)

lemma gate_inv_event: "gate_inv tests g \<Longrightarrow> gate_inv (tests + mset (tested [ev])) (gate_event full send poll ev g)"
proof (cases ev)
  case (Test x)
  assume "gate_inv tests g"
  then show ?thesis using Test by (auto simp: gate_event_def gate_inv_def ac_simps intro: subset_mset.order_trans)
next
  case (Send i)
  assume inv: "gate_inv tests g"
  show ?thesis
  proof (cases "i < length (gtWaiting g) \<and> send (gtQueue g) (gtWaiting g ! i) \<noteq> None")
    case True
    then obtain q where i: "i < length (gtWaiting g)" and q: "send (gtQueue g) (gtWaiting g ! i) = Some q" by blast
    from inv have ok: "ok (gtQueue g)" by (simp add: gate_inv_def)
    have "length (items (gtQueue g)) < cap" using send_blocks [OF ok, of "gtWaiting g ! i"] q by simp
    with inv i q send_items [OF ok q] Send show ?thesis
      by (auto simp: gate_event_def gate_inv_def mset_take_drop [OF i] ac_simps)
  next
    case False
    with inv Send show ?thesis by (auto simp: gate_event_def split: option.split)
  qed
next
  case Take
  assume inv: "gate_inv tests g"
  then have ok: "ok (gtQueue g)" by (simp add: gate_inv_def)
  from inv Take poll_items [OF ok] show ?thesis by (auto simp: gate_event_def gate_inv_def split: option.split)
qed

lemma gate_inv_init: "ok q \<Longrightarrow> items q = [] \<Longrightarrow> gate_inv {#} (gate_init q)"
  by (simp add: gate_inv_def gate_init_def)

lemma gate_inv_run: "gate_inv tests g \<Longrightarrow> gate_inv (tests + mset (tested evs)) (gate_run full send poll evs g)"
proof (induction evs arbitrary: g tests)
  case (Cons ev evs)
  from Cons.IH [OF gate_inv_event [OF Cons.prems], of ev] show ?case
    by (cases ev) (simp_all add: ac_simps)
qed simp

lemma run_fifo:
  assumes "ok q" "items q = []"
  shows "gate_inv (mset (tested evs)) (gate_run full send poll evs (gate_init q))"
  using gate_inv_run [OF gate_inv_init [OF assms], of evs] by simp

text \<open>With room for \<open>n\<close> above the limit, \<open>n\<close> goroutines at once never block.\<close>

lemma room_event:
  assumes "ok (gtQueue g)" "length (items (gtQueue g)) + length (gtWaiting g) \<le> limit + n"
    and "length (gtWaiting (gate_event full send poll ev g)) \<le> n"
  shows "length (items (gtQueue (gate_event full send poll ev g))) + length (gtWaiting (gate_event full send poll ev g)) \<le> limit + n"
proof (cases ev)
  case (Test x)
  with assms full_limit [OF assms(1)] show ?thesis by (fastforce simp: gate_event_def)
next
  case (Send i)
  with assms(2) send_items [OF assms(1)] show ?thesis by (auto simp: gate_event_def split: option.split)
next
  case Take
  with assms(2) poll_items [OF assms(1)] show ?thesis by (auto simp: gate_event_def split: option.split)
qed

lemma room_run:
  "gate_inv tests g \<Longrightarrow> length (items (gtQueue g)) + length (gtWaiting g) \<le> limit + n \<Longrightarrow> at_most n full send poll evs g \<Longrightarrow>
     length (items (gtQueue (gate_run full send poll evs g))) + length (gtWaiting (gate_run full send poll evs g)) \<le> limit + n"
proof (induction evs arbitrary: g tests)
  case (Cons ev evs)
  let ?g = "gate_event full send poll ev g"
  have "at_most n full send poll evs ?g" using Cons.prems(3) by simp
  then have "length (gtWaiting ?g) \<le> n" by (cases evs) simp_all
  with Cons.prems(1,2) have "length (items (gtQueue ?g)) + length (gtWaiting ?g) \<le> limit + n"
    by (intro room_event) (simp_all add: gate_inv_def)
  from Cons.IH [OF gate_inv_event [OF Cons.prems(1)] this \<open>at_most n full send poll evs ?g\<close>] show ?case by simp
qed simp

lemma run_never_blocks:
  assumes "ok q" "items q = []" "at_most n full send poll evs (gate_init q)" "limit + n \<le> cap"
    and "gtWaiting (gate_run full send poll evs (gate_init q)) \<noteq> []"
  shows "send (gtQueue (gate_run full send poll evs (gate_init q))) x \<noteq> None"
proof -
  let ?g = "gate_run full send poll evs (gate_init q)"
  have "length (items (gtQueue ?g)) + length (gtWaiting ?g) \<le> limit + n"
    by (rule room_run [OF gate_inv_init [OF assms(1,2)] _ assms(3)]) (simp add: gate_init_def assms(2))
  moreover have "ok (gtQueue ?g)" using run_fifo [OF assms(1,2), of evs] by (simp add: gate_inv_def)
  moreover have "0 < length (gtWaiting ?g)" using assms(5) by simp
  ultimately show ?thesis using send_blocks [of "gtQueue ?g" x] assms(4) by linarith
qed

text \<open>With one more, one of them can: the queue is filled up to the limit, all pass the test, and all but one send.\<close>

lemma sends_all:
  "ok (gtQueue g) \<Longrightarrow> length (items (gtQueue g)) + k \<le> cap \<Longrightarrow> k \<le> length (gtWaiting g) \<Longrightarrow> length (gtWaiting g) \<le> n \<Longrightarrow>
     at_most n full send poll (replicate k (Send 0)) g \<and> ok (gtQueue (gate_run full send poll (replicate k (Send 0)) g)) \<and>
     length (items (gtQueue (gate_run full send poll (replicate k (Send 0)) g))) = length (items (gtQueue g)) + k \<and>
     length (gtWaiting (gate_run full send poll (replicate k (Send 0)) g)) = length (gtWaiting g) - k"
proof (induction k arbitrary: g)
  case (Suc k)
  from Suc.prems send_blocks [OF Suc.prems(1), of "gtWaiting g ! 0"] obtain q where
    q: "send (gtQueue g) (gtWaiting g ! 0) = Some q" by (auto simp: not_le)
  let ?g = "g\<lparr>gtQueue := q, gtWaiting := drop (Suc 0) (gtWaiting g), gtSent := gtSent g @ [gtWaiting g ! 0]\<rparr>"
  have "0 < length (gtWaiting g)" using Suc.prems(3) by linarith
  then have g: "gate_event full send poll (Send 0) g = ?g" using q by (simp add: gate_event_def)
  from Suc.IH [of ?g] Suc.prems send_items [OF Suc.prems(1) q] g show ?case by simp
qed simp

lemma tests_all:
  "\<not> full (gtQueue g) \<Longrightarrow> length (gtWaiting g) + k \<le> n \<Longrightarrow>
     at_most n full send poll (replicate k (Test x)) g \<and>
     gate_run full send poll (replicate k (Test x)) g = g\<lparr>gtWaiting := gtWaiting g @ replicate k x\<rparr>"
proof (induction k arbitrary: g)
  case (Suc k)
  from Suc.IH [of "g\<lparr>gtWaiting := gtWaiting g @ [x]\<rparr>"] Suc.prems show ?case by (simp add: gate_event_def)
qed simp

lemma run_can_block:
  assumes "ok q" "items q = []" "\<And>q. ok q \<Longrightarrow> length (items q) \<le> limit \<Longrightarrow> \<not> full q" "limit + n = Suc cap" "limit \<le> cap" "0 < n"
  shows "\<exists>evs. at_most n full send poll evs (gate_init q) \<and> gtWaiting (gate_run full send poll evs (gate_init q)) \<noteq> [] \<and>
     send (gtQueue (gate_run full send poll evs (gate_init q))) x = None"
proof -
  have fill: "\<exists>evs. at_most n full send poll evs (gate_init q) \<and> gtWaiting (gate_run full send poll evs (gate_init q)) = [] \<and>
      ok (gtQueue (gate_run full send poll evs (gate_init q))) \<and> length (items (gtQueue (gate_run full send poll evs (gate_init q)))) = k"
    if "k \<le> limit" for k
    using that
  proof (induction k)
    case 0
    show ?case using assms(1,2) by (intro exI [of _ "[]"]) (simp add: gate_init_def)
  next
    case (Suc k)
    then obtain evs where evs: "at_most n full send poll evs (gate_init q)" "gtWaiting (gate_run full send poll evs (gate_init q)) = []"
      "ok (gtQueue (gate_run full send poll evs (gate_init q)))" "length (items (gtQueue (gate_run full send poll evs (gate_init q)))) = k"
      by auto
    let ?g = "gate_run full send poll evs (gate_init q)" and ?more = "[Test x] @ replicate 1 (Send 0)"
    have "\<not> full (gtQueue ?g)" using assms(3) evs(3,4) Suc.prems by simp
    then have "gate_event full send poll (Test x) ?g = ?g\<lparr>gtWaiting := [x]\<rparr>" using evs(2) by (simp add: gate_event_def)
    with sends_all [of "?g\<lparr>gtWaiting := [x]\<rparr>" 1 n] evs assms(5,6) Suc.prems show ?case
      by (intro exI [of _ "evs @ ?more"]) (simp add: gate_run_append at_most_append)
  qed
  from fill [of limit] obtain evs where evs: "at_most n full send poll evs (gate_init q)" "gtWaiting (gate_run full send poll evs (gate_init q)) = []"
    "ok (gtQueue (gate_run full send poll evs (gate_init q)))" "length (items (gtQueue (gate_run full send poll evs (gate_init q)))) = limit"
    by auto
  let ?g = "gate_run full send poll evs (gate_init q)"
  let ?g1 = "?g\<lparr>gtWaiting := replicate n x\<rparr>"
  have t: "at_most n full send poll (replicate n (Test x)) ?g" "gate_run full send poll (replicate n (Test x)) ?g = ?g1"
    using tests_all [of ?g n n x] assms(3) evs by simp_all
  have room: "limit + (n - 1) \<le> cap" using assms(4,6) by linarith
  have s: "at_most n full send poll (replicate (n - 1) (Send 0)) ?g1" "ok (gtQueue (gate_run full send poll (replicate (n - 1) (Send 0)) ?g1))"
    "length (items (gtQueue (gate_run full send poll (replicate (n - 1) (Send 0)) ?g1))) = limit + (n - 1)"
    "length (gtWaiting (gate_run full send poll (replicate (n - 1) (Send 0)) ?g1)) = n - (n - 1)"
    using sends_all [of ?g1 "n - 1" n] evs(3,4) room by simp_all
  have "cap = limit + (n - 1)" "n - (n - 1) \<noteq> 0" using assms(4,6) by linarith+
  with s send_blocks [OF s(2), of x] evs(1) t show ?thesis
    by (intro exI [of _ "(evs @ replicate n (Test x)) @ replicate (n - 1) (Send 0)"])
      (auto simp: gate_run_append at_most_append simp del: length_0_conv simp flip: length_0_conv)
qed

text \<open>As long as not more are tested than the limit allows, nobody is turned away.\<close>

lemma all_pass_event:
  assumes "gate_inv tests g" "mset (gtSent g) + mset (gtWaiting g) = tests" "size tests + length (tested [ev]) \<le> Suc limit"
    and "\<And>q. ok q \<Longrightarrow> length (items q) \<le> limit \<Longrightarrow> \<not> full q"
  shows "mset (gtSent (gate_event full send poll ev g)) + mset (gtWaiting (gate_event full send poll ev g)) = tests + mset (tested [ev])"
proof (cases ev)
  case (Test x)
  have "length (gtSent g) \<le> size tests" using assms(2) by (metis size_mset size_union le_add1)
  moreover have "length (items (gtQueue g)) \<le> length (gtSent g)" using assms(1) by (simp add: gate_inv_def)
  ultimately have "\<not> full (gtQueue g)" using assms(1,3,4) Test by (simp add: gate_inv_def)
  with Test assms(2) show ?thesis by (simp add: gate_event_def)
next
  case (Send i)
  with assms(2) show ?thesis
    by (auto simp: gate_event_def mset_take_drop [of i] split: option.split)
next
  case Take
  with assms(2) show ?thesis by (auto simp: gate_event_def split: option.split)
qed

lemma all_pass_run:
  "gate_inv tests g \<Longrightarrow> mset (gtSent g) + mset (gtWaiting g) = tests \<Longrightarrow> size tests + length (tested evs) \<le> Suc limit \<Longrightarrow>
     (\<And>q. ok q \<Longrightarrow> length (items q) \<le> limit \<Longrightarrow> \<not> full q) \<Longrightarrow>
     mset (gtSent (gate_run full send poll evs g)) + mset (gtWaiting (gate_run full send poll evs g)) = tests + mset (tested evs)"
proof (induction evs arbitrary: g tests)
  case (Cons ev evs)
  have t: "tested (ev # evs) = tested [ev] @ tested evs" by (cases ev) simp_all
  with Cons.prems(3) have "size tests + length (tested [ev]) \<le> Suc limit" by simp
  from Cons.IH [OF gate_inv_event [OF Cons.prems(1)] all_pass_event [OF Cons.prems(1,2) this Cons.prems(4)] _ Cons.prems(4)] Cons.prems(3)
  show ?case unfolding t by (simp add: ac_simps)
qed simp

text \<open>With room for all that wait, the sends and takes that are left empty gate and queue.\<close>

lemma takes_all:
  "ok (gtQueue g) \<Longrightarrow>
     items (gtQueue (gate_run full send poll (replicate (length (items (gtQueue g))) Take) g)) = [] \<and>
     gtWaiting (gate_run full send poll (replicate (length (items (gtQueue g))) Take) g) = gtWaiting g"
proof (induction "items (gtQueue g)" arbitrary: g)
  case Nil
  then show ?case by (metis gate_run.simps(1) length_0_conv replicate_0)
next
  case (Cons x xs)
  from Cons.hyps(2) Cons.prems poll_empty [OF Cons.prems] obtain y q where q: "poll (gtQueue g) = Some (y, q)" by fastforce
  from poll_items [OF Cons.prems q] Cons.hyps(2) have q': "items q = xs" "ok q" by simp_all
  from Cons.hyps(1) [of "g\<lparr>gtQueue := q, gtTaken := gtTaken g @ [y]\<rparr>"] q' show ?case
    unfolding Cons.hyps(2) [symmetric] by (simp add: gate_event_def q)
qed

lemma drains:
  assumes "ok (gtQueue g)" "length (items (gtQueue g)) + length (gtWaiting g) \<le> cap"
  defines "rest \<equiv> replicate (length (gtWaiting g)) (Send 0) @ replicate (length (items (gtQueue g)) + length (gtWaiting g)) Take"
  shows "gtWaiting (gate_run full send poll rest g) = [] \<and> items (gtQueue (gate_run full send poll rest g)) = []"
proof -
  let ?g = "gate_run full send poll (replicate (length (gtWaiting g)) (Send 0)) g"
  have "ok (gtQueue ?g)" "length (items (gtQueue ?g)) = length (items (gtQueue g)) + length (gtWaiting g)" "gtWaiting ?g = []"
    using sends_all [OF assms(1,2) order_refl order_refl] by simp_all
  with takes_all [of ?g] show ?thesis by (simp add: rest_def gate_run_append)
qed

end

end
