(* ===== verification/Common.thy ===== *)
theory Common
  imports Go_Chan
begin

text \<open>
  The helpers of \<open>common/common.go\<close>: the id of an RPC method (64-bit FNV-1a of its name), the choice of the
  Ethernet address, the trace id carried in a context, and the test whether a channel is closed.
\<close>

section \<open>Method ids\<close>

text \<open>\<open>hash/fnv\<close>: for each byte, xor it in and multiply by the prime.\<close>

definition fnv_offset :: u64 where "fnv_offset = 14695981039346656037"
definition fnv_prime :: u64 where "fnv_prime = 1099511628211"

definition fnv_step :: "u64 \<Rightarrow> byte \<Rightarrow> u64" where
  "fnv_step h b = (h XOR ucast b) * fnv_prime"

definition GenRid :: "bytes \<Rightarrow> u64" where
  "GenRid mothed = foldl fnv_step fnv_offset mothed"

text \<open>The prime is odd, so multiplying by it can be undone.\<close>

lemma fnv_prime_inverse: "fnv_prime * 14886173955864302971 = 1"
  by (simp add: fnv_prime_def)

lemma mult_prime_inj:
  assumes "x * fnv_prime = y * fnv_prime"
  shows "x = y"
proof -
  have undo: "(z * fnv_prime) * 14886173955864302971 = z" for z
    by (simp only: mult.assoc fnv_prime_inverse mult_1_right)
  show ?thesis by (rule trans [OF undo [of x, symmetric, unfolded assms] undo])
qed

lemma xor_cancel:
  assumes "(a :: u64) XOR c = b XOR c"
  shows "a = b"
proof -
  have undo: "(z XOR c) XOR c = z" for z :: u64
    by (simp only: xor.assoc xor_self_eq xor.right_neutral)
  show ?thesis by (rule trans [OF undo [of a, symmetric, unfolded assms] undo])
qed

lemma fnv_step_inj_state: "fnv_step h b = fnv_step h' b \<Longrightarrow> h = h'"
  unfolding fnv_step_def by (rule xor_cancel [OF mult_prime_inj])

lemma fnv_step_inj_byte: "fnv_step h b = fnv_step h b' \<Longrightarrow> b = b'"
proof -
  assume "fnv_step h b = fnv_step h b'"
  then have "h XOR ucast b = h XOR (ucast b' :: u64)" unfolding fnv_step_def by (rule mult_prime_inj)
  then have "(ucast b :: u64) XOR h = ucast b' XOR h" by (simp only: xor.commute)
  then have "(ucast b :: u64) = ucast b'" by (rule xor_cancel)
  then have "uint (ucast b :: u64) = uint (ucast b' :: u64)" by simp
  then show ?thesis by (simp add: uint_up_ucast is_up word_uint_eq_iff)
qed

lemma fnv_fold_inj: "foldl fnv_step h bs = foldl fnv_step h' bs \<Longrightarrow> h = h'"
proof (induction bs arbitrary: h h')
  case (Cons b bs)
  from Cons.prems have "foldl fnv_step (fnv_step h b) bs = foldl fnv_step (fnv_step h' b) bs" by simp
  from fnv_step_inj_state [OF Cons.IH [OF this]] show ?case .
qed simp

section \<open>The Ethernet address\<close>

text \<open>An interface address: whether it is an \<open>IPNet\<close>, whether it is a loopback address, and its
  IPv4 form.\<close>

record net_addr =
  naIPNet :: bool
  naLoopback :: bool
  naIPv4 :: "bytes option"

text \<open>The argument is what \<open>net.InterfaceAddrs\<close> returns; \<open>None\<close> is its error. An empty address and
  no error when nothing matches.\<close>

fun first_ipv4 :: "net_addr list \<Rightarrow> bytes" where
  "first_ipv4 [] = []"
| "first_ipv4 (a # addrs) =
     (if naIPNet a \<and> \<not>  naLoopback a
      then (case naIPv4 a of Some ip \<Rightarrow> ip | None \<Rightarrow> first_ipv4 addrs)
      else first_ipv4 addrs)"

definition GetEthIp :: "net_addr list option \<Rightarrow> bytes option" where
  "GetEthIp addrs = map_option first_ipv4 addrs"

section \<open>Trace ids\<close>

text \<open>A context is the list of the values attached to it, the latest first; a value is a string or something else.\<close>

datatype ctx_value = CtxString bytes | CtxOther

type_synonym go_context = "(bytes  \<times>  ctx_value) list"

definition SetTraceId :: "go_context \<Rightarrow> bytes \<Rightarrow> go_context" where
  "SetTraceId ctx traceId = (str ''traceId'', CtxString traceId) # ctx"

definition GetTraceId :: "go_context \<Rightarrow> bytes" where
  "GetTraceId ctx =
     (case map_of ctx (str ''traceId'') of Some (CtxString s) \<Rightarrow> s | _ \<Rightarrow> [])"

section \<open>Closed channels\<close>

text \<open>A receive that does not block: a buffered value is taken out of the channel and lost.\<close>

definition ClosedChanInt :: "'a chan \<Rightarrow> bool  \<times>  'a chan" where
  "ClosedChanInt ch =
     (case chan_recv ch of
        Done (None, ch') \<Rightarrow> (True, ch')
      | Done (Some _, ch') \<Rightarrow> (False, ch')
      | _ \<Rightarrow> (False, ch))"

section \<open>Unique ids\<close>

text \<open>The package \<open>uuid\<close> makes an id (\<open>new\<close>) and writes it (\<open>to_text\<close>).\<close>

definition GenUid :: "'uuid \<Rightarrow> ('uuid \<Rightarrow> bytes) \<Rightarrow> bytes" where
  "GenUid new to_text = to_text new"

section \<open>Reported metrics\<close>

text \<open>The calls of the package \<open>metrics\<close> that client and server make; what such a call does is in \<open>Monitor\<close>.\<close>

datatype mev =
    MCounter bytes bytes
  | MCounterByAdd bytes bytes i64
  | MMethodCode bytes i32
  | MSummary bytes

section \<open>Properties\<close>

text \<open>C34. Two method names of the same length that differ in a single byte never get the same RPC id.\<close>
theorem GenRid_one_byte:
  assumes "b \<noteq> b'"
  shows "GenRid (pre @ [b] @ post) \<noteq> GenRid (pre @ [b'] @ post)"
proof
  assume "GenRid (pre @ [b] @ post) = GenRid (pre @ [b'] @ post)"
  then have "foldl fnv_step (fnv_step (foldl fnv_step fnv_offset pre) b) post =
      foldl fnv_step (fnv_step (foldl fnv_step fnv_offset pre) b') post"
    by (simp only: GenRid_def foldl_append foldl_Cons foldl_Nil)
  then have "fnv_step (foldl fnv_step fnv_offset pre) b = fnv_step (foldl fnv_step fnv_offset pre) b'"
    by (rule fnv_fold_inj)
  from fnv_step_inj_byte [OF this] assms show False by simp
qed

theorem GenRid_one_byte_witness: "GenRid (str ''S.A'') \<noteq> GenRid (str ''S.B'')"
  using GenRid_one_byte [of 65 66 "[83, 46]" "[]"] by simp

text \<open>\<open>ClosedChanInt\<close> answers whether an empty channel is closed, but on a channel that holds a value it answers no, closed or
  not, and removes the value.\<close>
theorem ClosedChanInt_consumes:
  "ClosedChanInt ch =
     (case chBuf ch of
        [] \<Rightarrow> (chClosed ch, ch)
      | x # xs \<Rightarrow> (False, ch\<lparr>chBuf := xs\<rparr>))"
  by (simp add: ClosedChanInt_def chan_recv_def split: list.splits)

end
