(* ===== verification/Pool.thy ===== *)
theory Pool
  imports Common
begin

text \<open>
  The client's connection pool of \<open>client/pools.go\<close>: up to eight connections for each service, filled on demand by
  \<open>response\<close>, which picks one at random, and emptied one by one by \<open>removeByClient\<close>. The outcomes of connecting
  (through the registry and a TCP dial) and the random choice are arguments. \<open>removeByClient\<close> has two phases under two
  locks; they are two definitions, so that other operations can come between them.
\<close>

section \<open>State\<close>

text \<open>A pooled client: its connection, its unique name, and when it was last chosen.\<close>

record client =
  clConn :: nat
  clName :: bytes
  clSvrname :: bytes
  clGroup :: bytes
  clStamp :: i64

type_synonym rpcconn = "bytes \<Rightarrow> client list"

definition RPC_POOL_SIZE :: nat where "RPC_POOL_SIZE = 8"

definition pool_new :: rpcconn where
  "pool_new = (%_. [])"

definition pool_key :: "bytes \<Rightarrow> bytes \<Rightarrow> bytes" where
  "pool_key grp svrname = grp @ svrname"

section \<open>Choosing a connection\<close>

text \<open>The outcome of one \<open>connect\<close>: a connection under a fresh name, or a failure.\<close>

type_synonym dial = "(nat  \<times>  bytes) option"

text \<open>\<open>genCon(num)\<close>: \<open>num\<close> attempts, failures skipped. The attempts not used are returned.\<close>

fun genCon :: "bytes \<Rightarrow> bytes \<Rightarrow> i64 \<Rightarrow> nat \<Rightarrow> dial list \<Rightarrow> client list  \<times>  dial list" where
  "genCon grp svrname now 0 ds = ([], ds)"
| "genCon grp svrname now (Suc num) [] = ([], [])"
| "genCon grp svrname now (Suc num) (d # ds) =
     (let (cs, rest) = genCon grp svrname now num ds
      in (case d of
            None \<Rightarrow> cs
          | Some (conn, name) \<Rightarrow>
              \<lparr>clConn = conn, clName = name, clSvrname = svrname, clGroup = grp, clStamp = now\<rparr> # cs, rest))"

text \<open>Filling, at the start of \<open>response\<close>: an empty entry gets eight attempts, and then what is missing of
  eight is attempted again.\<close>

definition pool_fill :: "bytes \<Rightarrow> bytes \<Rightarrow> i64 \<Rightarrow> dial list \<Rightarrow> rpcconn \<Rightarrow> rpcconn" where
  "pool_fill grp svrname now ds p =
     (let key = pool_key grp svrname;
          (p, ds) = (if length (p key) = 0
            then (let (cs, ds) = genCon grp svrname now RPC_POOL_SIZE ds in (p(key := cs), ds))
            else (p, ds))
      in if length (p key) < RPC_POOL_SIZE
         then (let (cs, ds) = genCon grp svrname now (RPC_POOL_SIZE - length (p key)) ds
               in p(key := p key @ cs))
         else p)"

text \<open>\<open>response\<close>: fill, then stamp and copy the connection that \<open>rng.Intn\<close> picks. The result is the
  chosen client, or an error when there is none.\<close>

definition pool_response ::
    "bytes \<Rightarrow> bytes \<Rightarrow> i64 \<Rightarrow> dial list \<Rightarrow> (nat \<Rightarrow> nat) \<Rightarrow> rpcconn \<Rightarrow> client option  \<times>  rpcconn" where
  "pool_response grp svrname now ds intn p =
     (let key = pool_key grp svrname;
          p = pool_fill grp svrname now ds p
      in if length (p key) = 0 then (None, p)
         else (let i = intn (length (p key));
                   c = (p key ! i)\<lparr>clStamp := now\<rparr>
               in (Some c, p(key := (p key)[i := c]))))"

section \<open>Removing a connection\<close>

text \<open>The first phase, under the read lock: the index of the client with that name (the last one), and a copy of the others.\<close>

fun remove_scan :: "bytes \<Rightarrow> nat \<Rightarrow> client list \<Rightarrow> nat option  \<times>  client list" where
  "remove_scan name k [] = (None, [])"
| "remove_scan name k (v # vs) =
     (let (index, rest) = remove_scan name (Suc k) vs
      in if clName v = name then (case index of None \<Rightarrow> Some k | Some i \<Rightarrow> Some i, rest)
         else (index, v # rest))"

text \<open>The second phase, under the write lock: the copy replaces the entry, whatever it is by now.\<close>

definition remove_store :: "bytes \<Rightarrow> nat option  \<times>  client list \<Rightarrow> rpcconn \<Rightarrow> rpcconn" where
  "remove_store key scan p =
     (case scan of (None, _) \<Rightarrow> p | (Some _, rpcconn) \<Rightarrow> p(key := rpcconn))"

definition removeByClient :: "bytes \<Rightarrow> bytes \<Rightarrow> bytes \<Rightarrow> rpcconn \<Rightarrow> rpcconn" where
  "removeByClient grp svrname name p =
     (let key = pool_key grp svrname in remove_store key (remove_scan name 0 (p key)) p)"

section \<open>Lemmas\<close>

lemma length_genCon: "length (fst (genCon g s now n ds)) \<le> n"
  by (induction g s now n ds rule: genCon.induct) (auto simp: Let_def split: prod.splits option.splits)

lemma genCon_all:
  "n \<le> length ds \<Longrightarrow> list_all (%d. d \<noteq> None) (take n ds) \<Longrightarrow> length (fst (genCon g s now n ds)) = n"
  by (induction g s now n ds rule: genCon.induct) (auto simp: Let_def split: prod.splits option.splits)

lemma genCon_rest: "snd (genCon g s now n ds) = drop n ds"
  by (induction g s now n ds rule: genCon.induct) (auto simp: Let_def split: prod.splits option.splits)

lemma remove_scan_filter:
  "snd (remove_scan name k vs) = filter (%v. clName v \<noteq> name) vs \<and>
   (fst (remove_scan name k vs) = None \<longleftrightarrow> name \<notin> clName ` set vs)"
  by (induction name k vs rule: remove_scan.induct) (auto simp: Let_def split: prod.splits option.splits)

text \<open>The two rounds of \<open>pool_fill\<close>.\<close>

lemma pool_fill_cases:
  obtains cs1 ds1 cs2 ds2 where
    "genCon grp svrname now RPC_POOL_SIZE ds = (cs1, ds1)"
    "genCon grp svrname now (RPC_POOL_SIZE - length (if p (pool_key grp svrname) = [] then cs1 else p (pool_key grp svrname)))
       (if p (pool_key grp svrname) = [] then ds1 else ds) = (cs2, ds2)"
    "pool_fill grp svrname now ds p =
       (let q = (if p (pool_key grp svrname) = [] then cs1 else p (pool_key grp svrname))
        in if length q < RPC_POOL_SIZE then p(pool_key grp svrname := q @ cs2)
           else p(pool_key grp svrname := q))"
proof -
  let ?k = "pool_key grp svrname"
  obtain cs1 ds1 where g1: "genCon grp svrname now RPC_POOL_SIZE ds = (cs1, ds1)" by fastforce
  obtain cs2 ds2 where g2: "genCon grp svrname now (RPC_POOL_SIZE - length (if p ?k = [] then cs1 else p ?k))
      (if p ?k = [] then ds1 else ds) = (cs2, ds2)" by fastforce
  show thesis
    by (rule that [OF g1 g2]) (use g1 g2 in \<open>auto simp: pool_fill_def Let_def split: prod.splits\<close>)
qed

lemma pool_fill_bounds:
  assumes "length (p (pool_key grp svrname)) \<le> RPC_POOL_SIZE"
  shows "length (pool_fill grp svrname now ds p (pool_key grp svrname)) \<le> RPC_POOL_SIZE"
    and "k \<noteq> pool_key grp svrname \<Longrightarrow> pool_fill grp svrname now ds p k = p k"
proof -
  obtain cs1 ds1 cs2 ds2 where g: "genCon grp svrname now RPC_POOL_SIZE ds = (cs1, ds1)"
    "genCon grp svrname now (RPC_POOL_SIZE - length (if p (pool_key grp svrname) = [] then cs1 else p (pool_key grp svrname)))
       (if p (pool_key grp svrname) = [] then ds1 else ds) = (cs2, ds2)"
    and fill: "pool_fill grp svrname now ds p =
       (let q = (if p (pool_key grp svrname) = [] then cs1 else p (pool_key grp svrname))
        in if length q < RPC_POOL_SIZE then p(pool_key grp svrname := q @ cs2)
           else p(pool_key grp svrname := q))"
    by (rule pool_fill_cases)
  have "length cs1 \<le> RPC_POOL_SIZE"
    "length cs2 \<le> RPC_POOL_SIZE - length (if p (pool_key grp svrname) = [] then cs1 else p (pool_key grp svrname))"
    using length_genCon g by (metis fst_conv)+
  with assms show "length (pool_fill grp svrname now ds p (pool_key grp svrname)) \<le> RPC_POOL_SIZE"
    by (auto simp: fill Let_def)
  show "k \<noteq> pool_key grp svrname \<Longrightarrow> pool_fill grp svrname now ds p k = p k"
    by (simp add: fill Let_def)
qed

text \<open>When every dial succeeds, the pool is full.\<close>

lemma pool_fill_full:
  assumes "length (p (pool_key grp svrname)) \<le> RPC_POOL_SIZE"
    and "list_all (%d. d \<noteq> None) (take 8 ds)" "8 \<le> length ds"
  shows "length (pool_fill grp svrname now ds p (pool_key grp svrname)) = RPC_POOL_SIZE"
proof -
  let ?k = "pool_key grp svrname"
  obtain cs1 ds1 cs2 ds2 where g: "genCon grp svrname now RPC_POOL_SIZE ds = (cs1, ds1)"
    "genCon grp svrname now (RPC_POOL_SIZE - length (if p ?k = [] then cs1 else p ?k))
       (if p ?k = [] then ds1 else ds) = (cs2, ds2)"
    and fill: "pool_fill grp svrname now ds p =
       (let q = (if p ?k = [] then cs1 else p ?k)
        in if length q < RPC_POOL_SIZE then p(?k := q @ cs2) else p(?k := q))"
    by (rule pool_fill_cases)
  have all: "length (fst (genCon grp svrname now n ds)) = n" if "n \<le> 8" for n
  proof (rule genCon_all)
    show "n \<le> length ds" using that assms(3) by simp
    have "take n ds = take n (take 8 ds)" using that by (simp add: min_def)
    then show "list_all (%d. d \<noteq> None) (take n ds)"
      using assms(2) by (metis append_take_drop_id list_all_append)
  qed
  show ?thesis
  proof (cases "p ?k = []")
    case True
    with all [of 8] g(1) show ?thesis by (simp add: fill RPC_POOL_SIZE_def)
  next
    case False
    with all [of "8 - length (p ?k)"] g(2) assms(1) show ?thesis
      by (simp add: fill RPC_POOL_SIZE_def Let_def)
  qed
qed

lemma removed_filter:
  "removeByClient grp svrname name p =
     p(pool_key grp svrname := filter (%v. clName v \<noteq> name) (p (pool_key grp svrname)))"
proof (cases "name \<in> clName ` set (p (pool_key grp svrname))")
  case True
  then show ?thesis
    using remove_scan_filter [of name 0 "p (pool_key grp svrname)"]
    by (auto simp: removeByClient_def remove_store_def Let_def split: prod.splits option.splits)
next
  case False
  then have "filter (%v. clName v \<noteq> name) (p (pool_key grp svrname)) = p (pool_key grp svrname)"
    by (auto simp: filter_id_conv)
  then show ?thesis
    using False remove_scan_filter [of name 0 "p (pool_key grp svrname)"]
    by (auto simp: removeByClient_def remove_store_def Let_def fun_upd_idem split: prod.splits option.splits)
qed

section \<open>Properties\<close>

text \<open>\<open>response\<close> keeps at most eight connections for the service it is asked for, and touches no other
  service's. It returns a client exactly when the pool is not empty afterwards, and the client is one of the pool. When no
  dial fails, the pool is full.\<close>
theorem pool_response_bounds:
  assumes "length (p (pool_key grp svrname)) \<le> RPC_POOL_SIZE" "\<And>n. 0 < n \<Longrightarrow> intn n < n"
    and "pool_response grp svrname now ds intn p = (c, p')"
  shows "length (p' (pool_key grp svrname)) \<le> RPC_POOL_SIZE \<and>
     (\<forall>k. k \<noteq> pool_key grp svrname \<longrightarrow> p' k = p k) \<and>
     (case c of None \<Rightarrow> p' (pool_key grp svrname) = [] | Some c \<Rightarrow> c \<in> set (p' (pool_key grp svrname))) \<and>
     (list_all (%d. d \<noteq> None) (take 8 ds) \<and> 8 \<le> length ds \<longrightarrow>
        length (p' (pool_key grp svrname)) = RPC_POOL_SIZE)"
proof -
  let ?k = "pool_key grp svrname" and ?q = "pool_fill grp svrname now ds p"
  note fill = pool_fill_bounds(1) [of p grp svrname, OF assms(1), of now ds]
    pool_fill_bounds(2) [of p grp svrname, OF assms(1), where now = now and ds = ds]
    pool_fill_full [of p grp svrname, OF assms(1), of ds now]
  show ?thesis
  proof (cases "?q ?k = []")
    case True
    with assms(3) fill show ?thesis by (auto simp: pool_response_def Let_def RPC_POOL_SIZE_def)
  next
    case False
    then have "intn (length (?q ?k)) < length (?q ?k)" using assms(2) by simp
    with False assms(3) fill show ?thesis
      by (auto simp: pool_response_def Let_def intro: set_update_memI)
  qed
qed

definition demo_dials :: "dial list" where
  "demo_dials = map (%i. Some (i, [of_nat i])) [0..<8]"

theorem pool_response_bounds_witness:
  "length (snd (pool_response [1] [2] 0 demo_dials (%_. 0) pool_new) [1, 2]) = RPC_POOL_SIZE"
proof -
  obtain c p' where r: "pool_response [1] [2] 0 demo_dials (%_. 0) pool_new = (c, p')" by fastforce
  have d: "length demo_dials = 8" "list_all (%d. d \<noteq> None) (take 8 demo_dials)"
    by (simp_all add: demo_dials_def list_all_iff)
  show ?thesis
    using pool_response_bounds [OF _ _ r] d r by (simp add: pool_new_def RPC_POOL_SIZE_def pool_key_def)
qed

text \<open>Run alone, \<open>removeByClient\<close> removes the clients with that name from the service's entry and keeps the others in their
  order; another entry is not touched.\<close>
theorem removeByClient_filters:
  "removeByClient grp svrname name p =
     p(pool_key grp svrname := filter (%v. clName v \<noteq> name) (p (pool_key grp svrname)))"
  by (rule removed_filter)

text \<open>Two removals from one service at the same time lose one of them: when both scan before either stores, the
  entry ends as the second one's copy, which still holds the client the first one removed. The closed connection stays in the
  pool and can be chosen again.\<close>
theorem concurrent_remove_lost:
  assumes "c \<in> set (p key)" "clName c = name1" "d \<in> set (p key)" "clName d = name2" "name1 \<noteq> name2"
  shows "c \<in> set (remove_store key (remove_scan name2 0 (p key)) (remove_store key (remove_scan name1 0 (p key)) p) key)"
proof -
  have "fst (remove_scan name2 0 (p key)) \<noteq> None"
    using assms remove_scan_filter [of name2 0 "p key"] by auto
  then show ?thesis
    using assms remove_scan_filter [of name2 0 "p key"]
    by (auto simp: remove_store_def split: prod.splits)
qed

definition demo_client :: "bytes \<Rightarrow> client" where
  "demo_client name = \<lparr>clConn = 0, clName = name, clSvrname = [], clGroup = [], clStamp = 0\<rparr>"

theorem concurrent_remove_lost_witness:
  "demo_client [1] \<in> set (remove_store [9] (remove_scan [2] 0 [demo_client [1], demo_client [2]])
     (remove_store [9] (remove_scan [1] 0 [demo_client [1], demo_client [2]])
       (%_. [demo_client [1], demo_client [2]])) [9])"
  using concurrent_remove_lost [of "demo_client [1]" "%_. [demo_client [1], demo_client [2]]" "[9]" "[1]" "demo_client [2]" "[2]"]
  by (simp add: demo_client_def)

text \<open>The key of a service is its group and name run together, so two services can share an entry: with a full pool, a
  call to the service \<open>x @ svrname\<close> of group \<open>grp\<close> gets a connection dialled for the service
  \<open>svrname\<close> of group \<open>grp @ x\<close>, and no dial is made.\<close>
theorem pool_key_collision:
  assumes "length (p (pool_key (grp @ x) svrname)) = RPC_POOL_SIZE" "\<And>n. 0 < n \<Longrightarrow> intn n < n"
  shows "\<exists>c. pool_response grp (x @ svrname) now ds intn p = pool_response (grp @ x) svrname now ds' intn p \<and>
     fst (pool_response grp (x @ svrname) now ds intn p) = Some (c\<lparr>clStamp := now\<rparr>) \<and>
     c \<in> set (p (pool_key (grp @ x) svrname))"
proof -
  have k: "pool_key grp (x @ svrname) = pool_key (grp @ x) svrname" by (simp add: pool_key_def)
  have "pool_fill grp (x @ svrname) now ds p = p" "pool_fill (grp @ x) svrname now ds' p = p"
    using assms(1) by (auto simp: pool_fill_def Let_def k RPC_POOL_SIZE_def)
  moreover have "p (pool_key (grp @ x) svrname) ! intn RPC_POOL_SIZE \<in> set (p (pool_key (grp @ x) svrname))"
    using assms by (intro nth_mem) (simp add: RPC_POOL_SIZE_def)
  ultimately show ?thesis
    using assms(1) by (auto simp: pool_response_def Let_def k RPC_POOL_SIZE_def)
qed

theorem pool_key_collision_witness:
  "fst (pool_response [1] [2, 3] 0 [] (%_. 0) (%_. replicate 8 (demo_client [7]))) =
   fst (pool_response [1, 2] [3] 0 [] (%_. 0) (%_. replicate 8 (demo_client [7])))"
  using pool_key_collision [of "%_. replicate 8 (demo_client [7])" "[1]" "[2]" "[3]" "%_. 0" 0 "[]" "[]"]
  by (auto simp: RPC_POOL_SIZE_def)

end
