(* ===== verification/Go_Strings.thy ===== *)
theory Go_Strings
  imports Go_Prelude
begin

text \<open>
  What the program uses of Go's \<open>strconv\<close>, \<open>fmt\<close> and \<open>strings\<close>: printing and reading decimal numbers,
  splitting at a byte, and searching for a substring. A string is its bytes.
\<close>

section \<open>Numbers in strings\<close>

text \<open>\<open>%d\<close>: the decimal digits, with a sign.\<close>

fun show_nat :: "nat \<Rightarrow> bytes" where
  "show_nat n = (if n < 10 then [of_nat (48 + n)] else show_nat (n div 10) @ [of_nat (48 + n mod 10)])"

declare show_nat.simps [simp del]

definition show_int :: "int \<Rightarrow> bytes" where
  "show_int n = (if n < 0 then 45 # show_nat (nat (- n)) else show_nat (nat n))"

text \<open>\<open>strconv.ParseInt(s, 10, 64)\<close>: an optional sign and at least one digit, in the range of an
  \<open>int64\<close>.\<close>

definition digit :: "byte \<Rightarrow> int option" where
  "digit b = (if 48 \<le> b \<and> b \<le> 57 then Some (uint b - 48) else None)"

fun parse_digits :: "bytes \<Rightarrow> int \<Rightarrow> int option" where
  "parse_digits [] acc = Some acc"
| "parse_digits (b # bs) acc = (case digit b of None \<Rightarrow> None | Some d \<Rightarrow> parse_digits bs (acc * 10 + d))"

definition parse_nat :: "bytes \<Rightarrow> int option" where
  "parse_nat bs = (if bs = [] then None else parse_digits bs 0)"

definition in_int64 :: "int \<Rightarrow> bool" where
  "in_int64 n \<longleftrightarrow> - (2 ^ 63) \<le> n \<and> n < 2 ^ 63"

definition ParseInt :: "bytes \<Rightarrow> int option" where
  "ParseInt s =
     (let v = (case s of
                 [] \<Rightarrow> None
               | b # bs \<Rightarrow> if b = 45 then map_option uminus (parse_nat bs)
                           else if b = 43 then parse_nat bs
                           else parse_nat s)
      in case v of Some n \<Rightarrow> if in_int64 n then Some n else None | None \<Rightarrow> None)"

text \<open>\<open>strconv.Atoi\<close>: the number and whether there was no error. A syntax error gives 0, a number out of range the nearest
  \<open>int\<close>.\<close>

definition parse_signed :: "bytes \<Rightarrow> int option" where
  "parse_signed s =
     (case s of
        [] \<Rightarrow> None
      | b # bs \<Rightarrow> if b = 45 then map_option uminus (parse_nat bs)
                  else if b = 43 then parse_nat bs
                  else parse_nat s)"

definition Atoi :: "bytes \<Rightarrow> int \<times> bool" where
  "Atoi s =
     (case parse_signed s of
        None \<Rightarrow> (0, False)
      | Some n \<Rightarrow> if in_int64 n then (n, True) else if n < 0 then (- (2 ^ 63), False) else (2 ^ 63 - 1, False))"

section \<open>Splitting and searching\<close>

text \<open>\<open>strings.Split(s, sep)\<close> for a separator of one byte.\<close>

fun split_on :: "byte \<Rightarrow> bytes \<Rightarrow> bytes list" where
  "split_on sep [] = [[]]"
| "split_on sep (b # bs) =
     (if b = sep then [] # split_on sep bs
      else case split_on sep bs of p # ps \<Rightarrow> (b # p) # ps | [] \<Rightarrow> [[b]])"

text \<open>\<open>strings.Join\<close>, its inverse.\<close>

fun join_with :: "byte \<Rightarrow> bytes list \<Rightarrow> bytes" where
  "join_with sep [] = []"
| "join_with sep [p] = p"
| "join_with sep (p # q # ps) = p @ sep # join_with sep (q # ps)"

text \<open>\<open>strings.Contains(s, sub)\<close>.\<close>

definition has_prefix :: "bytes \<Rightarrow> bytes \<Rightarrow> bool" where
  "has_prefix sub s \<longleftrightarrow> take (length sub) s = sub"

fun contains :: "bytes \<Rightarrow> bytes \<Rightarrow> bool" where
  "contains sub [] = (sub = [])"
| "contains sub (b # bs) = (has_prefix sub (b # bs) \<or> contains sub bs)"

section \<open>Lemmas\<close>

lemma digit_of_nat: "n < 10 \<Longrightarrow> digit (48 + of_nat n) = Some (int n)"
proof -
  assume n: "n < 10"
  have "list_all (%n. digit (48 + of_nat n) = Some (int n)) [0..<10]" by code_simp
  then show ?thesis using n by (simp add: list_all_iff)
qed

lemma parse_digits_append: "parse_digits (xs @ [b]) acc =
    (case parse_digits xs acc of None \<Rightarrow> None | Some v \<Rightarrow> (case digit b of None \<Rightarrow> None | Some d \<Rightarrow> Some (v * 10 + d)))"
  by (induction xs acc rule: parse_digits.induct) (auto split: option.splits)

lemma show_nat_nonempty: "show_nat n \<noteq> []"
  by (subst show_nat.simps) simp

lemma parse_show_nat: "parse_digits (show_nat n) 0 = Some (int n)"
proof (induction n rule: show_nat.induct)
  case (1 n)
  show ?case
  proof (cases "n < 10")
    case True
    then show ?thesis by (subst show_nat.simps) (simp add: digit_of_nat)
  next
    case False
    have "int (n div 10) * 10 + int (n mod 10) = int n" by presburger
    with False 1 digit_of_nat [of "n mod 10"] show ?thesis
      by (subst show_nat.simps) (simp add: parse_digits_append)
  qed
qed

lemma show_nat_first: "\<exists>b bs. show_nat n = b # bs \<and> 48 \<le> b \<and> b \<le> 57"
proof (induction n rule: show_nat.induct)
  case (1 n)
  show ?case
  proof (cases "n < 10")
    case True
    have "list_all (%n. (48 :: byte) \<le> 48 + of_nat n \<and> 48 + of_nat n \<le> (57 :: byte)) [0..<10]" by code_simp
    with True show ?thesis by (subst show_nat.simps) (simp add: list_all_iff)
  next
    case False
    with 1 show ?thesis by (subst show_nat.simps) auto
  qed
qed

lemma parse_nat_show: "parse_nat (show_nat n) = Some (int n)"
  by (simp add: parse_nat_def show_nat_nonempty parse_show_nat)

lemma show_int_nonempty: "show_int n \<noteq> []"
  by (simp add: show_int_def show_nat_nonempty)

lemma parse_signed_show: "parse_signed (show_int n) = Some n"
proof (cases "n < 0")
  case True
  then show ?thesis by (simp add: parse_signed_def show_int_def parse_nat_show)
next
  case False
  obtain b bs where b: "show_nat (nat n) = b # bs" "48 \<le> b" "b \<le> 57" using show_nat_first by blast
  then have "b \<noteq> 45" "b \<noteq> 43" by (auto simp: word_le_def)
  with False b(1) parse_nat_show [of "nat n"] show ?thesis
    by (simp add: parse_signed_def show_int_def)
qed

lemma ParseInt_signed:
  "ParseInt s = (case parse_signed s of Some n \<Rightarrow> if in_int64 n then Some n else None | None \<Rightarrow> None)"
  by (simp add: ParseInt_def parse_signed_def)

lemma ParseInt_show: "in_int64 n \<Longrightarrow> ParseInt (show_int n) = Some n"
  by (simp add: ParseInt_signed parse_signed_show)

lemma Atoi_show: "in_int64 n \<Longrightarrow> Atoi (show_int n) = (n, True)"
  by (simp add: Atoi_def parse_signed_show)

lemma Atoi_in_range: "in_int64 (fst (Atoi s))"
  by (auto simp: Atoi_def in_int64_def split: option.splits)

lemma split_on_nonempty: "split_on sep s \<noteq> []"
  by (induction sep s rule: split_on.induct) (auto split: list.splits)

lemma split_on_none: "sep \<notin> set s \<Longrightarrow> split_on sep s = [s]"
  by (induction sep s rule: split_on.induct) auto

lemma split_on_append: "sep \<notin> set p \<Longrightarrow> split_on sep (p @ sep # s) = p # split_on sep s"
  by (induction p) auto

text \<open>Splitting undoes joining, and joining splitting.\<close>

lemma split_join: "ps \<noteq> [] \<Longrightarrow> \<forall>p \<in> set ps. sep \<notin> set p \<Longrightarrow> split_on sep (join_with sep ps) = ps"
  by (induction sep ps rule: join_with.induct) (auto simp: split_on_none split_on_append)

lemma join_split: "join_with sep (split_on sep s) = s"
proof (induction sep s rule: split_on.induct)
  case (2 sep b bs)
  obtain p ps where s: "split_on sep bs = p # ps" using split_on_nonempty by (cases "split_on sep bs") auto
  show ?case
  proof (cases "b = sep")
    case True
    then show ?thesis using 2(1) s by simp
  next
    case False
    then show ?thesis using 2(2) s by (cases ps) simp_all
  qed
qed simp

text \<open>The digits of a number have no separator among them.\<close>

lemma show_nat_digits: "b \<in> set (show_nat n) \<Longrightarrow> 48 \<le> b \<and> b \<le> 57"
proof (induction n rule: show_nat.induct)
  case (1 n)
  have digits: "list_all (%n. (48 :: byte) \<le> 48 + of_nat n \<and> 48 + of_nat n \<le> (57 :: byte)) [0..<10]" by code_simp
  then have digit: "k < 10 \<Longrightarrow> (48 :: byte) \<le> 48 + of_nat k \<and> 48 + of_nat k \<le> (57 :: byte)" for k
    by (simp add: list_all_iff)
  show ?case
  proof (cases "n < 10")
    case True
    with 1(2) digit [of n] show ?thesis by (subst (asm) show_nat.simps) simp
  next
    case False
    with 1(2) have "b \<in> set (show_nat (n div 10)) \<or> b = 48 + of_nat (n mod 10)"
      by (subst (asm) show_nat.simps) (simp add: disj_commute)
    with 1(1) False digit [of "n mod 10"] show ?thesis by auto
  qed
qed

lemma has_prefix_append: "has_prefix sub (sub @ s)"
  by (simp add: has_prefix_def)

lemma contains_self: "contains sub (sub @ s)"
proof (cases "sub @ s")
  case (Cons b bs)
  then show ?thesis using has_prefix_append [of sub s] by simp
qed simp

lemma contains_append: "contains sub s \<Longrightarrow> contains sub (p @ s)"
  by (induction p) auto

text \<open>A substring is found wherever it is.\<close>

lemma contains_middle: "contains sub (p @ sub @ s)"
  by (rule contains_append [OF contains_self])

lemma contains_split: "contains sub s \<Longrightarrow> \<exists>p q. s = p @ sub @ q"
proof (induction sub s rule: contains.induct)
  case (2 sub b bs)
  show ?case
  proof (cases "has_prefix sub (b # bs)")
    case True
    then have "b # bs = [] @ sub @ drop (length sub) (b # bs)"
      unfolding has_prefix_def by (metis append_Nil append_take_drop_id)
    then show ?thesis by blast
  next
    case False
    with 2 obtain p q where "bs = p @ sub @ q" by auto
    then have "b # bs = (b # p) @ sub @ q" by simp
    then show ?thesis by blast
  qed
qed auto

lemma contains_iff: "contains sub s \<longleftrightarrow> (\<exists>p q. s = p @ sub @ q)"
  using contains_split contains_middle by blast

lemma contains_context: "contains sub t \<Longrightarrow> contains sub (a @ t @ b)"
  unfolding contains_iff by (metis append_assoc)

end
