(* ===== verification/Config.thy ===== *)
theory Config
  imports Go_Strings
begin

text \<open>
  The configuration: the lookup of a path of element names in an XML document (\<open>config/xml.go\<close>,
  \<open>config/config.go\<close>) and the typed readers of the value found (\<open>config/reader.go\<close>). The document
  object model is the library \<open>tinydom\<close>: the child of the document with a name, the first child element with a name, and the text of
  an element are arguments. The arithmetic of floating-point numbers is an argument too.
\<close>

section \<open>The readers\<close>

text \<open>Floating-point numbers are their bit patterns. What IEEE arithmetic and \<open>strconv\<close> do with them is a
  record of functions: conversion from \<open>int\<close>, between the two formats, printing with \<open>%.f\<close>, and reading.\<close>

type_synonym f32 = "32 word"
type_synonym f64 = "64 word"

record float_ops =
  foInt32 :: "int \<Rightarrow> f32"
  foInt64 :: "int \<Rightarrow> f64"
  foNarrow :: "f64 \<Rightarrow> f32"
  foWiden :: "f32 \<Rightarrow> f64"
  foShow32 :: "f32 \<Rightarrow> bytes"
  foShow64 :: "f64 \<Rightarrow> bytes"
  foParse32 :: "bytes \<Rightarrow> f64 option"
  foParse64 :: "bytes \<Rightarrow> f64 option"

datatype conf =
    ConfNil
  | ConfInt int
  | ConfInt64 int
  | ConfFloat32 f32
  | ConfFloat64 f64
  | ConfString bytes
  | ConfOther bytes

text \<open>A value of another type carries what \<open>%v\<close> prints of it.\<close>

definition aReader_String :: "float_ops \<Rightarrow> conf \<Rightarrow> bytes \<Rightarrow> bytes" where
  "aReader_String fo obj def =
     (case obj of
        ConfNil \<Rightarrow> def
      | ConfInt n \<Rightarrow> show_int n
      | ConfInt64 n \<Rightarrow> show_int n
      | ConfFloat32 x \<Rightarrow> foShow32 fo x
      | ConfFloat64 x \<Rightarrow> foShow64 fo x
      | ConfString s \<Rightarrow> s
      | ConfOther v \<Rightarrow> v)"

definition aReader_Float32 :: "float_ops \<Rightarrow> conf \<Rightarrow> f32 \<Rightarrow> f32" where
  "aReader_Float32 fo obj def =
     (case obj of
        ConfInt n \<Rightarrow> foInt32 fo n
      | ConfInt64 n \<Rightarrow> foInt32 fo n
      | ConfFloat32 x \<Rightarrow> x
      | ConfFloat64 x \<Rightarrow> foNarrow fo x
      | ConfString s \<Rightarrow> (case foParse32 fo s of None \<Rightarrow> def | Some x \<Rightarrow> foNarrow fo x)
      | _ \<Rightarrow> def)"

definition aReader_Float64 :: "float_ops \<Rightarrow> conf \<Rightarrow> f64 \<Rightarrow> f64" where
  "aReader_Float64 fo obj def =
     (case obj of
        ConfInt n \<Rightarrow> foInt64 fo n
      | ConfInt64 n \<Rightarrow> foInt64 fo n
      | ConfFloat32 x \<Rightarrow> foWiden fo x
      | ConfFloat64 x \<Rightarrow> x
      | ConfString s \<Rightarrow> (case foParse64 fo s of None \<Rightarrow> def | Some x \<Rightarrow> x)
      | _ \<Rightarrow> def)"

definition aReader_Int :: "conf \<Rightarrow> int \<Rightarrow> int" where
  "aReader_Int obj def =
     (case obj of
        ConfInt n \<Rightarrow> n
      | ConfInt64 n \<Rightarrow> n
      | ConfString s \<Rightarrow> (case ParseInt s of None \<Rightarrow> def | Some n \<Rightarrow> n)
      | _ \<Rightarrow> def)"

definition aReader_Int64 :: "conf \<Rightarrow> int \<Rightarrow> int" where
  "aReader_Int64 obj def =
     (case obj of
        ConfInt n \<Rightarrow> n
      | ConfInt64 n \<Rightarrow> n
      | ConfString s \<Rightarrow> (case ParseInt s of None \<Rightarrow> def | Some n \<Rightarrow> n)
      | _ \<Rightarrow> def)"

definition aReader_Bool :: "conf \<Rightarrow> bool" where
  "aReader_Bool obj = (case obj of ConfString s \<Rightarrow> s = str ''true'' | _ \<Rightarrow> False)"

definition aReader_Value :: "conf \<Rightarrow> conf" where
  "aReader_Value obj = obj"

section \<open>Lookup\<close>

text \<open>The loop of \<open>aXml.Get\<close>: as long as no element has been found the document is asked, also when an element further up the path
  is missing.\<close>

fun xml_walk :: "(bytes \<Rightarrow> 'e option) \<Rightarrow> ('e \<Rightarrow> bytes \<Rightarrow> 'e option) \<Rightarrow> 'e option \<Rightarrow> bytes list \<Rightarrow> 'e option" where
  "xml_walk root child xml [] = xml"
| "xml_walk root child xml (arg # args) =
     (case xml of
        None \<Rightarrow> xml_walk root child (root arg) args
      | Some e \<Rightarrow> xml_walk root child (child e arg) args)"

record 'e dom =
  domRoot :: "bytes \<Rightarrow> 'e option"
  domChild :: "'e \<Rightarrow> bytes \<Rightarrow> 'e option"
  domText :: "'e \<Rightarrow> bytes"

definition aXml_Get :: "'e dom option \<Rightarrow> bytes list \<Rightarrow> conf" where
  "aXml_Get xmldoc args =
     (case xmldoc of
        None \<Rightarrow> ConfNil
      | Some d \<Rightarrow>
          (if args = [] then ConfNil
           else case xml_walk (domRoot d) (domChild d) None args of
               None \<Rightarrow> ConfNil
             | Some e \<Rightarrow> ConfString (domText d e)))"

text \<open>\<open>GetXml\<close>: opening the file, reading it and parsing it can each fail, and then there is no document.\<close>

definition GetXml :: "(bytes \<Rightarrow> 'h option) \<Rightarrow> ('h \<Rightarrow> bytes option) \<Rightarrow> (bytes \<Rightarrow> 'e dom option) \<Rightarrow> bytes \<Rightarrow> 'e dom option" where
  "GetXml open_file read_all load f = do {
     h \<leftarrow> open_file f;
     content \<leftarrow> read_all h;
     load content
   }"

text \<open>\<open>Init\<close> loads a file whose name ends in \<open>.xml\<close>; the outer option is \<open>iconf\<close>, nil before.\<close>

definition config_Init :: "(bytes \<Rightarrow> 'e dom option) \<Rightarrow> bytes \<Rightarrow> 'e dom option option \<Rightarrow> 'e dom option option" where
  "config_Init get_xml f iconf =
     (if drop (length f - 4) f = str ''.xml'' then Some (get_xml f) else iconf)"

definition config_Get :: "'e dom option option \<Rightarrow> bytes list \<Rightarrow> conf" where
  "config_Get iconf args =
     (case iconf of None \<Rightarrow> ConfNil | Some xml \<Rightarrow> aXml_Get xml (str ''gffg'' # args))"

section \<open>Lemmas\<close>

lemma xml_walk_append:
  "xml_walk root child xml (xs @ ys) = xml_walk root child (xml_walk root child xml xs) ys"
  by (induction root child xml xs rule: xml_walk.induct) (simp_all split: option.splits)

section \<open>Properties\<close>

text \<open>\<open>Int\<close> and \<open>Int64\<close> read back every 64-bit number that \<open>%d\<close> printed, the smallest one
  included, whatever the default.\<close>
theorem Int_reads_printed:
  assumes "- (2 ^ 63) \<le> n" "n < 2 ^ 63"
  shows "aReader_Int (ConfString (show_int n)) def = n \<and> aReader_Int64 (ConfString (show_int n)) def = n \<and>
     aReader_Int (ConfString (aReader_String fo (ConfInt64 n) fallback)) def = n"
  using assms ParseInt_show [of n]
  by (simp add: aReader_Int_def aReader_Int64_def aReader_String_def in_int64_def)

theorem Int_reads_printed_witness: "aReader_Int (ConfString (show_int (-42))) 7 = -42"
  using Int_reads_printed [of "-42" 7] by simp

lemma xml_walk_restarts: "xml_walk root child None xs = None \<Longrightarrow> xml_walk root child None (xs @ ys) = xml_walk root child None ys"
  by (simp add: xml_walk_append)

text \<open>The element a path of names leads to, from an element down.\<close>

fun descend :: "('e \<Rightarrow> bytes \<Rightarrow> 'e option) \<Rightarrow> 'e \<Rightarrow> bytes list \<Rightarrow> 'e option" where
  "descend child e [] = Some e"
| "descend child e (a # as) = (case child e a of None \<Rightarrow> None | Some e' \<Rightarrow> descend child e' as)"

lemma xml_walk_descend: "descend child e as = Some e' \<Longrightarrow> xml_walk root child (Some e) as = Some e'"
  by (induction child e as rule: descend.induct) (auto split: option.splits)

text \<open>\<open>Get\<close> finds the text of the element that the path leads to from the document's \<open>gffg\<close> element.\<close>
theorem config_Get_finds:
  assumes "domRoot d (str ''gffg'') = Some e" "descend (domChild d) e as = Some e'"
  shows "config_Get (Some (Some d)) as = ConfString (domText d e')"
  using assms xml_walk_descend by (fastforce simp: config_Get_def aXml_Get_def)

definition example_dom :: "nat dom" where
  "example_dom = \<lparr>domRoot = (\<lambda>a. if a = str ''gffg'' then Some 0 else None),
     domChild = (\<lambda>e a. if e = 0 \<and> a = str ''server'' then Some 1 else if e = 1 \<and> a = str ''port'' then Some 2 else None),
     domText = (\<lambda>e. if e = 2 then str ''8080'' else [])\<rparr>"

theorem config_Get_finds_witness:
  "config_Get (Some (Some example_dom)) [str ''server'', str ''port''] = ConfString (str ''8080'')"
  using config_Get_finds [of example_dom 0 "[str ''server'', str ''port'']" 2] by (simp add: example_dom_def)

text \<open>A missing element does not end the lookup: what follows it is looked up from the document again, so a path with a
  missing part has the value of the path after a later \<open>gffg\<close>.\<close>
theorem config_Get_restarts:
  assumes "config_Get (Some (Some d)) xs = ConfNil"
  shows "config_Get (Some (Some d)) (xs @ str ''gffg'' # ys) = config_Get (Some (Some d)) ys"
proof -
  have "xml_walk (domRoot d) (domChild d) None (str ''gffg'' # xs) = None"
    using assms by (simp add: config_Get_def aXml_Get_def split: option.splits)
  from xml_walk_restarts [OF this, of "str ''gffg'' # ys"] show ?thesis
    by (simp add: config_Get_def aXml_Get_def)
qed

theorem config_Get_restarts_witness:
  "config_Get (Some (Some example_dom)) [str ''client'', str ''gffg'', str ''server'', str ''port''] =
   config_Get (Some (Some example_dom)) [str ''server'', str ''port'']"
  using config_Get_restarts [of example_dom "[str ''client'']" "[str ''server'', str ''port'']"]
  by (simp add: example_dom_def config_Get_def aXml_Get_def)
end
