(* ===== verification/Registry.thy ===== *)
theory Registry
  imports Config
begin

text \<open>
  The service registry of \<open>registry/registry.go\<close> and \<open>registry/options.go\<close>: the node's options, setting up a provider or a
  consumer from the configuration, registering and withdrawing the node, looking up an instance of a service, and the request
  limit. The management centre is the library \<open>polaris\<close>: whether it accepts a request and what it answers are
  arguments, and the requests it is sent are recorded. \<open>zzlog.Fatal\<close> ends the process.
\<close>

section \<open>The node\<close>

record location =
  loRegion :: bytes
  loZone :: bytes
  loCampus :: bytes

record nodeopts =
  noGroup :: bytes
  noName :: bytes
  noVersion :: bytes
  noToken :: bytes
  noLocation :: location

type_synonym NodeOption = "nodeopts \<Rightarrow> nodeopts"

definition Group :: "bytes \<Rightarrow> NodeOption" where
  "Group grp = (\<lambda>c. c\<lparr>noGroup := grp\<rparr>)"

definition Token :: "bytes \<Rightarrow> NodeOption" where
  "Token token = (\<lambda>c. c\<lparr>noToken := token\<rparr>)"

definition Version :: "bytes \<Rightarrow> NodeOption" where
  "Version version = (\<lambda>c. c\<lparr>noVersion := version\<rparr>)"

definition Name :: "bytes \<Rightarrow> NodeOption" where
  "Name name = (\<lambda>c. c\<lparr>noName := name\<rparr>)"

definition Region :: "bytes \<Rightarrow> NodeOption" where
  "Region region = (\<lambda>c. c\<lparr>noLocation := (noLocation c)\<lparr>loRegion := region\<rparr>\<rparr>)"

definition Zone :: "bytes \<Rightarrow> NodeOption" where
  "Zone zone = (\<lambda>c. c\<lparr>noLocation := (noLocation c)\<lparr>loZone := zone\<rparr>\<rparr>)"

definition Campus :: "bytes \<Rightarrow> NodeOption" where
  "Campus campus = (\<lambda>c. c\<lparr>noLocation := (noLocation c)\<lparr>loCampus := campus\<rparr>\<rparr>)"

definition nodeopts_zero :: nodeopts where
  "nodeopts_zero = \<lparr>noGroup = [], noName = [], noVersion = [], noToken = [],
     noLocation = \<lparr>loRegion = [], loZone = [], loCampus = []\<rparr>\<rparr>"

definition Node :: "NodeOption list \<Rightarrow> nodeopts" where
  "Node opts = fold (\<lambda>f n. f n) opts nodeopts_zero"

section \<open>State and requests\<close>

text \<open>The node, the address it registered, and which of the three library handles are set.\<close>

record registry =
  rgNode :: "nodeopts option"
  rgAddr :: bytes
  rgConsumer :: bool
  rgProvider :: bool
  rgLimiter :: bool

definition Registry :: registry where
  "Registry = \<lparr>rgNode = None, rgAddr = [], rgConsumer = False, rgProvider = False, rgLimiter = False\<rparr>"

text \<open>The statistics reporter: its type, its interval in seconds, and its address.\<close>

record reporter =
  rpType :: bytes
  rpInterval :: int
  rpAddress :: bytes

record polaris_cfg =
  pcAddrs :: "bytes list"
  pcReporter :: "reporter option"

record instance_req =
  irService :: bytes
  irNamespace :: bytes
  irHost :: bytes
  irPort :: int
  irToken :: bytes

record register_req =
  rrInstance :: instance_req
  rrVersion :: bytes
  rrProtocol :: bytes
  rrLocation :: location
  rrTTL :: int

datatype polaris_call =
    PRegister register_req
  | PDeregister instance_req
  | PDestroyProvider
  | PDestroyConsumer
  | PDestroyLimiter

text \<open>How an operation ends: it returns, the process exits in \<open>zzlog.Fatal\<close>, or it panics. The requests sent before are recorded.\<close>

datatype 'a reg_out = Returns 'a "polaris_call list" | Exits "polaris_call list" | RegPanics "polaris_call list"

section \<open>Setting up\<close>

definition polaris_config :: "float_ops \<Rightarrow> (bytes list \<Rightarrow> conf) \<Rightarrow> polaris_cfg" where
  "polaris_config fo get =
     \<lparr>pcAddrs = split_on 44 (aReader_String fo (get [str ''polaris'', str ''addrs'']) []),
      pcReporter =
        (if aReader_Bool (get [str ''polaris'', str ''reporter'', str ''enable''])
         then Some
           \<lparr>rpType = aReader_String fo (get [str ''polaris'', str ''reporter'', str ''prometheus'', str ''type'']) (str ''pull''),
            rpInterval = aReader_Int64 (get [str ''polaris'', str ''reporter'', str ''prometheus'', str ''interval'']) 5,
            rpAddress = aReader_String fo (get [str ''polaris'', str ''reporter'', str ''prometheus'', str ''address''])
              (str ''127.0.0.1:9091'')\<rparr>
         else None)\<rparr>"

text \<open>\<open>ok\<close>: whether the library makes a provider of this configuration.\<close>

definition registry_Provider ::
    "float_ops \<Rightarrow> (bytes list \<Rightarrow> conf) \<Rightarrow> (polaris_cfg \<Rightarrow> bool) \<Rightarrow> nodeopts \<Rightarrow> registry \<Rightarrow> registry reg_out" where
  "registry_Provider fo get ok n r =
     (if length (aReader_String fo (get [str ''polaris'', str ''addrs'']) []) = 0 then Exits []
      else if \<not> ok (polaris_config fo get) then Exits []
      else Returns (r\<lparr>rgProvider := True, rgNode := Some n, rgLimiter := True\<rparr>) [])"

definition registry_Consumer ::
    "float_ops \<Rightarrow> (bytes list \<Rightarrow> conf) \<Rightarrow> (polaris_cfg \<Rightarrow> bool) \<Rightarrow> registry \<Rightarrow> registry reg_out" where
  "registry_Consumer fo get ok r =
     (if length (aReader_String fo (get [str ''polaris'', str ''addrs'']) []) = 0 then Exits []
      else if \<not> ok (polaris_config fo get) then Exits []
      else Returns (r\<lparr>rgConsumer := True\<rparr>) [])"

section \<open>Registering and withdrawing\<close>

text \<open>The host and the port of an address; \<open>None\<close> is the panic of \<^verbatim>\<open>addrs[1]\<close>. The error of \<open>Atoi\<close> is ignored.\<close>

definition host_port :: "bytes \<Rightarrow> (bytes \<times> int) option" where
  "host_port addr =
     (case split_on 58 addr of
        host # port # _ \<Rightarrow> Some (host, fst (Atoi port))
      | _ \<Rightarrow> None)"

definition instance_of :: "nodeopts \<Rightarrow> bytes \<times> int \<Rightarrow> instance_req" where
  "instance_of n hp =
     \<lparr>irService = noName n, irNamespace = noGroup n, irHost = fst hp, irPort = snd hp, irToken = noToken n\<rparr>"

definition registry_Register :: "bool \<Rightarrow> bytes \<Rightarrow> bytes \<Rightarrow> registry \<Rightarrow> registry reg_out" where
  "registry_Register accepted addr protocl r =
     (if \<not> rgProvider r then Exits []
      else case rgNode r of
          None \<Rightarrow> RegPanics []
        | Some n \<Rightarrow>
            (case host_port addr of
               None \<Rightarrow> RegPanics []
             | Some hp \<Rightarrow>
                 (let req = \<lparr>rrInstance = instance_of n hp, rrVersion = noVersion n, rrProtocol = protocl,
                        rrLocation = noLocation n, rrTTL = 1\<rparr>
                  in if accepted then Returns (r\<lparr>rgAddr := addr\<rparr>) [PRegister req] else Exits [PRegister req])))"

definition registry_deregister :: "bytes \<Rightarrow> registry \<Rightarrow> unit reg_out" where
  "registry_deregister addr r =
     (if \<not> rgProvider r then Exits []
      else case rgNode r of
          None \<Rightarrow> RegPanics []
        | Some n \<Rightarrow>
            (case host_port addr of
               None \<Rightarrow> RegPanics []
             | Some hp \<Rightarrow> Returns () [PDeregister (instance_of n hp)]))"

definition registry_Destroy :: "registry \<Rightarrow> unit reg_out" where
  "registry_Destroy r =
     (case registry_deregister (rgAddr r) r of
        Returns _ calls \<Rightarrow>
          Returns () (calls @ (if rgProvider r then [PDestroyProvider] else []) @
            (if rgConsumer r then [PDestroyConsumer] else []) @ (if rgLimiter r then [PDestroyLimiter] else []))
      | Exits calls \<Rightarrow> Exits calls
      | RegPanics calls \<Rightarrow> RegPanics calls)"

section \<open>Looking up and limiting\<close>

record node_instance =
  niHost :: bytes
  niPort :: int

datatype reg_err = NoConsumer | LookupError bytes | NoInstance bytes | QuotaError bytes | TooMany bytes

text \<open>The answer of the library: an error, or an instance that can be nil.\<close>

definition registry_GetNode ::
    "(bytes \<Rightarrow> bytes \<Rightarrow> bytes + node_instance option) \<Rightarrow> bytes \<Rightarrow> bytes \<Rightarrow> registry \<Rightarrow> reg_err + node_instance" where
  "registry_GetNode lookup grp name r =
     (if \<not> rgConsumer r then Inl NoConsumer
      else case lookup grp name of
          Inl err \<Rightarrow> Inl (LookupError err)
        | Inr None \<Rightarrow> Inl (NoInstance (grp @ str '':'' @ name))
        | Inr (Some ins) \<Rightarrow> Inr ins)"

text \<open>\<open>quota\<close>: the answer for a namespace, a service and a method, an error or whether the code is \<open>QuotaResultOk\<close>. The outer \<open>None\<close> is the panic on a
  nil node or limiter.\<close>

definition registry_Limiter ::
    "(bytes \<Rightarrow> bytes \<Rightarrow> bytes \<Rightarrow> bytes + bool) \<Rightarrow> bytes \<Rightarrow> registry \<Rightarrow> reg_err option option" where
  "registry_Limiter quota call r =
     (case rgNode r of
        None \<Rightarrow> None
      | Some n \<Rightarrow>
          (if \<not> rgLimiter r then None
           else case quota (noGroup n) (noName n) call of
               Inl err \<Rightarrow> Some (Some (QuotaError err))
             | Inr ok \<Rightarrow> Some (if ok then None else Some (TooMany call))))"

end
