(* ===== verification/Client.thy ===== *)
theory Client
  imports Pool Packet_Rpc Registry
begin

text \<open>
  A call of the RPC client: the options (\<open>client/options.go\<close>), the request \<open>call\<close> builds (\<open>client/client.go\<close>), and the
  protocol between the calling goroutines, the receiving goroutines of the connections (the callback of
  \<open>connect\<close> in \<open>client/pools.go\<close>) and \<open>destroy\<close>. They share the table \<open>callItem\<close> under the
  lock \<open>wrw\<close>, and an unbuffered channel for each call. The protocol is a step relation: a step is a stretch of code in which
  nothing blocks.
\<close>

section \<open>Options and the request\<close>

record client_options =
  coOnlyCall :: bool
  coTimeout :: i32
  coCtx :: "go_context option"
  coRegistry :: "registry option"

definition client_options_zero :: client_options where
  "client_options_zero = \<lparr>coOnlyCall = False, coTimeout = 0, coCtx = None, coRegistry = None\<rparr>"

definition OnlyCall :: "bool \<Rightarrow> client_options \<Rightarrow> client_options" where
  "OnlyCall b args = args\<lparr>coOnlyCall := b\<rparr>"

definition Timeout :: "i32 \<Rightarrow> client_options \<Rightarrow> client_options" where
  "Timeout t args = args\<lparr>coTimeout := t\<rparr>"

definition ClientSetOption :: "bytes \<Rightarrow> ctx_value \<Rightarrow> client_options \<Rightarrow> client_options" where
  "ClientSetOption k v o' =
     (let ctx = (case coCtx o' of None \<Rightarrow> [] | Some ctx \<Rightarrow> ctx) in o'\<lparr>coCtx := Some ((k, v) # ctx)\<rparr>)"

definition ClientRegistry :: "registry \<Rightarrow> client_options \<Rightarrow> client_options" where
  "ClientRegistry r args = args\<lparr>coRegistry := Some r\<rparr>"

definition initOpt :: "(client_options \<Rightarrow> client_options) list \<Rightarrow> client_options" where
  "initOpt opts =
     (let opt = fold (%f o'. f o') opts client_options_zero
      in if coTimeout opt = 0 then opt\<lparr>coTimeout := 3\<rparr> else opt)"

text \<open>\<open>Sid()\<close>: the next value of the global counter.\<close>

definition next_Sid :: "i64 \<Rightarrow> i64" where
  "next_Sid counter = counter + 1"

definition call_request :: "go_context \<Rightarrow> client_options \<Rightarrow> i64 \<Rightarrow> bytes \<Rightarrow> bytes \<Rightarrow> Request" where
  "call_request ctx opt sid rpc packet =
     (let header = [str ''traceId'' \<mapsto> GetTraceId ctx];
          header = (if coOnlyCall opt then header(str ''onlyCall'' \<mapsto> str ''1'') else header)
      in \<lparr>rqSid = sid, rqRpcId = GenRid rpc, rqHeaders = header, rqPacket = packet, rqUnrecognized = []\<rparr>)"

section \<open>The state of the protocol\<close>

text \<open>An entry of \<open>callItem\<close>; its channel has no buffer, so all there is to know of it is whether it is closed.\<close>

record CallCond =
  ccClosed :: bool
  ccCode :: i32
  ccPacket :: bytes

definition CallCond_new :: CallCond where
  "CallCond_new = \<lparr>ccClosed = False, ccCode = 0, ccPacket = []\<rparr>"

text \<open>What \<open>Call\<close> returns: a packet, an error with the rpc code, or nil and nil after a recovered panic.\<close>

datatype call_result = CrPacket bytes | CrError i32 | CrNil

text \<open>A call: registered, with its request not yet written; waiting in its \<open>select\<close>; woken by the timer and waiting for the lock; woken by the channel and waiting for the
  lock; returned.\<close>

datatype call_pc = CRegistered | CWaiting | CTimeout | CGot | CReturned call_result

text \<open>A received response: not looked at yet; sending on the channel of its call, holding the read lock; panicked in
  that send, with the read lock held for good; done.\<close>

datatype recv_pc = RNew | RSending | RStuck | RDone

record client_state =
  csCounter :: i64
  csItems :: "i64 \<rightharpoonup> CallCond"
  csCalls :: "i64 \<rightharpoonup> call_pc"
  csRecvs :: "(Response  \<times>  recv_pc) list"
  csWriteLocked :: bool

definition client_init :: client_state where
  "client_init = \<lparr>csCounter = 0, csItems = Map.empty, csCalls = Map.empty, csRecvs = [], csWriteLocked = False\<rparr>"

definition read_locked :: "client_state \<Rightarrow> bool" where
  "read_locked s \<longleftrightarrow> list_ex (%(_, pc). pc = RSending  \<or>  pc = RStuck) (csRecvs s)"

definition lock_free :: "client_state \<Rightarrow> bool" where
  "lock_free s \<longleftrightarrow> \<not>  read_locked s \<and> \<not>  csWriteLocked s"

text \<open>A response the callback drops before it looks for a call.\<close>

definition recv_dropped :: "Response \<Rightarrow> bool" where
  "recv_dropped r \<longleftrightarrow> rsHeaders r (str ''onlyCall'') \<noteq> None  \<or>  rsSid r = 0"

definition fill_cond :: "Response \<Rightarrow> CallCond \<Rightarrow> CallCond" where
  "fill_cond r c = c\<lparr>ccPacket := rsPacket r, ccCode := rsCode r\<rparr>"

definition sending_to :: "client_state \<Rightarrow> nat \<Rightarrow> i64 \<Rightarrow> bool" where
  "sending_to s j sid \<longleftrightarrow> j < length (csRecvs s) \<and> snd (csRecvs s ! j) = RSending \<and> rsSid (fst (csRecvs s ! j)) = sid"

text \<open>The result the woken call reads from its entry.\<close>

definition call_outcome :: "CallCond \<Rightarrow> call_result" where
  "call_outcome c = (if ccCode c \<noteq> 0 then CrError (ccCode c) else CrPacket (ccPacket c))"

text \<open>The same for a response.\<close>

definition response_outcome :: "Response \<Rightarrow> call_result" where
  "response_outcome r = (if rsCode r \<noteq> 0 then CrError (rsCode r) else CrPacket (rsPacket r))"

section \<open>Steps\<close>

inductive client_step :: "client_state \<Rightarrow> client_state \<Rightarrow> bool" where
  register:  \<comment> \<open>the call has its sid, and an entry in the table\<close>
    "lock_free s \<Longrightarrow> sid = next_Sid (csCounter s) \<Longrightarrow>
     client_step s (s\<lparr>csCounter := sid, csItems := (csItems s)(sid \<mapsto> CallCond_new),
       csCalls := (csCalls s)(sid \<mapsto> CRegistered)\<rparr>)"
| written:  \<comment> \<open>the write of its request returns nil, and the call waits\<close>
    "csCalls s sid = Some CRegistered \<Longrightarrow> client_step s (s\<lparr>csCalls := (csCalls s)(sid \<mapsto> CWaiting)\<rparr>)"
| write_failed:  \<comment> \<open>it fails, or panics in the encoder: the deferred function closes the channel, unless it is closed, and the entry stays\<close>
    "csCalls s sid = Some CRegistered \<Longrightarrow> csItems s sid = Some c \<Longrightarrow> res \<in> {CrError 500, CrNil} \<Longrightarrow>
     ccClosed c \<or> (\<forall>j. \<not> sending_to s j sid) \<Longrightarrow>
     client_step s (s\<lparr>csItems := (csItems s)(sid \<mapsto> c\<lparr>ccClosed := True\<rparr>), csCalls := (csCalls s)(sid \<mapsto> CReturned res)\<rparr>)"
| write_failed_steal:  \<comment> \<open>the same; \<open>ClosedChanInt\<close> receives what a callback is sending to the call\<close>
    "csCalls s sid = Some CRegistered \<Longrightarrow> csItems s sid = Some c \<Longrightarrow> res \<in> {CrError 500, CrNil} \<Longrightarrow>
     \<not> ccClosed c \<Longrightarrow> sending_to s j sid \<Longrightarrow>
     client_step s (s\<lparr>csItems := (csItems s)(sid \<mapsto> c\<lparr>ccClosed := True\<rparr>), csCalls := (csCalls s)(sid \<mapsto> CReturned res),
       csRecvs := (csRecvs s)[j := (fst (csRecvs s ! j), RDone)]\<rparr>)"
| start_only:  \<comment> \<open>a call with \<open>onlyCall\<close> has its sid; it leaves no other trace\<close>
    "client_step s (s\<lparr>csCounter := next_Sid (csCounter s)\<rparr>)"
| arrive:
    "client_step s (s\<lparr>csRecvs := csRecvs s @ [(r, RNew)]\<rparr>)"
| recv_drop:
    "i < length (csRecvs s) \<Longrightarrow> csRecvs s ! i = (r, RNew) \<Longrightarrow> recv_dropped r \<Longrightarrow>
     client_step s (s\<lparr>csRecvs := (csRecvs s)[i := (r, RDone)]\<rparr>)"
| recv_unknown:
    "i < length (csRecvs s) \<Longrightarrow> csRecvs s ! i = (r, RNew) \<Longrightarrow> \<not>  recv_dropped r \<Longrightarrow> \<not>  csWriteLocked s \<Longrightarrow>
     csItems s (rsSid r) = None \<Longrightarrow>
     client_step s (s\<lparr>csRecvs := (csRecvs s)[i := (r, RDone)]\<rparr>)"
| recv_closed:  \<comment> \<open>the channel is closed: the entry is filled and nothing is sent\<close>
    "i < length (csRecvs s) \<Longrightarrow> csRecvs s ! i = (r, RNew) \<Longrightarrow> \<not>  recv_dropped r \<Longrightarrow> \<not>  csWriteLocked s \<Longrightarrow>
     csItems s (rsSid r) = Some c \<Longrightarrow> ccClosed c \<Longrightarrow>
     client_step s (s\<lparr>csItems := (csItems s)(rsSid r \<mapsto> fill_cond r c), csRecvs := (csRecvs s)[i := (r, RDone)]\<rparr>)"
| recv_send:  \<comment> \<open>the entry is filled, and the callback blocks in the send with the read lock held\<close>
    "i < length (csRecvs s) \<Longrightarrow> csRecvs s ! i = (r, RNew) \<Longrightarrow> \<not>  recv_dropped r \<Longrightarrow> \<not>  csWriteLocked s \<Longrightarrow>
     csItems s (rsSid r) = Some c \<Longrightarrow> \<not>  ccClosed c \<Longrightarrow> (\<forall>j. \<not>  sending_to s j (rsSid r)) \<Longrightarrow>
     client_step s (s\<lparr>csItems := (csItems s)(rsSid r \<mapsto> fill_cond r c), csRecvs := (csRecvs s)[i := (r, RSending)]\<rparr>)"
| recv_steal:  \<comment> \<open>\<open>ClosedChanInt\<close> receives what another callback is sending to the same call\<close>
    "i < length (csRecvs s) \<Longrightarrow> csRecvs s ! i = (r, RNew) \<Longrightarrow> \<not>  recv_dropped r \<Longrightarrow> \<not>  csWriteLocked s \<Longrightarrow>
     csItems s (rsSid r) = Some c \<Longrightarrow> \<not>  ccClosed c \<Longrightarrow> sending_to s j (rsSid r) \<Longrightarrow>
     client_step s (s\<lparr>csItems := (csItems s)(rsSid r \<mapsto> fill_cond r c),
       csRecvs := (csRecvs s)[j := (fst (csRecvs s ! j), RDone), i := (r, RSending)]\<rparr>)"
| hand_over:
    "i < length (csRecvs s) \<Longrightarrow> csRecvs s ! i = (r, RSending) \<Longrightarrow> csCalls s (rsSid r) = Some CWaiting \<Longrightarrow>
     csItems s (rsSid r) = Some c \<Longrightarrow> \<not>  ccClosed c \<Longrightarrow>
     client_step s (s\<lparr>csCalls := (csCalls s)(rsSid r \<mapsto> CGot), csRecvs := (csRecvs s)[i := (r, RDone)]\<rparr>)"
| send_closed:  \<comment> \<open>the channel is closed under a blocked send: a panic, and \<open>RUnlock\<close> is not deferred\<close>
    "i < length (csRecvs s) \<Longrightarrow> csRecvs s ! i = (r, RSending) \<Longrightarrow> csItems s (rsSid r) = Some c \<Longrightarrow> ccClosed c \<Longrightarrow>
     client_step s (s\<lparr>csRecvs := (csRecvs s)[i := (r, RStuck)]\<rparr>)"
| timer:
    "csCalls s sid = Some CWaiting \<Longrightarrow> client_step s (s\<lparr>csCalls := (csCalls s)(sid \<mapsto> CTimeout)\<rparr>)"
| wake_closed:
    "csCalls s sid = Some CWaiting \<Longrightarrow> csItems s sid = Some c \<Longrightarrow> ccClosed c \<Longrightarrow>
     client_step s (s\<lparr>csCalls := (csCalls s)(sid \<mapsto> CGot)\<rparr>)"
| end_timeout:
    "csCalls s sid = Some CTimeout \<Longrightarrow> lock_free s \<Longrightarrow> csItems s sid = Some c \<Longrightarrow> \<not>  ccClosed c \<Longrightarrow>
     client_step s (s\<lparr>csItems := (csItems s)(sid := None), csCalls := (csCalls s)(sid \<mapsto> CReturned (CrError 408))\<rparr>)"
| end_timeout_panic:  \<comment> \<open>closing a closed channel panics with the write lock held\<close>
    "csCalls s sid = Some CTimeout \<Longrightarrow> lock_free s \<Longrightarrow> csItems s sid = Some c \<Longrightarrow> ccClosed c \<Longrightarrow>
     client_step s (s\<lparr>csCalls := (csCalls s)(sid \<mapsto> CReturned CrNil), csWriteLocked := True\<rparr>)"
| end_got:
    "csCalls s sid = Some CGot \<Longrightarrow> lock_free s \<Longrightarrow> csItems s sid = Some c \<Longrightarrow> \<not>  ccClosed c \<Longrightarrow>
     client_step s (s\<lparr>csItems := (csItems s)(sid := None), csCalls := (csCalls s)(sid \<mapsto> CReturned (call_outcome c))\<rparr>)"
| end_got_panic:
    "csCalls s sid = Some CGot \<Longrightarrow> lock_free s \<Longrightarrow> csItems s sid = Some c \<Longrightarrow> ccClosed c \<Longrightarrow>
     client_step s (s\<lparr>csItems := (csItems s)(sid \<mapsto> c\<lparr>ccPacket := []\<rparr>),
       csCalls := (csCalls s)(sid \<mapsto> CReturned CrNil), csWriteLocked := True\<rparr>)"
| destroy:  \<comment> \<open>every channel is closed, under the read lock\<close>
    "\<not>  csWriteLocked s \<Longrightarrow> (\<forall>sid c. csItems s sid = Some c \<longrightarrow> \<not>  ccClosed c) \<Longrightarrow>
     client_step s (s\<lparr>csItems := (%sid. map_option (%c. c\<lparr>ccClosed := True\<rparr>) (csItems s sid))\<rparr>)"
| destroy_panic:  \<comment> \<open>one of them is closed already: a panic after some of the others\<close>
    "\<not>  csWriteLocked s \<Longrightarrow> csItems s sid0 = Some c0 \<Longrightarrow> ccClosed c0 \<Longrightarrow>
     client_step s (s\<lparr>csItems := (%sid. map_option (%c. c\<lparr>ccClosed := ccClosed c  \<or>  sid \<in> closed\<rparr>) (csItems s sid))\<rparr>)"

abbreviation client_steps :: "client_state \<Rightarrow> client_state \<Rightarrow> bool" where
  "client_steps \<equiv> client_step\<^sup>*\<^sup>*"

section \<open>Lemmas\<close>

text \<open>The responses that have arrived: no step forgets one.\<close>

definition arrived :: "client_state \<Rightarrow> Response set" where
  "arrived s = fst ` set (csRecvs s)"

lemma arrived_update_fst:
  assumes "j < length xs"
  shows "fst ` set (xs[j := (fst (xs ! j), pc')]) = fst ` set xs"
proof -
  have "map fst (xs[j := (fst (xs ! j), pc')]) = map fst xs"
    using assms by (intro nth_equalityI) (auto simp: nth_list_update)
  from arg_cong [OF this, of set] show ?thesis by (simp only: set_map)
qed

lemma arrived_update:
  "i < length xs \<Longrightarrow> xs ! i = (r, pc) \<Longrightarrow> fst ` set (xs[i := (r, pc')]) = fst ` set xs"
  using arrived_update_fst [of i xs pc'] by (simp only: fst_conv)

lemma arrived_mono: "client_step s s' \<Longrightarrow> arrived s \<subseteq> arrived s'"
proof (induction rule: client_step.induct)
  case (recv_steal i s r c j)
  then have "j < length (csRecvs s)" "i < length ((csRecvs s)[j := (fst (csRecvs s ! j), RDone)])"
    by (simp_all add: sending_to_def)
  moreover have "(csRecvs s)[j := (fst (csRecvs s ! j), RDone)] ! i = (r, if i = j then RDone else RNew)"
    using recv_steal by (auto simp: nth_list_update)
  ultimately show ?case by (simp add: arrived_def arrived_update arrived_update_fst)
next
  case (write_failed_steal s sid c res j)
  then show ?case by (simp add: arrived_def arrived_update_fst sending_to_def)
qed (auto simp: arrived_def arrived_update)

lemma read_lockedI:
  assumes "i < length (csRecvs s)" "csRecvs s ! i = (r, pc)" "pc = RSending  \<or>  pc = RStuck"
  shows "read_locked s"
proof -
  have "(r, pc) \<in> set (csRecvs s)" using nth_mem [OF assms(1)] assms(2) by simp
  with assms(3) show ?thesis unfolding read_locked_def list_ex_iff by fastforce
qed

text \<open>Entries of calls that wait are there, with an open channel unless they were closed by \<open>destroy\<close>; an entry a call is woken for, and one
  a callback is sending for, holds what an arrived response carries.\<close>

definition filled :: "client_state \<Rightarrow> i64 \<Rightarrow> CallCond \<Rightarrow> bool" where
  "filled s sid c \<longleftrightarrow> (\<exists>r \<in> arrived s. rsSid r = sid \<and> rsCode r = ccCode c \<and> rsPacket r = ccPacket c)"

definition inv_entry :: "client_state \<Rightarrow> bool" where
  "inv_entry s \<longleftrightarrow> (\<forall>sid pc. csCalls s sid = Some pc \<longrightarrow> pc \<in> {CRegistered, CWaiting, CTimeout, CGot} \<longrightarrow> csItems s sid \<noteq> None)"

definition inv_got :: "client_state \<Rightarrow> bool" where
  "inv_got s \<longleftrightarrow>
     (\<forall>sid c. csCalls s sid = Some CGot \<longrightarrow> csItems s sid = Some c \<longrightarrow> \<not>  ccClosed c \<longrightarrow> filled s sid c)"

definition inv_sending :: "client_state \<Rightarrow> bool" where
  "inv_sending s \<longleftrightarrow>
     (\<forall>r c. (r, RSending) \<in> set (csRecvs s) \<longrightarrow> csItems s (rsSid r) = Some c \<longrightarrow> \<not>  ccClosed c \<longrightarrow>
        filled s (rsSid r) c)"

text \<open>A call returns what an arrived response carries, or one of the client's own errors, or nil.\<close>

definition returns_arrived :: "client_state \<Rightarrow> i64 \<Rightarrow> call_result \<Rightarrow> bool" where
  "returns_arrived s sid res \<longleftrightarrow>
     res \<in> {CrNil, CrError 408, CrError 500} \<or> (\<exists>r \<in> arrived s. rsSid r = sid \<and> res = response_outcome r)"

definition inv_result :: "client_state \<Rightarrow> bool" where
  "inv_result s \<longleftrightarrow> (\<forall>sid res. csCalls s sid = Some (CReturned res) \<longrightarrow> returns_arrived s sid res)"

lemma filled_mono: "client_step s s' \<Longrightarrow> filled s sid c \<Longrightarrow> filled s' sid c"
  using arrived_mono unfolding filled_def by blast

lemma filled_fill:
  "i < length (csRecvs s) \<Longrightarrow> csRecvs s ! i = (r, pc) \<Longrightarrow> arrived s' = arrived s \<Longrightarrow> filled s' (rsSid r) (fill_cond r c)"
  unfolding filled_def fill_cond_def arrived_def by (force dest: nth_mem)

lemma lock_free_no_send: "lock_free s \<Longrightarrow> (r, RSending) \<notin> set (csRecvs s)"
  by (auto simp: lock_free_def read_locked_def list_ex_iff)

lemma sending_update:
  "(r', RSending) \<in> set (xs[i := (r, pc)]) \<Longrightarrow> (r', RSending) \<in> set xs  \<or>  pc = RSending \<and> r' = r"
  using set_update_subset_insert [of xs i "(r, pc)"] by auto

lemma inv_entry_step: "client_step s s' \<Longrightarrow> inv_entry s \<Longrightarrow> inv_entry s'"
  unfolding inv_entry_def by (induction rule: client_step.induct) (auto split: if_splits)

lemma inv_got_step:
  assumes "client_step s s'" "inv_got s" "inv_sending s"
  shows "inv_got s'"
proof -
  have mono: "filled s sid c \<Longrightarrow> filled s' sid c" for sid c by (rule filled_mono [OF assms(1)])
  have fill: "i < length (csRecvs s) \<Longrightarrow> csRecvs s ! i = (r, pc) \<Longrightarrow> filled s' (rsSid r) (fill_cond r c)" for i r pc c
    using filled_fill [of i s r pc s c] filled_mono [OF assms(1)] by blast
  have snd: "i < length (csRecvs s) \<Longrightarrow> csRecvs s ! i = (r, RSending) \<Longrightarrow> csItems s (rsSid r) = Some c \<Longrightarrow>
      \<not>  ccClosed c \<Longrightarrow> filled s' (rsSid r) c" for i r c
    using assms(3) mono nth_mem [of i "csRecvs s"] unfolding inv_sending_def by metis
  from assms(1) show ?thesis
    unfolding inv_got_def
    by (cases rule: client_step.cases)
      (use assms(2) mono fill snd in \<open>auto simp: inv_got_def split: if_splits\<close>)
qed

lemma inv_sending_step:
  assumes "client_step s s'" "inv_sending s"
  shows "inv_sending s'"
proof -
  have mono: "filled s sid c \<Longrightarrow> filled s' sid c" for sid c by (rule filled_mono [OF assms(1)])
  have fill: "i < length (csRecvs s) \<Longrightarrow> csRecvs s ! i = (r, pc) \<Longrightarrow> filled s' (rsSid r) (fill_cond r c)" for i r pc c
    using filled_fill [of i s r pc s c] filled_mono [OF assms(1)] by blast
  have old: "(r, RSending) \<in> set (csRecvs s) \<Longrightarrow> csItems s (rsSid r) = Some c \<Longrightarrow> \<not>  ccClosed c \<Longrightarrow> filled s' (rsSid r) c"
    for r c using assms(2) mono unfolding inv_sending_def by blast
  from assms(1) show ?thesis
    unfolding inv_sending_def
  proof (cases rule: client_step.cases)
    case (recv_steal i r c j)
    have rs: "csRecvs s' = (csRecvs s)[j := (fst (csRecvs s ! j), RDone), i := (r, RSending)]"
      and its: "csItems s' = (csItems s)(rsSid r \<mapsto> fill_cond r c)"
      using recv_steal(1) by simp_all
    have "filled s' (rsSid r') c'" if sending: "(r', RSending) \<in> set (csRecvs s')"
      and item: "csItems s' (rsSid r') = Some c'" and "\<not>  ccClosed c'" for r' c'
    proof (cases "rsSid r' = rsSid r")
      case True
      with item its have "c' = fill_cond r c" by simp
      with True fill [OF recv_steal(2,3), of c] show ?thesis by simp
    next
      case False
      then have "(r', RSending) \<in> set (csRecvs s)"
        using sending unfolding rs by (auto dest!: sending_update)
      moreover have "csItems s (rsSid r') = Some c'" using False item its by simp
      ultimately show ?thesis using old that(3) by blast
    qed
    then show "\<forall>r c. (r, RSending) \<in> set (csRecvs s') \<longrightarrow> csItems s' (rsSid r) = Some c \<longrightarrow> \<not>  ccClosed c \<longrightarrow> filled s' (rsSid r) c"
      by blast
  qed (use old fill lock_free_no_send [of s] in \<open>auto dest!: sending_update split: if_splits\<close>)
qed

lemma inv_result_step:
  assumes "client_step s s'" "inv_got s" "inv_result s"
  shows "inv_result s'"
proof -
  have mono: "arrived s \<subseteq> arrived s'" by (rule arrived_mono [OF assms(1)])
  have old: "returns_arrived s' sid res" if "csCalls s sid = Some (CReturned res)" for sid res
    using assms(3) that mono unfolding inv_result_def returns_arrived_def by blast
  have got: "returns_arrived s' sid (call_outcome c)"
    if "csCalls s sid = Some CGot" "csItems s sid = Some c" "\<not>  ccClosed c" for sid c
  proof -
    have "filled s sid c" using assms(2) that(1-3) by (simp add: inv_got_def)
    then obtain r where "r \<in> arrived s" "rsSid r = sid" "rsCode r = ccCode c" "rsPacket r = ccPacket c"
      by (auto simp: filled_def)
    with mono show ?thesis
      by (auto simp: returns_arrived_def call_outcome_def response_outcome_def intro!: bexI [of _ r])
  qed
  have own: "returns_arrived s' sid CrNil" "returns_arrived s' sid (CrError 408)" "returns_arrived s' sid (CrError 500)" for sid
    by (simp_all add: returns_arrived_def)
  from assms(1) show ?thesis
    unfolding inv_result_def
    by (cases rule: client_step.cases) (use old got own in \<open>auto split: if_splits\<close>)
qed

definition client_inv :: "client_state \<Rightarrow> bool" where
  "client_inv s \<longleftrightarrow> inv_entry s \<and> inv_got s \<and> inv_sending s \<and> inv_result s"

lemma client_inv_steps: "client_steps client_init s \<Longrightarrow> client_inv s"
proof (induction rule: rtranclp_induct)
  case base
  show ?case
    by (simp add: client_inv_def inv_entry_def inv_got_def inv_sending_def inv_result_def client_init_def)
next
  case (step s s')
  then show ?case
    using inv_entry_step inv_got_step inv_sending_step inv_result_step unfolding client_inv_def by blast
qed

text \<open>A call that timed out while a callback is sending to it: neither ever moves again.\<close>

definition deadlocked :: "client_state \<Rightarrow> i64 \<Rightarrow> bool" where
  "deadlocked s sid \<longleftrightarrow> csCalls s sid = Some CTimeout \<and>
     (\<exists>i < length (csRecvs s). rsSid (fst (csRecvs s ! i)) = sid \<and> snd (csRecvs s ! i) \<in> {RSending, RStuck})"

lemma deadlocked_read_locked: "deadlocked s sid \<Longrightarrow> read_locked s"
  unfolding deadlocked_def by (metis insertE prod.collapse read_lockedI singletonD)

lemma deadlockedI:
  "csCalls s sid = Some CTimeout \<Longrightarrow> k < length (csRecvs s) \<Longrightarrow> rsSid (fst (csRecvs s ! k)) = sid \<Longrightarrow>
     snd (csRecvs s ! k) \<in> {RSending, RStuck} \<Longrightarrow> deadlocked s sid"
  unfolding deadlocked_def by blast

lemma deadlocked_step: "client_step s s' \<Longrightarrow> deadlocked s sid \<Longrightarrow> deadlocked s' sid"
proof -
  assume st: "client_step s s'" and d: "deadlocked s sid"
  obtain k where k: "k < length (csRecvs s)" "rsSid (fst (csRecvs s ! k)) = sid" "snd (csRecvs s ! k) \<in> {RSending, RStuck}"
    using d by (auto simp: deadlocked_def)
  have c: "csCalls s sid = Some CTimeout" using d by (simp add: deadlocked_def)
  have nf: "\<not>  lock_free s" using deadlocked_read_locked [OF d] by (simp add: lock_free_def)
  from st show ?thesis
  proof (cases rule: client_step.cases)
    case (recv_steal i r c' j)
    let ?rs = "(csRecvs s)[j := (fst (csRecvs s ! j), RDone), i := (r, RSending)]"
    have rs: "csRecvs s' = ?rs" and cs: "csCalls s' = csCalls s" using recv_steal(1) by simp_all
    have j: "j < length (csRecvs s)" "rsSid (fst (csRecvs s ! j)) = rsSid r"
      using recv_steal(8) by (simp_all add: sending_to_def)
    show ?thesis
    proof (cases "k = j")
      case True
      then have "rsSid r = sid" using k(2) j(2) by simp
      then show ?thesis
        using recv_steal(2) c by (intro deadlockedI [of _ _ i]) (simp_all add: rs cs)
    next
      case False
      moreover have "k \<noteq> i" using k(3) recv_steal(3) by auto
      ultimately show ?thesis
        using k c by (intro deadlockedI [of _ _ k]) (simp_all add: rs cs)
    qed
  next
    case (hand_over i r c')
    have rs: "csRecvs s' = (csRecvs s)[i := (r, RDone)]" and cs: "csCalls s' = (csCalls s)(rsSid r \<mapsto> CGot)"
      using hand_over(1) by simp_all
    have "rsSid r \<noteq> sid" using hand_over(4) c by auto
    moreover from this have "k \<noteq> i" using k(2) hand_over(3) by auto
    ultimately show ?thesis
      using k c by (intro deadlockedI [of _ _ k]) (simp_all add: rs cs)
  next
    case (write_failed_steal sid' c' res j)
    have rs: "csRecvs s' = (csRecvs s)[j := (fst (csRecvs s ! j), RDone)]" and cs: "csCalls s' = (csCalls s)(sid' \<mapsto> CReturned res)"
      using write_failed_steal(1) by simp_all
    have "sid' \<noteq> sid" using write_failed_steal(2) c by auto
    moreover from this have "k \<noteq> j" using k(2) write_failed_steal(6) by (auto simp: sending_to_def)
    ultimately show ?thesis
      using k c by (intro deadlockedI [of _ _ k]) (simp_all add: rs cs)
  qed (use k c nf in \<open>auto simp: deadlocked_def nth_list_update nth_append intro!: exI [of _ k]\<close>)
qed

lemma deadlocked_steps: "client_steps s s' \<Longrightarrow> deadlocked s sid \<Longrightarrow> deadlocked s' sid"
  by (induction rule: rtranclp_induct) (auto intro: deadlocked_step)

lemma write_locked_steps: "client_steps s s' \<Longrightarrow> csWriteLocked s \<Longrightarrow> csWriteLocked s'"
proof (induction rule: rtranclp_induct)
  case (step s1 s2)
  from step.hyps(2) step.IH [OF step.prems] show ?case
    by (cases rule: client_step.cases) simp_all
qed simp

section \<open>The loop of destroy\<close>

text \<open>\<open>destroy\<close> closes the channels of the entries one after the other, in the order the map is ranged over; closing one that is closed
  panics. The result is whether it came to the end, and the table.\<close>

fun destroy_items :: "i64 list \<Rightarrow> (i64 \<rightharpoonup> CallCond) \<Rightarrow> bool \<times> (i64 \<rightharpoonup> CallCond)" where
  "destroy_items [] items = (True, items)"
| "destroy_items (sid # sids) items =
     (case items sid of
        None \<Rightarrow> destroy_items sids items
      | Some c \<Rightarrow> if ccClosed c then (False, items) else destroy_items sids (items(sid \<mapsto> c\<lparr>ccClosed := True\<rparr>)))"

definition close_these :: "i64 set \<Rightarrow> (i64 \<rightharpoonup> CallCond) \<Rightarrow> i64 \<rightharpoonup> CallCond" where
  "close_these closed items = (\<lambda>sid. map_option (\<lambda>c. c\<lparr>ccClosed := ccClosed c \<or> sid \<in> closed\<rparr>) (items sid))"

lemma close_these_simps:
  "close_these {} items = items"
  "items sid = None \<Longrightarrow> close_these (insert sid closed) items = close_these closed items"
  "items sid = Some c \<Longrightarrow> close_these closed (items(sid \<mapsto> c\<lparr>ccClosed := True\<rparr>)) = close_these (insert sid closed) items"
proof -
  show "close_these {} items = items" by (simp add: close_these_def fun_eq_iff option.map_ident_strong)
next
  assume "items sid = None"
  then show "close_these (insert sid closed) items = close_these closed items"
    by (intro ext, case_tac "x = sid") (simp_all add: close_these_def)
next
  assume "items sid = Some c"
  then show "close_these closed (items(sid \<mapsto> c\<lparr>ccClosed := True\<rparr>)) = close_these (insert sid closed) items"
    by (intro ext, case_tac "x = sid") (simp_all add: close_these_def)
qed

lemma destroy_items_closes:
  "\<exists>closed. snd (destroy_items sids items) = close_these closed items \<and> (fst (destroy_items sids items) \<longrightarrow> closed = set sids)"
proof (induction sids arbitrary: items)
  case Nil
  then show ?case by (auto simp: close_these_simps)
next
  case (Cons sid sids)
  show ?case
  proof (cases "items sid")
    case None
    with Cons.IH [of items] obtain closed where "snd (destroy_items sids items) = close_these closed items"
      "fst (destroy_items sids items) \<longrightarrow> closed = set sids" by blast
    with None show ?thesis by (intro exI [of _ "insert sid closed"]) (simp add: close_these_simps)
  next
    case (Some c)
    show ?thesis
    proof (cases "ccClosed c")
      case True
      with Some show ?thesis by (intro exI [of _ "{}"]) (simp add: close_these_simps)
    next
      case False
      let ?items = "items(sid \<mapsto> c\<lparr>ccClosed := True\<rparr>)"
      from Cons.IH [of ?items] obtain closed where "snd (destroy_items sids ?items) = close_these closed ?items"
        "fst (destroy_items sids ?items) \<longrightarrow> closed = set sids" by blast
      with False Some show ?thesis by (intro exI [of _ "insert sid closed"]) (simp add: close_these_simps(3))
    qed
  qed
qed

lemma destroy_items_ends:
  "distinct sids \<Longrightarrow> fst (destroy_items sids items) \<longleftrightarrow> (\<forall>sid \<in> set sids. \<forall>c. items sid = Some c \<longrightarrow> \<not> ccClosed c)"
proof (induction sids arbitrary: items)
  case (Cons sid sids)
  then show ?case by (cases "items sid") (auto split: if_splits)
qed simp

text \<open>So the loop, in any order of the map, is one of the steps \<open>destroy\<close> and \<open>destroy_panic\<close>.\<close>

lemma destroy_items_step:
  assumes "range_order (csItems s) sids" "\<not> csWriteLocked s"
  shows "client_step s (s\<lparr>csItems := snd (destroy_items sids (csItems s))\<rparr>)"
proof -
  from assms(1) have sids: "distinct sids" "set sids = dom (csItems s)" by (simp_all add: range_order_def)
  obtain closed where closed: "snd (destroy_items sids (csItems s)) = close_these closed (csItems s)"
    "fst (destroy_items sids (csItems s)) \<longrightarrow> closed = set sids" using destroy_items_closes by blast
  show ?thesis
  proof (cases "fst (destroy_items sids (csItems s))")
    case True
    then have "\<forall>sid c. csItems s sid = Some c \<longrightarrow> \<not> ccClosed c" using destroy_items_ends [OF sids(1)] sids(2) by blast
    moreover have "close_these closed (csItems s) = (\<lambda>sid. map_option (\<lambda>c. c\<lparr>ccClosed := True\<rparr>) (csItems s sid))"
      using True closed(2) sids(2) by (auto simp: close_these_def fun_eq_iff domIff intro!: option.map_cong)
    ultimately show ?thesis using destroy [OF assms(2)] closed(1) by simp
  next
    case False
    then obtain sid c where "csItems s sid = Some c" "ccClosed c" using destroy_items_ends [OF sids(1)] by blast
    from destroy_panic [OF assms(2) this, of closed] show ?thesis using closed(1) by (simp add: close_these_def)
  qed
qed

section \<open>What others see of a step\<close>

text \<open>A client that has registered a call, that has written its request then, and both. With \<open>onlyCall\<close> all there is to see is the counter.\<close>

definition register_call :: "client_options \<Rightarrow> client_state \<Rightarrow> client_state" where
  "register_call opt s =
     (let sid = next_Sid (csCounter s)
      in if coOnlyCall opt then s\<lparr>csCounter := sid\<rparr>
         else s\<lparr>csCounter := sid, csItems := (csItems s)(sid \<mapsto> CallCond_new), csCalls := (csCalls s)(sid \<mapsto> CRegistered)\<rparr>)"

definition write_call :: "client_options \<Rightarrow> i64 \<Rightarrow> client_state \<Rightarrow> client_state" where
  "write_call opt sid s = (if coOnlyCall opt then s else s\<lparr>csCalls := (csCalls s)(sid \<mapsto> CWaiting)\<rparr>)"

definition begin_call :: "client_options \<Rightarrow> client_state \<Rightarrow> client_state" where
  "begin_call opt s = write_call opt (next_Sid (csCounter s)) (register_call opt s)"

definition receive :: "Response \<Rightarrow> client_state \<Rightarrow> client_state" where
  "receive r s = s\<lparr>csRecvs := csRecvs s @ [(r, RNew)]\<rparr>"

lemma register_call_step: "coOnlyCall opt \<or> lock_free s \<Longrightarrow> client_step s (register_call opt s)"
  using client_step.register [OF _ refl, of s] client_step.start_only [of s] by (auto simp: register_call_def Let_def)

lemma write_call_steps: "coOnlyCall opt \<or> csCalls s sid = Some CRegistered \<Longrightarrow> client_steps s (write_call opt sid s)"
  using client_step.written [of s sid] by (auto simp: write_call_def)

lemma begin_call_steps:
  assumes "coOnlyCall opt \<or> lock_free s"
  shows "client_steps s (begin_call opt s)"
  unfolding begin_call_def
  by (rule converse_rtranclp_into_rtranclp [of client_step, OF register_call_step [OF assms]], rule write_call_steps) (simp add: register_call_def Let_def)

lemma begin_call_waits:
  "\<not> coOnlyCall opt \<Longrightarrow> begin_call opt s = s\<lparr>csCounter := next_Sid (csCounter s),
     csItems := (csItems s)(next_Sid (csCounter s) \<mapsto> CallCond_new), csCalls := (csCalls s)(next_Sid (csCounter s) \<mapsto> CWaiting)\<rparr>"
  by (simp add: begin_call_def register_call_def write_call_def Let_def)

lemma receive_step: "client_step s (receive r s)"
  unfolding receive_def by (rule client_step.arrive)

text \<open>A step of a client that neither begins a call, nor writes a request, nor receives anything.\<close>

definition client_internal :: "client_state \<Rightarrow> client_state \<Rightarrow> bool" where
  "client_internal s s' \<longleftrightarrow>
     client_step s s' \<and> csCounter s' = csCounter s \<and> length (csRecvs s') = length (csRecvs s) \<and>
     (\<forall>sid. csCalls s sid = Some CRegistered \<longrightarrow> csCalls s' sid \<noteq> Some CWaiting)"

abbreviation client_internals :: "client_state \<Rightarrow> client_state \<Rightarrow> bool" where
  "client_internals \<equiv> client_internal\<^sup>*\<^sup>*"

lemma client_internals_steps: "client_internals s s' \<Longrightarrow> client_steps s s'"
  by (erule mono_rtranclp [rule_format, rotated]) (simp add: client_internal_def)

text \<open>The run of a call whose response arrives in time: what is left after it has arrived, and all of it.\<close>

lemma received_completes:
  assumes "lock_free s" "rsSid r = next_Sid (csCounter s)" "\<not>  recv_dropped r" "\<not> coOnlyCall opt"
  shows "\<exists>s'. client_internals (receive r (begin_call opt s)) s' \<and>
     csCalls s' (rsSid r) = Some (CReturned (if rsCode r = 0 then CrPacket (rsPacket r) else CrError (rsCode r))) \<and>
     csItems s' (rsSid r) = None \<and> lock_free s' \<and> csRecvs s' = csRecvs s @ [(r, RDone)]"
proof -
  let ?sid = "rsSid r" and ?n = "length (csRecvs s)"
  let ?c = "fill_cond r CallCond_new"
  define s2 where "s2 = s\<lparr>csCounter := ?sid, csItems := (csItems s)(?sid \<mapsto> CallCond_new),
    csCalls := (csCalls s)(?sid \<mapsto> CWaiting), csRecvs := csRecvs s @ [(r, RNew)]\<rparr>"
  define s3 where "s3 = s2\<lparr>csItems := (csItems s2)(?sid \<mapsto> ?c), csRecvs := csRecvs s @ [(r, RSending)]\<rparr>"
  define s4 where "s4 = s3\<lparr>csCalls := (csCalls s2)(?sid \<mapsto> CGot), csRecvs := csRecvs s @ [(r, RDone)]\<rparr>"
  define s5 where "s5 = s4\<lparr>csItems := (csItems s3)(?sid := None), csCalls := (csCalls s4)(?sid \<mapsto> CReturned (call_outcome ?c))\<rparr>"
  note defs = s2_def s3_def s4_def s5_def CallCond_new_def fill_cond_def
  have s2: "receive r (begin_call opt s) = s2"
    using assms(2,4) by (simp add: receive_def begin_call_waits s2_def)
  have free: "lock_free s4"
    using assms(1) by (simp add: lock_free_def read_locked_def defs)
  have quiet: "\<not>  sending_to s2 j ?sid" for j
  proof
    assume "sending_to s2 j ?sid"
    then have "j < ?n" "snd (csRecvs s ! j) = RSending"
      by (auto simp: sending_to_def defs nth_append split: if_splits)
    then have "read_locked s" by (intro read_lockedI [of j s "fst (csRecvs s ! j)" RSending]) (auto intro: prod_eqI)
    with assms(1) show False by (simp add: lock_free_def)
  qed
  have "client_step s2 s3"
    using client_step.recv_send [of ?n s2 r CallCond_new] assms(1,3) quiet by (simp add: defs lock_free_def)
  moreover have "client_step s3 s4"
    using client_step.hand_over [of ?n s3 r ?c] by (simp add: defs)
  moreover have "client_step s4 s5"
    using client_step.end_got [of s4 ?sid ?c] free by (simp add: defs)
  ultimately have "client_internal s2 s3" "client_internal s3 s4" "client_internal s4 s5"
    by (simp_all add: client_internal_def) (simp_all add: defs)
  then have "client_internals s2 s5" by (meson rtranclp.rtrancl_into_rtrancl rtranclp.rtrancl_refl)
  moreover have "lock_free s5" using free by (simp add: s5_def lock_free_def read_locked_def)
  ultimately show ?thesis
    unfolding s2 by (intro exI [of _ s5]) (simp add: defs call_outcome_def)
qed

lemma call_completes:
  assumes "lock_free s" "rsSid r = next_Sid (csCounter s)" "\<not>  recv_dropped r"
  shows "\<exists>s'. client_steps s s' \<and>
     csCalls s' (rsSid r) = Some (CReturned (if rsCode r = 0 then CrPacket (rsPacket r) else CrError (rsCode r))) \<and>
     csItems s' (rsSid r) = None \<and> lock_free s' \<and> csRecvs s' = csRecvs s @ [(r, RDone)]"
proof -
  have "client_steps s (receive r (begin_call client_options_zero s))"
    using begin_call_steps [of client_options_zero s] receive_step [of _ r] assms(1)
    by (meson rtranclp.rtrancl_into_rtrancl)
  with received_completes [OF assms, of client_options_zero] show ?thesis
    by (metis client_internals_steps client_options_zero_def client_options.select_convs(1) rtranclp_trans)
qed

definition demo_answer :: Response where
  "demo_answer = \<lparr>rsSid = 1, rsHeaders = Map.empty, rsCode = 0, rsPacket = [4, 2], rsUnrecognized = []\<rparr>"

lemma client_init_free: "lock_free client_init"
  by (simp add: lock_free_def read_locked_def client_init_def)

section \<open>Properties\<close>

text \<open>A call whose response arrives while it waits, on a client whose lock is free, can return, with the response's packet, or with an
  error carrying the response's code when that is not 0. Its entry is gone then, and the lock is free again.\<close>
theorem call_can_return:
  assumes "lock_free s" "rsSid r = next_Sid (csCounter s)" "\<not>  recv_dropped r"
  shows "\<exists>s'. client_steps s s' \<and>
     csCalls s' (rsSid r) = Some (CReturned (if rsCode r = 0 then CrPacket (rsPacket r) else CrError (rsCode r))) \<and>
     csItems s' (rsSid r) = None \<and> lock_free s' \<and> csRecvs s' = csRecvs s @ [(r, RDone)]"
  by (rule call_completes [OF assms])

theorem call_can_return_witness:
  "\<exists>s. client_steps client_init s \<and> csCalls s 1 = Some (CReturned (CrPacket [4, 2]))"
  using call_can_return [OF client_init_free, of demo_answer]
  by (auto simp: demo_answer_def client_init_def next_Sid_def recv_dropped_def)

text \<open>C14. A call never returns another call's answer: when a call has returned a packet, a response with its sid, code 0 and that packet
  has arrived; when it has returned an error, the code is that of a response with its sid that has arrived, or 408 or 500, the client's
  own. A call that is registered, waits, or has been woken and waits for the lock, finds its entry in the table.\<close>
theorem call_returns_its_response:
  assumes "client_steps client_init s"
  shows "(csCalls s sid = Some (CReturned (CrPacket p)) \<longrightarrow>
           (\<exists>r \<in> arrived s. rsSid r = sid \<and> rsCode r = 0 \<and> rsPacket r = p)) \<and>
         (csCalls s sid = Some (CReturned (CrError code)) \<longrightarrow>
           code \<in> {408, 500} \<or> (\<exists>r \<in> arrived s. rsSid r = sid \<and> rsCode r = code \<and> code \<noteq> 0)) \<and>
         (csCalls s sid \<in> {Some CRegistered, Some CWaiting, Some CTimeout, Some CGot} \<longrightarrow> csItems s sid \<noteq> None)"
proof -
  have res: "csCalls s sid = Some (CReturned res) \<Longrightarrow> returns_arrived s sid res" for res
    using client_inv_steps [OF assms] by (simp add: client_inv_def inv_result_def)
  have "csCalls s sid \<in> {Some CRegistered, Some CWaiting, Some CTimeout, Some CGot} \<longrightarrow> csItems s sid \<noteq> None"
    using client_inv_steps [OF assms] by (auto simp: client_inv_def inv_entry_def)
  with res [of "CrPacket p"] res [of "CrError code"] show ?thesis
    by (auto simp: returns_arrived_def response_outcome_def split: if_splits)
qed

theorem call_returns_its_response_witness:
  "\<exists>s. client_steps client_init s \<and> (\<exists>r \<in> arrived s. rsSid r = 1 \<and> rsCode r = 0 \<and> rsPacket r = [4, 2])"
proof -
  obtain s where "client_steps client_init s" "csCalls s 1 = Some (CReturned (CrPacket [4, 2]))"
    using call_completes [OF client_init_free, of demo_answer]
    by (auto simp: demo_answer_def client_init_def next_Sid_def recv_dropped_def)
  with call_returns_its_response [of s 1 "[4, 2]"] show ?thesis by blast
qed

text \<open>C36. A response that arrives when its call has just timed out deadlocks the client: the callback holds the read lock and sends to a
  channel nobody receives from, the call waits for the write lock. From the reachable state shown, in every later state the call has still not
  returned and the lock is not free, so no other call is registered or returns.\<close>
theorem timeout_deadlock:
  "\<exists>s. client_steps client_init s \<and> deadlocked s 1 \<and>
     Collect (client_steps s) \<subseteq> {s'. csCalls s' 1 = Some CTimeout \<and> \<not>  lock_free s'}"
proof -
  define s0 where "s0 = client_init\<lparr>csCounter := 1, csItems := [1 \<mapsto> CallCond_new], csCalls := [1 \<mapsto> CRegistered]\<rparr>"
  define s1 where "s1 = s0\<lparr>csCalls := [1 \<mapsto> CWaiting]\<rparr>"
  define s2 where "s2 = s1\<lparr>csCalls := [1 \<mapsto> CTimeout]\<rparr>"
  define s3 where "s3 = s2\<lparr>csRecvs := [(demo_answer, RNew)]\<rparr>"
  define s4 where "s4 = s3\<lparr>csItems := [1 \<mapsto> fill_cond demo_answer CallCond_new], csRecvs := [(demo_answer, RSending)]\<rparr>"
  note defs = s0_def s1_def s2_def s3_def s4_def client_init_def CallCond_new_def
  have "client_step client_init s0"
    using client_step.register [OF client_init_free refl] by (simp add: defs next_Sid_def)
  moreover have "client_step s0 s1"
    using client_step.written [of s0 1] by (simp add: defs)
  moreover have "client_step s1 s2"
    using client_step.timer [of s1 1] by (simp add: defs)
  moreover have "client_step s2 s3"
    using client_step.arrive [of s2 demo_answer] by (simp add: defs)
  moreover have "\<not>  sending_to s3 j 1" for j
    by (cases j) (simp_all add: sending_to_def defs)
  then have "client_step s3 s4"
    using client_step.recv_send [of 0 s3 demo_answer CallCond_new]
    by (simp add: defs demo_answer_def recv_dropped_def)
  ultimately have r: "client_steps client_init s4" by (meson rtranclp.rtrancl_into_rtrancl rtranclp.rtrancl_refl)
  have d: "deadlocked s4 1"
    by (intro deadlockedI [of _ _ 0]) (simp_all add: defs demo_answer_def)
  have "csCalls s' 1 = Some CTimeout \<and> \<not>  lock_free s'" if "client_steps s4 s'" for s'
    using deadlocked_steps [OF that d] deadlocked_read_locked [of s' 1]
    by (simp add: deadlocked_def lock_free_def)
  with r d show ?thesis by blast
qed

text \<open>C37. \<open>Destroy\<close> while a call waits: from a reachable state in which the only call waits and the lock is free, the loop of \<open>destroy\<close> comes to its end; the closed
  channel wakes the call, which closes it again and panics with the write lock held; the recovered \<open>Call\<close> returns a nil packet and a nil error, and
  the lock is never free again.\<close>
theorem destroy_wakes_into_panic:
  "\<exists>w s. client_steps client_init w \<and> csCalls w = [1 \<mapsto> CWaiting] \<and> lock_free w \<and> range_order (csItems w) [1] \<and>
     fst (destroy_items [1] (csItems w)) \<and> client_steps (w\<lparr>csItems := snd (destroy_items [1] (csItems w))\<rparr>) s \<and>
     csCalls s 1 = Some (CReturned CrNil) \<and> Collect (client_steps s) \<subseteq> {s'. \<not>  lock_free s'}"
proof -
  define s0 where "s0 = client_init\<lparr>csCounter := 1, csItems := [1 \<mapsto> CallCond_new], csCalls := [1 \<mapsto> CRegistered]\<rparr>"
  define s1 where "s1 = s0\<lparr>csCalls := [1 \<mapsto> CWaiting]\<rparr>"
  define s2 where "s2 = s1\<lparr>csItems := snd (destroy_items [1] (csItems s1))\<rparr>"
  define s3 where "s3 = s2\<lparr>csCalls := [1 \<mapsto> CGot]\<rparr>"
  define s4 where "s4 = s3\<lparr>csItems := (csItems s3)(1 \<mapsto> CallCond_new\<lparr>ccClosed := True, ccPacket := []\<rparr>),
    csCalls := [1 \<mapsto> CReturned CrNil], csWriteLocked := True\<rparr>"
  note defs = s0_def s1_def s2_def s3_def s4_def client_init_def CallCond_new_def
  have "client_step client_init s0"
    using client_step.register [OF client_init_free refl] by (simp add: defs next_Sid_def)
  moreover have "client_step s0 s1"
    using client_step.written [of s0 1] by (simp add: defs)
  ultimately have w: "client_steps client_init s1" by (meson rtranclp.rtrancl_into_rtrancl rtranclp.rtrancl_refl)
  have s1: "csCalls s1 = [1 \<mapsto> CWaiting]" "lock_free s1" "range_order (csItems s1) [1]" "fst (destroy_items [1] (csItems s1))"
    by (simp_all add: defs lock_free_def read_locked_def range_order_def)
  have "client_step s2 s3"
    using client_step.wake_closed [of s2 1 "CallCond_new\<lparr>ccClosed := True\<rparr>"] by (simp add: defs)
  moreover have "client_step s3 s4"
    using client_step.end_got_panic [of s3 1 "CallCond_new\<lparr>ccClosed := True\<rparr>"]
    by (simp add: defs lock_free_def read_locked_def)
  ultimately have "client_steps s2 s4" by (meson rtranclp.rtrancl_into_rtrancl rtranclp.rtrancl_refl)
  moreover have "csCalls s4 1 = Some (CReturned CrNil)" "csWriteLocked s4" by (simp_all add: defs)
  moreover have "\<not>  lock_free s'" if "client_steps s4 s'" for s'
    using write_locked_steps [OF that] \<open>csWriteLocked s4\<close> by (simp add: lock_free_def)
  ultimately show ?thesis using w s1 unfolding s2_def by blast
qed

text \<open>A call whose write fails leaves its entry, with a closed channel, in the table: no step removes it (until the 64-bit
  counter of sids comes round to it), and a later \<open>destroy\<close> can only panic.\<close>
theorem failed_write_entry_stays:
  assumes "client_step s s'" "csItems s sid = Some c" "ccClosed c" "next_Sid (csCounter s) \<noteq> sid"
  shows "(\<exists>c'. csItems s' sid = Some c' \<and> ccClosed c') \<and> \<not>  (\<forall>k d. csItems s k = Some d \<longrightarrow> \<not>  ccClosed d)"
proof -
  have "\<exists>c'. csItems s' sid = Some c' \<and> ccClosed c'"
    using assms(1) by (cases rule: client_step.cases) (use assms(2-4) in \<open>auto simp: fill_cond_def\<close>)
  with assms(2,3) show ?thesis by blast
qed

theorem failed_write_entry_stays_witness:
  "\<exists>c'. csItems (client_init\<lparr>csItems := [5 \<mapsto> CallCond_new\<lparr>ccClosed := True\<rparr>],
      csCounter := next_Sid (csCounter client_init)\<rparr>) 5 = Some c' \<and> ccClosed c'"
  using failed_write_entry_stays [OF client_step.start_only, of "client_init\<lparr>csItems := [5 \<mapsto> CallCond_new\<lparr>ccClosed := True\<rparr>]\<rparr>" 5
      "CallCond_new\<lparr>ccClosed := True\<rparr>"]
  by (simp add: client_init_def next_Sid_def)

end
