(* ===== verification/Rpc_Client.thy ===== *)
theory Rpc_Client
  imports Client Registry
begin

text \<open>
  The client around a call: making it (\<open>NewClient\<close>, \<open>newPool\<close>), connecting to an instance of a service, \<open>Call\<close>, which
  marshals the message, chooses a connection, calls and drops a connection that turns out to be broken, and \<open>destroy\<close>; of
  \<open>client/client.go\<close> and \<open>client/pools.go\<close>. What the inner \<open>call\<close> comes back with is an argument: the
  goroutines behind it are in \<open>Client\<close>.
\<close>

section \<open>Making a client\<close>

record rpc_client =
  rcGroup :: bytes
  rcConns :: rpcconn
  rcRegistry :: registry
  rcHost :: bytes

text \<open>\<open>newPool\<close>: the registry becomes a consumer (or the process exits); the error of \<open>GetEthIp\<close> is
  ignored, and \<open>metrics.Host\<close> is set to the address.\<close>

definition NewClient ::
    "float_ops \<Rightarrow> (bytes list \<Rightarrow> conf) \<Rightarrow> (polaris_cfg \<Rightarrow> bool) \<Rightarrow> net_addr list option \<Rightarrow> bytes \<Rightarrow>
       (client_options \<Rightarrow> client_options) list \<Rightarrow> rpc_client reg_out" where
  "NewClient fo get ok addrs grp opts =
     (let opt = fold (\<lambda>f o'. f o') opts client_options_zero;
          r = (case coRegistry opt of None \<Rightarrow> Registry | Some r \<Rightarrow> r)
      in case registry_Consumer fo get ok r of
           Exits cs \<Rightarrow> Exits cs
         | RegPanics cs \<Rightarrow> RegPanics cs
         | Returns r cs \<Rightarrow>
             Returns \<lparr>rcGroup = grp, rcConns = pool_new, rcRegistry = r,
               rcHost = (case GetEthIp addrs of None \<Rightarrow> [] | Some ip \<Rightarrow> ip)\<rparr> cs)"

section \<open>Connecting\<close>

text \<open>The address of an instance; \<open>dial\<close> is \<open>SocketByAddr\<close>, a connection or a failure.\<close>

definition instance_addr :: "node_instance \<Rightarrow> bytes" where
  "instance_addr ins = niHost ins @ str '':'' @ show_int (niPort ins)"

definition pool_connect ::
    "(bytes \<Rightarrow> bytes \<Rightarrow> bytes + node_instance option) \<Rightarrow> (bytes \<Rightarrow> nat option) \<Rightarrow> bytes \<Rightarrow> bytes \<Rightarrow> bytes \<Rightarrow> registry \<Rightarrow> dial" where
  "pool_connect lookup dial grp svrname name r =
     (case registry_GetNode lookup grp svrname r of
        Inl _ \<Rightarrow> None
      | Inr ins \<Rightarrow> (case dial (instance_addr ins) of None \<Rightarrow> None | Some conn \<Rightarrow> Some (conn, name)))"

section \<open>Calling\<close>

record rpc_request =
  rqName :: bytes
  rqMethod :: bytes

definition NewRequest :: "bytes \<Rightarrow> bytes \<Rightarrow> rpc_request" where
  "NewRequest name m = \<lparr>rqName = name, rqMethod = m\<rparr>"

text \<open>The errors of the inner \<open>call\<close> and the text they have. The timeout's text ends in a formatted pointer, an argument.\<close>

datatype call_err = MarshalErr bytes | WriteErr bytes | TimeoutErr bytes | CodeErr i32

definition tab :: byte where "tab = 9"

definition call_err_text :: "bytes \<Rightarrow> call_err \<Rightarrow> bytes" where
  "call_err_text traceId e =
     (case e of
        MarshalErr t \<Rightarrow> str ''call.Marshal error['' @ t @ str '']'' @ [tab] @ str ''traceId:'' @ traceId
      | WriteErr t \<Rightarrow> str ''call.Write error['' @ t @ str '']'' @ [tab] @ str ''traceId:'' @ traceId
      | TimeoutErr ptr \<Rightarrow> str ''Wait fail , timeout'' @ [tab] @ str '' traceId:'' @ ptr
      | CodeErr code \<Rightarrow> str ''Request to server failed! called code:'' @ show_int (sint code) @ [tab] @ str ''traceId:'' @ traceId)"

text \<open>What the inner \<open>call\<close> comes back with; a panic in it is recovered by \<open>Call\<close>.\<close>

datatype inner_out = InnerOk bytes | InnerErr call_err | InnerPanic

text \<open>The results of \<open>Call\<close>; \<open>OutNil\<close> is a nil packet with a nil error.\<close>

datatype call_out = OutPacket bytes | OutMarshal bytes | OutNoNode | OutErr call_err | OutNil

definition broken_text :: "bytes \<Rightarrow> bool" where
  "broken_text t \<longleftrightarrow> contains (str ''closed'') t \<or> contains (str ''broken pipe'') t"

definition call_metrics :: "bytes \<Rightarrow> call_out \<Rightarrow> mev list" where
  "call_metrics m out =
     (case out of
        OutNil \<Rightarrow> [MCounter (str ''client'') (str ''panic'')]
      | OutPacket _ \<Rightarrow> [MCounter (str ''client'') m]
      | _ \<Rightarrow> [MCounter (str ''client'') m, MCounter (str ''client'') (m @ str ''.error'')])"

text \<open>\<open>Call\<close>: \<open>marshalled\<close> is the outcome of the message's \<open>Marshal\<close>, an error or the packet.\<close>

definition Client_Call ::
    "bytes + bytes \<Rightarrow> i64 \<Rightarrow> dial list \<Rightarrow> (nat \<Rightarrow> nat) \<Rightarrow> (client \<Rightarrow> bytes \<Rightarrow> inner_out) \<Rightarrow> bytes \<Rightarrow> rpc_request \<Rightarrow> rpc_client \<Rightarrow>
       call_out \<times> rpc_client \<times> mev list" where
  "Client_Call marshalled now ds intn inner traceId req c =
     (let done = \<lambda>out p. (out, c\<lparr>rcConns := p\<rparr>, call_metrics (rqMethod req) out)
      in case marshalled of
           Inl err \<Rightarrow> done (OutMarshal err) (rcConns c)
         | Inr packet \<Rightarrow>
             (case pool_response (rcGroup c) (rqName req) now ds intn (rcConns c) of
                (None, p) \<Rightarrow> done OutNoNode p
              | (Some cli, p) \<Rightarrow>
                  (case inner cli packet of
                     InnerPanic \<Rightarrow> done OutNil p
                   | InnerOk res \<Rightarrow> done (OutPacket res) p
                   | InnerErr err \<Rightarrow>
                       done (OutErr err)
                         (if broken_text (call_err_text traceId err)
                          then removeByClient (clGroup cli) (clSvrname cli) (clName cli) p else p))))"

text \<open>When the connection ends, its receiving goroutine takes it out of the pool; the callback's error is nil.\<close>

definition connection_closed :: "bytes \<Rightarrow> bytes \<Rightarrow> bytes \<Rightarrow> rpcconn \<Rightarrow> rpcconn \<times> bytes option" where
  "connection_closed grp svrname name p = (removeByClient grp svrname name p, None)"

section \<open>Destroying\<close>

text \<open>\<open>destroy\<close> closes the connections of every entry, once the registry is destroyed; \<open>keys\<close> is the order in which the
  entries are ranged over. What it does to waiting calls is a step of \<open>Client\<close>.\<close>

definition Client_Destroy :: "bytes list \<Rightarrow> rpc_client \<Rightarrow> nat list reg_out" where
  "Client_Destroy keys c =
     (case registry_Destroy (rcRegistry c) of
        Returns _ cs \<Rightarrow> Returns (concat (map (\<lambda>k. map clConn (rcConns c k)) keys)) cs
      | Exits cs \<Rightarrow> Exits cs
      | RegPanics cs \<Rightarrow> RegPanics cs)"

section \<open>The pool stays well-formed\<close>

text \<open>At most eight connections in an entry, each stored under the key of its own service.\<close>

definition pool_ok :: "rpcconn \<Rightarrow> bool" where
  "pool_ok p \<longleftrightarrow>
     (\<forall>k. length (p k) \<le> RPC_POOL_SIZE \<and> (\<forall>v \<in> set (p k). pool_key (clGroup v) (clSvrname v) = k))"

lemma pool_ok_new: "pool_ok pool_new"
  by (simp add: pool_ok_def pool_new_def)

lemma genCon_service:
  "v \<in> set (fst (genCon grp svrname now n ds)) \<Longrightarrow> clGroup v = grp \<and> clSvrname v = svrname"
  by (induction grp svrname now n ds rule: genCon.induct) (auto simp: Let_def split: prod.splits option.splits)

lemma pool_ok_update:
  assumes "pool_ok p" "length cs \<le> RPC_POOL_SIZE" "\<forall>v \<in> set cs. pool_key (clGroup v) (clSvrname v) = k"
  shows "pool_ok (p(k := cs))"
  using assms by (simp add: pool_ok_def)

lemma pool_ok_fill:
  assumes "pool_ok p"
  shows "pool_ok (pool_fill grp svrname now ds p)"
proof -
  let ?k = "pool_key grp svrname"
  obtain cs1 ds1 cs2 ds2 where g: "genCon grp svrname now RPC_POOL_SIZE ds = (cs1, ds1)"
    "genCon grp svrname now (RPC_POOL_SIZE - length (if p ?k = [] then cs1 else p ?k)) (if p ?k = [] then ds1 else ds) = (cs2, ds2)"
    and fill: "pool_fill grp svrname now ds p =
       (let q = (if p ?k = [] then cs1 else p ?k)
        in if length q < RPC_POOL_SIZE then p(?k := q @ cs2) else p(?k := q))"
    by (rule pool_fill_cases)
  have "\<forall>v \<in> set cs1. pool_key (clGroup v) (clSvrname v) = ?k" "\<forall>v \<in> set cs2. pool_key (clGroup v) (clSvrname v) = ?k"
    using genCon_service [of _ grp svrname now] g by (metis fst_conv)+
  then have "\<forall>v \<in> set (pool_fill grp svrname now ds p ?k). pool_key (clGroup v) (clSvrname v) = ?k"
    using assms by (auto simp: fill pool_ok_def Let_def)
  moreover have "length (pool_fill grp svrname now ds p ?k) \<le> RPC_POOL_SIZE"
    using assms by (intro pool_fill_bounds(1)) (simp add: pool_ok_def)
  ultimately have "pool_ok (p(?k := pool_fill grp svrname now ds p ?k))"
    using assms by (intro pool_ok_update)
  moreover have "p(?k := pool_fill grp svrname now ds p ?k) = pool_fill grp svrname now ds p"
    by (auto simp: fun_eq_iff fill Let_def)
  ultimately show ?thesis by simp
qed

lemma pool_ok_response:
  assumes "pool_ok p" "\<And>n. 0 < n \<Longrightarrow> intn n < n" "pool_response grp svrname now ds intn p = (c, p')"
  shows "pool_ok p' \<and> (case c of None \<Rightarrow> True | Some v \<Rightarrow> v \<in> set (p' (pool_key grp svrname)))"
proof -
  let ?p = "pool_fill grp svrname now ds p" and ?k = "pool_key grp svrname"
  show ?thesis
  proof (cases "length (?p ?k) = 0")
    case True
    with assms pool_ok_fill [OF assms(1)] show ?thesis by (auto simp: pool_response_def Let_def)
  next
    case False
    define i where "i = intn (length (?p ?k))"
    have i: "i < length (?p ?k)" using assms(2) False by (simp add: i_def)
    let ?c = "(?p ?k ! i)\<lparr>clStamp := now\<rparr>"
    have p': "c = Some ?c" "p' = ?p(?k := (?p ?k)[i := ?c])"
      using assms(3) False by (simp_all add: pool_response_def i_def Let_def)
    have ok: "pool_ok ?p" by (rule pool_ok_fill [OF assms(1)])
    have "?p ?k ! i \<in> set (?p ?k)" using i by (rule nth_mem)
    then have key: "pool_key (clGroup ?c) (clSvrname ?c) = ?k" using ok by (simp add: pool_ok_def)
    have "\<forall>v \<in> set ((?p ?k)[i := ?c]). pool_key (clGroup v) (clSvrname v) = ?k"
    proof
      fix v assume "v \<in> set ((?p ?k)[i := ?c])"
      then have "v = ?c \<or> v \<in> set (?p ?k)" using set_update_subset_insert by fastforce
      then show "pool_key (clGroup v) (clSvrname v) = ?k" using key ok by (auto simp: pool_ok_def)
    qed
    then have "pool_ok p'" using ok unfolding p' by (intro pool_ok_update) (simp_all add: pool_ok_def)
    then show ?thesis using p' i by (simp add: set_update_memI)
  qed
qed

lemma pool_ok_remove: "pool_ok p \<Longrightarrow> pool_ok (removeByClient grp svrname name p)"
  unfolding removed_filter
  by (intro pool_ok_update) (auto simp: pool_ok_def intro: le_trans [OF length_filter_le])

lemma broken_write: "broken_text t \<Longrightarrow> broken_text (call_err_text traceId (WriteErr t))"
  unfolding broken_text_def call_err_text_def call_err.case by (blast intro: contains_context)

section \<open>Properties\<close>

text \<open>C20. Every operation on a client's pool keeps it well-formed: a new client's is, and a call keeps it, whatever the dials, the random index and the
  call come to; so no service ever has more than eight connections, and every connection is under its service's key.\<close>
theorem Client_Call_pool_ok:
  assumes "pool_ok (rcConns c)" "\<And>n. 0 < n \<Longrightarrow> intn n < n"
  shows "pool_ok pool_new \<and> pool_ok (rcConns (fst (snd (Client_Call marshalled now ds intn inner traceId req c))))"
proof -
  obtain v p where r: "pool_response (rcGroup c) (rqName req) now ds intn (rcConns c) = (v, p)" by fastforce
  from pool_ok_response [OF assms r] have "pool_ok p" by simp
  with assms(1) r show ?thesis
    by (auto simp: Client_Call_def Let_def pool_ok_new pool_ok_remove split: sum.splits option.splits inner_out.splits)
qed

theorem Client_Call_pool_ok_witness:
  "pool_ok (rcConns (fst (snd (Client_Call (Inr [1]) 0 (replicate 8 (Some (3, [7]))) (\<lambda>_. 0) (\<lambda>_ _. InnerErr (WriteErr []))
     [] (NewRequest [5] [6]) \<lparr>rcGroup = [4], rcConns = pool_new, rcRegistry = Registry, rcHost = []\<rparr>))))"
  using Client_Call_pool_ok [of "\<lparr>rcGroup = [4], rcConns = pool_new, rcRegistry = Registry, rcHost = []\<rparr>" "\<lambda>_. 0"]
  by (simp add: pool_ok_new)

text \<open>A call that fails to write on a connection the kernel reports closed or broken returns the error and drops exactly that
  connection from its service's entry (the others, and the other services, stay as choosing the connection left them). Any other failing
  call leaves the pool alone.\<close>
theorem broken_connection_dropped:
  assumes "pool_ok (rcConns c)" "\<And>n. 0 < n \<Longrightarrow> intn n < n"
    and "pool_response (rcGroup c) (rqName req) now ds intn (rcConns c) = (Some cli, p)"
    and "inner cli packet = InnerErr (WriteErr t)" "broken_text t"
  shows "\<exists>c' ms. Client_Call (Inr packet) now ds intn inner traceId req c = (OutErr (WriteErr t), c', ms) \<and>
     cli \<in> set (p (pool_key (rcGroup c) (rqName req))) \<and>
     rcConns c' = p(pool_key (rcGroup c) (rqName req) :=
       filter (\<lambda>v. clName v \<noteq> clName cli) (p (pool_key (rcGroup c) (rqName req))))"
proof -
  from pool_ok_response [OF assms(1-3)] have "pool_ok p" "cli \<in> set (p (pool_key (rcGroup c) (rqName req)))" by auto
  then have "pool_key (clGroup cli) (clSvrname cli) = pool_key (rcGroup c) (rqName req)" by (auto simp: pool_ok_def)
  with assms(3-5) \<open>cli \<in> _\<close> show ?thesis
    by (simp add: Client_Call_def Let_def broken_write removed_filter)
qed

definition demo_rpc_client :: rpc_client where
  "demo_rpc_client = \<lparr>rcGroup = [4], rcConns = pool_new, rcRegistry = Registry, rcHost = []\<rparr>"

theorem broken_connection_dropped_witness:
  "\<exists>c' ms. Client_Call (Inr [1]) 0 [Some (3, [7])] (\<lambda>_. 0) (\<lambda>_ _. InnerErr (WriteErr (str ''broken pipe''))) []
       (NewRequest [5] [6]) demo_rpc_client = (OutErr (WriteErr (str ''broken pipe'')), c', ms) \<and>
     rcConns c' (pool_key [4] [5]) = []"
proof -
  let ?cli = "\<lparr>clConn = 3, clName = [7], clSvrname = [5], clGroup = [4], clStamp = 0\<rparr>"
  have r: "pool_response (rcGroup demo_rpc_client) (rqName (NewRequest [5] [6])) 0 [Some (3, [7])] (\<lambda>_. 0) (rcConns demo_rpc_client) =
      (Some ?cli, pool_new(pool_key [4] [5] := [?cli]))"
    by (simp add: demo_rpc_client_def NewRequest_def pool_response_def pool_fill_def pool_new_def RPC_POOL_SIZE_def eval_nat_numeral Let_def)
  have ok: "pool_ok (rcConns demo_rpc_client)" by (simp add: demo_rpc_client_def pool_ok_new)
  have "broken_text (str ''broken pipe'')" by (simp add: broken_text_def has_prefix_def)
  from broken_connection_dropped [OF ok _ r, of "\<lambda>_ _. InnerErr (WriteErr (str ''broken pipe''))" "[1]", OF _ refl this] obtain c' ms where
    "Client_Call (Inr [1]) 0 [Some (3, [7])] (\<lambda>_. 0) (\<lambda>_ _. InnerErr (WriteErr (str ''broken pipe''))) [] (NewRequest [5] [6])
       demo_rpc_client = (OutErr (WriteErr (str ''broken pipe'')), c', ms)"
    "rcConns c' (pool_key [4] [5]) = []"
    by (fastforce simp: demo_rpc_client_def NewRequest_def)
  then show ?thesis by blast
qed

text \<open>Destroying a client made with the default registry ends the process: the registry withdraws first and takes the missing
  provider for fatal. No connection is closed, no library handle released.\<close>
theorem Client_Destroy_exits:
  assumes "NewClient fo get ok addrs grp [] = Returns c cs" "rcRegistry c' = rcRegistry c"
  shows "Client_Destroy keys c' = Exits []"
  using assms
  by (auto simp: NewClient_def client_options_zero_def registry_Consumer_def Registry_def Client_Destroy_def registry_Destroy_def
      registry_deregister_def Let_def split: if_splits)

theorem Client_Destroy_exits_witness:
  "Client_Destroy [] \<lparr>rcGroup = [], rcConns = pool_new, rcRegistry = Registry\<lparr>rgConsumer := True\<rparr>, rcHost = []\<rparr> = Exits []"
  using Client_Destroy_exits [of undefined "\<lambda>_. ConfString [65]" "\<lambda>_. True" None "[]"]
  by (simp add: NewClient_def client_options_zero_def registry_Consumer_def aReader_String_def GetEthIp_def)

end
