(* ===== verification/Server_Handle.thy ===== *)
theory Server_Handle
  imports Common Packet_Rpc Transport
begin

text \<open>
  Handling one request in \<open>server/server.go\<close> and \<open>server/handler.go\<close>: the table of methods, the handler with its deferred functions, and the reply. The
  limiter, the called methods and the outcomes of writes are parameters; the metrics a handler reports are recorded in order.
\<close>

section \<open>Methods\<close>

text \<open>What a called method does: returns a packet, returns an error, or panics with an \<open>error\<close> value or another one.\<close>

datatype call_res = CallOk bytes | CallErr | CallPanic bool

record RpcItem =
  riCall :: "(go_context \<Rightarrow> bytes \<Rightarrow> call_res) option"
  riName :: bytes

text \<open>The table maps an id to a pointer, which can be nil.\<close>

type_synonym rpcHandler = "u64 \<rightharpoonup> RpcItem option"

definition RpcHandler :: rpcHandler where
  "RpcHandler = Map.empty"

definition rpcHandler_Add :: "rpcHandler \<Rightarrow> u64 \<Rightarrow> RpcItem option \<Rightarrow> rpcHandler" where
  "rpcHandler_Add c rid rpc = c(rid \<mapsto> rpc)"

section \<open>Replying\<close>

text \<open>The environment of one request: whether the registry's limiter refuses a method, the orders in which the
  reply's headers are ranged over, and the outcomes of the writes.\<close>

record handle_env =
  heLimited :: "bytes \<Rightarrow> bool"
  heKs :: "bytes list"
  heKs' :: "bytes list"
  heWrites :: "wres list"

text \<open>\<open>reply\<close>: \<open>None\<close> is a panic of \<open>Marshal\<close> or \<open>Write\<close>; the outcome of \<open>Write\<close> is ignored.\<close>

definition reply :: "handle_env \<Rightarrow> Response \<Rightarrow> write_out option" where
  "reply e packet = do {
     res \<leftarrow> Response_Marshal packet (heKs e) (heKs' e);
     Response_Write True res (heWrites e)
   }"

section \<open>Handling a request\<close>

datatype handle_err = HUnmarshal perr | HNotRegistered | HNoCall | HLimited | HCallFailed

text \<open>\<open>HPanicked\<close>: a panic was recovered and nil is returned. \<open>HCrashed\<close>: the recovered value is not an \<open>error\<close>, the type
  assertion in the deferred function panics, and the process ends.\<close>

datatype handle_out = HNil | HError handle_err | HPanicked | HCrashed

record handle_res =
  hrOut :: handle_out
  hrReplies :: "write_out list"
  hrMetrics :: "mev list"
  hrReqs :: i64

text \<open>The atomic operations on the number of requests being processed: its new value, which is also the result.\<close>

definition incReq :: "i64 \<Rightarrow> i64" where [simp]: "incReq reqs = reqs + 1"
definition decReq :: "i64 \<Rightarrow> i64" where [simp]: "decReq reqs = reqs - 1"
definition getReq :: "i64 \<Rightarrow> i64" where [simp]: "getReq reqs = reqs + 0"

text \<open>The metrics of the outer deferred function.\<close>

definition recv_metrics :: "handle_out \<Rightarrow> mev list" where
  "recv_metrics out =
     MCounter (str ''server'') (str ''recv'') #
     (if out = HPanicked \<or> out = HCrashed then [MCounter (str ''server'') (str ''panic'')] else [])"

text \<open>An early return, before the request is counted.\<close>

definition handle_early :: "mev list \<Rightarrow> handle_out \<Rightarrow> i64 \<Rightarrow> handle_res" where
  "handle_early ms out reqs =
     \<lparr>hrOut = out, hrReplies = [], hrMetrics = ms @ recv_metrics out, hrReqs = reqs\<rparr>"

text \<open>The return of a counted request: the inner deferred function runs first.\<close>

definition handle_done :: "bytes \<Rightarrow> i64 \<Rightarrow> i32 \<Rightarrow> handle_out \<Rightarrow> write_out list \<Rightarrow> handle_res" where
  "handle_done name reqCount code out replies =
     (let reqCount = decReq reqCount
      in \<lparr>hrOut = out, hrReplies = replies,
           hrMetrics = [MMethodCode name code, MCounterByAdd (str ''server'') (str ''reqCount'') reqCount,
             MSummary name] @ recv_metrics out,
           hrReqs = reqCount\<rparr>)"

definition handle_answer ::
    "handle_env \<Rightarrow> bytes \<Rightarrow> i64 \<Rightarrow> Response \<Rightarrow> handle_out \<Rightarrow> handle_res" where
  "handle_answer e name reqCount res out =
     (case reply e res of
        None \<Rightarrow> handle_done name reqCount (rsCode res) HPanicked []
      | Some w \<Rightarrow> handle_done name reqCount (rsCode res) out [w])"

definition handle_call ::
    "handle_env \<Rightarrow> bytes \<Rightarrow> (go_context \<Rightarrow> bytes \<Rightarrow> call_res) \<Rightarrow> Request \<Rightarrow> i64 \<Rightarrow> handle_res" where
  "handle_call e name call msg reqs =
     (let reqCount = incReq reqs;
          traceId = map_get (rqHeaders msg) (str ''traceId'');
          res = \<lparr>rsSid = rqSid msg, rsHeaders = rqHeaders msg, rsCode = 0, rsPacket = [], rsUnrecognized = []\<rparr>
      in if heLimited e name
         then handle_answer e name reqCount (res\<lparr>rsCode := 405\<rparr>) (HError HLimited)
         else case call [(str ''traceId'', CtxString traceId)] (rqPacket msg) of
             CallPanic is_error \<Rightarrow> handle_done name reqCount 0 (if is_error then HPanicked else HCrashed) []
           | CallErr \<Rightarrow> handle_answer e name reqCount (res\<lparr>rsCode := 505\<rparr>) (HError HCallFailed)
           | CallOk ret \<Rightarrow>
               (if rqHeaders msg (str ''onlyCall'') \<noteq> None \<or> rqSid msg = 0
                then handle_done name reqCount 0 HNil []
                else handle_answer e name reqCount (res\<lparr>rsPacket := ret\<rparr>) HNil))"

text \<open>\<open>h\<close> is the server's method table, nil when \<open>NewHandler\<close> was never called.\<close>

definition Server_handle :: "rpcHandler option \<Rightarrow> handle_env \<Rightarrow> bytes \<Rightarrow> i64 \<Rightarrow> handle_res" where
  "Server_handle h e packet reqs =
     (case Request_Unmarshal packet Request_Reset of
        Inl err \<Rightarrow> handle_early [] (if err = GoPanic then HPanicked else HError (HUnmarshal err)) reqs
      | Inr msg \<Rightarrow>
          (case h of
             None \<Rightarrow> handle_early [] HPanicked reqs
           | Some calls \<Rightarrow>
               (case calls (rqRpcId msg) of
                  None \<Rightarrow> handle_early [] (HError HNotRegistered) reqs
                | Some item \<Rightarrow>
                    (case Option.bind item riCall of
                       None \<Rightarrow> handle_early [MCounter (str ''server'') (str ''not.Call'')] (HError HNoCall) reqs
                     | Some call \<Rightarrow> handle_call e (riName (the item)) call msg reqs))))"

section \<open>What a reply carries\<close>

text \<open>The reply to a request: the same sid and headers.\<close>

definition reply_msg :: "Request \<Rightarrow> i32 \<Rightarrow> bytes \<Rightarrow> Response" where
  "reply_msg msg code packet =
     \<lparr>rsSid = rqSid msg, rsHeaders = rqHeaders msg, rsCode = code, rsPacket = packet, rsUnrecognized = []\<rparr>"

text \<open>The reply can be written: the orders are orders of its headers, and it fits in a frame.\<close>

definition can_reply :: "handle_env \<Rightarrow> Response \<Rightarrow> bool" where
  "can_reply e res \<longleftrightarrow> range_order (rsHeaders res) (heKs e) \<and> range_order (rsHeaders res) (heKs' e) \<and>
     Response_Size (Some res) (heKs e) < 2 ^ 27 \<and> 0 < Response_Size (Some res) (heKs e)"

lemma frame_small:
  assumes "length p < 2 ^ 27"
  obtains f where "frame p = Some f"
proof (cases "p = []")
  case True
  then have "frame p = Some [0, 0, 0, 0, 0, 0, 0, 0]"
    by (simp add: frame_def) code_simp
  then show ?thesis by (rule that)
next
  case False
  with assms sendable_frame [of "length p" p] that show ?thesis by (auto simp: sendable_def)
qed

lemma reply_sends:
  assumes "can_reply e res" "rsUnrecognized res = []"
  obtains bs f where "Response_Unmarshal bs Response_Reset = Inr res" "frame bs = Some f"
    and "reply e res = Some (write_loop f 0 (heWrites e) [])"
proof -
  note cr = assms(1) [unfolded can_reply_def]
  let ?bs = "enc_Response res (heKs' e)"
  have m: "Response_Marshal res (heKs e) (heKs' e) = Some ?bs"
    using cr by (intro Response_Marshal_enc) auto
  have len: "length ?bs < 2 ^ 27" "?bs \<noteq> []"
    using cr Response_Size_order [of res "heKs e" "heKs' e"] length_enc_Response [of res "heKs' e"]
    by auto
  then obtain f where f: "frame ?bs = Some f" using frame_small by blast
  have "Response_Unmarshal ?bs Response_Reset = Inr res"
    using cr len assms(2) by (intro Response_Unmarshal_enc) (auto simp: go_slice_def)
  moreover have "reply e res = Some (write_loop f 0 (heWrites e) [])"
    using m f len(2) by (auto simp: reply_def Response_Write_def frame_def)
  ultimately show thesis using that f by blast
qed

lemma reply_msg_unrecognized [simp]: "rsUnrecognized (reply_msg msg code packet) = []"
  by (simp add: reply_msg_def)

lemma handle_registered:
  assumes "Request_Unmarshal packet Request_Reset = Inr msg" "calls (rqRpcId msg) = Some (Some item)"
    and "riCall item = Some call"
  shows "Server_handle (Some calls) e packet reqs = handle_call e (riName item) call msg reqs"
  using assms by (simp add: Server_handle_def)

lemmas handle_simps = handle_call_def handle_answer_def handle_done_def handle_early_def
  recv_metrics_def Let_def

text \<open>A method that returns a packet is answered with it.\<close>

lemma handle_answers:
  assumes "Request_Unmarshal packet Request_Reset = Inr msg" "calls (rqRpcId msg) = Some (Some item)"
    and "riCall item = Some call" "\<not>  heLimited e (riName item)"
    and "call [(str ''traceId'', CtxString (map_get (rqHeaders msg) (str ''traceId'')))] (rqPacket msg) = CallOk ret"
    and "rqHeaders msg (str ''onlyCall'') = None" "rqSid msg \<noteq> 0" "can_reply e (reply_msg msg 0 ret)"
  shows "\<exists>bs f. Response_Unmarshal bs Response_Reset = Inr (reply_msg msg 0 ret) \<and> frame bs = Some f \<and>
           hrReplies (Server_handle (Some calls) e packet reqs) = [write_loop f 0 (heWrites e) []] \<and>
           hrOut (Server_handle (Some calls) e packet reqs) = HNil"
proof -
  obtain bs f where r: "Response_Unmarshal bs Response_Reset = Inr (reply_msg msg 0 ret)" "frame bs = Some f"
      "reply e (reply_msg msg 0 ret) = Some (write_loop f 0 (heWrites e) [])"
    using reply_sends [OF assms(8)] by auto
  then show ?thesis
    using assms(4-7) unfolding handle_registered [of packet msg calls item call, OF assms(1-3)]
    by (auto simp: handle_simps reply_msg_def)
qed

section \<open>Properties of a request\<close>

text \<open>A request for a registered method that is not limited, whose call returns a packet, and that asks for a reply (a non-zero
  sid, no \<open>onlyCall\<close> header), is answered by one frame: its body is the encoding of a response with the sid and the headers
  of the request, code 0 and the packet the method returned. It is what the peer's \<open>Unmarshal\<close> reads.\<close>
theorem handle_replies_result:
  assumes "Request_Unmarshal packet Request_Reset = Inr msg" "calls (rqRpcId msg) = Some (Some item)"
    and "riCall item = Some call" "\<not>  heLimited e (riName item)"
    and "call [(str ''traceId'', CtxString (map_get (rqHeaders msg) (str ''traceId'')))] (rqPacket msg) = CallOk ret"
    and "rqHeaders msg (str ''onlyCall'') = None" "rqSid msg \<noteq> 0" "can_reply e (reply_msg msg 0 ret)"
  shows "\<exists>bs f. Response_Unmarshal bs Response_Reset = Inr (reply_msg msg 0 ret) \<and> frame bs = Some f \<and>
           hrReplies (Server_handle (Some calls) e packet reqs) = [write_loop f 0 (heWrites e) []] \<and>
           hrOut (Server_handle (Some calls) e packet reqs) = HNil"
  by (rule handle_answers [where call = call and calls = calls, OF assms])

text \<open>Whatever comes in, the count of requests being processed is the same afterwards, and at most one reply is
  written; none when the request cannot be decoded, is for an unknown method, or the method panics.\<close>
theorem handle_balanced:
  "hrReqs (Server_handle h e packet reqs) = reqs \<and>
   length (hrReplies (Server_handle h e packet reqs)) \<le> 1 \<and>
   (hrOut (Server_handle h e packet reqs) \<in> {HPanicked, HCrashed, HError HNotRegistered, HError HNoCall}  \<or> 
    (\<exists>err. hrOut (Server_handle h e packet reqs) = HError (HUnmarshal err)) \<longrightarrow>
      hrReplies (Server_handle h e packet reqs) = [])"
  by (auto simp: Server_handle_def handle_simps split: sum.splits option.splits call_res.splits if_splits)

definition demo_item :: RpcItem where
  "demo_item = \<lparr>riCall = Some (%_ p. CallOk (rev p)), riName = str ''S.Rev''\<rparr>"

definition demo_call :: Request where
  "demo_call = \<lparr>rqSid = 5, rqRpcId = 7, rqHeaders = [[1] \<mapsto> [2]], rqPacket = [8, 9], rqUnrecognized = []\<rparr>"

definition demo_env :: handle_env where
  "demo_env = \<lparr>heLimited = (%_. False), heKs = [[1]], heKs' = [[1]], heWrites = [Wrote 100]\<rparr>"

lemma demo_call_order: "range_order [[1] \<mapsto> [2]] [[1 :: byte]]"
  by (simp add: range_order_def)

lemma demo_call_unmarshal: "Request_Unmarshal (enc_Request demo_call [[1]]) Request_Reset = Inr demo_call"
proof -
  have "Request_Size (Some demo_call) [[1]] = 16" by code_simp
  then show ?thesis
    by (intro Request_Unmarshal_enc)
      (simp_all add: go_slice_def length_enc_Request, simp_all add: demo_call_def demo_call_order)
qed

lemma demo_can_reply: "can_reply demo_env (reply_msg demo_call 0 [9, 8])"
proof -
  have "Response_Size (Some (reply_msg demo_call 0 [9, 8])) [[1]] = 14" by code_simp
  then show ?thesis by (simp add: can_reply_def demo_env_def) (simp add: reply_msg_def demo_call_def demo_call_order)
qed

theorem handle_replies_result_witness:
  "\<exists>bs f. Response_Unmarshal bs Response_Reset = Inr (reply_msg demo_call 0 [9, 8]) \<and> frame bs = Some f \<and>
     hrReplies (Server_handle (Some [7 \<mapsto> Some demo_item]) demo_env (enc_Request demo_call [[1]]) 3) =
       [write_loop f 0 [Wrote 100] []] \<and>
     hrOut (Server_handle (Some [7 \<mapsto> Some demo_item]) demo_env (enc_Request demo_call [[1]]) 3) = HNil"
  using handle_replies_result [OF demo_call_unmarshal, of "[7 \<mapsto> Some demo_item]" demo_item "%_ p. CallOk (rev p)"
      demo_env "[9, 8]" 3] demo_can_reply
  by (simp add: demo_call_def demo_item_def demo_env_def)

theorem handle_balanced_witness:
  "hrReqs (Server_handle None demo_env (enc_Request demo_call [[1]]) 7) = 7 \<and>
   hrReplies (Server_handle None demo_env (enc_Request demo_call [[1]]) 7) = []"
proof -
  have "hrOut (Server_handle None demo_env (enc_Request demo_call [[1]]) 7) = HPanicked"
    by (simp add: Server_handle_def handle_early_def demo_call_unmarshal)
  then show ?thesis using handle_balanced [of None demo_env "enc_Request demo_call [[1]]" 7] by simp
qed

text \<open>C35. A request that asks for no reply (it has the \<open>onlyCall\<close> header) is not answered when its method succeeds, but
  gets a reply all the same when the limiter refuses it (code 405) or when the method fails (code 505).\<close>
theorem onlyCall_gets_error_reply:
  assumes "Request_Unmarshal packet Request_Reset = Inr msg" "calls (rqRpcId msg) = Some (Some item)"
    and "riCall item = Some call" "rqHeaders msg (str ''onlyCall'') \<noteq> None"
    and "res = call [(str ''traceId'', CtxString (map_get (rqHeaders msg) (str ''traceId'')))] (rqPacket msg)"
  shows "(\<not>  heLimited e (riName item) \<and> res = CallOk ret \<longrightarrow> hrOut (Server_handle (Some calls) e packet reqs) = HNil \<and>
      hrReplies (Server_handle (Some calls) e packet reqs) = []) \<and>
    ((heLimited e (riName item) \<and> code = 405  \<or>  \<not>  heLimited e (riName item) \<and> code = 505 \<and> res = CallErr) \<and>
      can_reply e (reply_msg msg code []) \<longrightarrow>
      (\<exists>bs f. Response_Unmarshal bs Response_Reset = Inr (reply_msg msg code []) \<and> frame bs = Some f \<and>
         hrReplies (Server_handle (Some calls) e packet reqs) = [write_loop f 0 (heWrites e) []]))"
proof (rule conjI [OF impI impI])
  assume "\<not>  heLimited e (riName item) \<and> res = CallOk ret"
  then show "hrOut (Server_handle (Some calls) e packet reqs) = HNil \<and> hrReplies (Server_handle (Some calls) e packet reqs) = []"
    using assms(4,5) unfolding handle_registered [of packet msg calls item call, OF assms(1-3)] by (auto simp: handle_simps)
next
  assume fails: "(heLimited e (riName item) \<and> code = 405  \<or>  \<not>  heLimited e (riName item) \<and> code = 505 \<and> res = CallErr) \<and>
    can_reply e (reply_msg msg code [])"
  then obtain bs f where r: "Response_Unmarshal bs Response_Reset = Inr (reply_msg msg code [])" "frame bs = Some f"
      "reply e (reply_msg msg code []) = Some (write_loop f 0 (heWrites e) [])"
    using reply_sends [OF conjunct2 [OF fails]] by (auto simp: reply_msg_def)
  then show "\<exists>bs f. Response_Unmarshal bs Response_Reset = Inr (reply_msg msg code []) \<and> frame bs = Some f \<and>
      hrReplies (Server_handle (Some calls) e packet reqs) = [write_loop f 0 (heWrites e) []]"
    using fails assms(5) unfolding handle_registered [of packet msg calls item call, OF assms(1-3)]
    by (auto simp: handle_simps reply_msg_def)
qed

definition demo_only :: Request where
  "demo_only = \<lparr>rqSid = 5, rqRpcId = 7, rqHeaders = [str ''onlyCall'' \<mapsto> str ''1''], rqPacket = [], rqUnrecognized = []\<rparr>"

definition demo_fail :: RpcItem where
  "demo_fail = \<lparr>riCall = Some (%_ _. CallErr), riName = str ''S.Fail''\<rparr>"

definition demo_only_env :: handle_env where
  "demo_only_env = \<lparr>heLimited = (%_. False), heKs = [str ''onlyCall''], heKs' = [str ''onlyCall''], heWrites = [Wrote 100]\<rparr>"

definition demo_succeed :: RpcItem where
  "demo_succeed = \<lparr>riCall = Some (%_ _. CallOk [1]), riName = str ''S.Ok''\<rparr>"

theorem onlyCall_gets_error_reply_witness:
  "hrReplies (Server_handle (Some [7 \<mapsto> Some demo_succeed]) demo_only_env (enc_Request demo_only [str ''onlyCall'']) 0) = [] \<and>
   (\<exists>bs f. Response_Unmarshal bs Response_Reset = Inr (reply_msg demo_only 505 []) \<and> frame bs = Some f \<and>
     hrReplies (Server_handle (Some [7 \<mapsto> Some demo_fail]) demo_only_env
       (enc_Request demo_only [str ''onlyCall'']) 0) = [write_loop f 0 [Wrote 100] []])"
proof -
  have "Request_Size (Some demo_only) [str ''onlyCall''] = 19" by code_simp
  then have u: "Request_Unmarshal (enc_Request demo_only [str ''onlyCall'']) Request_Reset = Inr demo_only"
    by (intro Request_Unmarshal_enc)
      (simp_all add: go_slice_def length_enc_Request, simp_all add: demo_only_def range_order_def)
  have "Response_Size (Some (reply_msg demo_only 505 [])) [str ''onlyCall''] = 20" by code_simp
  then have "can_reply demo_only_env (reply_msg demo_only 505 [])"
    by (simp add: can_reply_def demo_only_env_def) (simp add: reply_msg_def demo_only_def range_order_def)
  with onlyCall_gets_error_reply [OF u, of "[7 \<mapsto> Some demo_succeed]" demo_succeed "%_ _. CallOk [1]" _ demo_only_env "[1]" 0 405]
    onlyCall_gets_error_reply [OF u, of "[7 \<mapsto> Some demo_fail]" demo_fail "%_ _. CallErr" _ demo_only_env "[1]" 0 505]
  show ?thesis by (simp add: demo_only_def demo_fail_def demo_succeed_def demo_only_env_def)
qed

end
