(* ===== verification/Listener.thy ===== *)
theory Listener
  imports Transport
begin

text \<open>
  The listener of \<open>transport/listener.go\<close> and its options (\<open>transport/options.go\<close>). A listener is driven by
  events: the outcomes of \<open>AcceptTCP\<close> and calls of \<open>Close\<close>. The callbacks are recorded as an observable trace; a
  started receiving goroutine is recorded with the sizes it was given.
\<close>

section \<open>Options\<close>

text \<open>Which of the four callbacks are set. A context is a number that stands for its identity.\<close>

record TransEvent =
  evListen :: bool
  evConnect :: bool
  evClosed :: bool
  evOnRecv :: bool

record options =
  maxMessageSize :: i32
  headerByteSize :: i32
  enableLogging :: bool
  address :: bytes
  event :: TransEvent
  optCtx :: "nat option"

type_synonym TransOption = "options \<Rightarrow> options"

definition MaxMessageSize :: "i32 \<Rightarrow> TransOption" where
  "MaxMessageSize n = (\<lambda>c. c\<lparr>maxMessageSize := n\<rparr>)"

definition HeaderByteSize :: "i32 \<Rightarrow> TransOption" where
  "HeaderByteSize n = (\<lambda>c. c\<lparr>headerByteSize := n\<rparr>)"

definition EnableLogging :: "bool \<Rightarrow> TransOption" where
  "EnableLogging b = (\<lambda>c. c\<lparr>enableLogging := b\<rparr>)"

definition Address :: "bytes \<Rightarrow> TransOption" where
  "Address a = (\<lambda>c. c\<lparr>address := a\<rparr>)"

definition Event :: "TransEvent \<Rightarrow> TransOption" where
  "Event e = (\<lambda>c. c\<lparr>event := e\<rparr>)"

definition Ctx :: "nat \<Rightarrow> TransOption" where
  "Ctx x = (\<lambda>c. c\<lparr>optCtx := Some x\<rparr>)"

definition no_event :: TransEvent where
  "no_event = \<lparr>evListen = False, evConnect = False, evClosed = False, evOnRecv = False\<rparr>"

definition options_zero :: options where
  "options_zero = \<lparr>maxMessageSize = 0, headerByteSize = 0, enableLogging = False, address = [], event = no_event,
     optCtx = None\<rparr>"

definition initOpts :: "TransOption list \<Rightarrow> options" where
  "initOpts opts = fold (\<lambda>f opt. f opt) opts options_zero"

section \<open>The listener\<close>

datatype trace =
    TListen
  | TConnect nat
  | TServe nat i32 i32

record Listener =
  liOpts :: options
  liSocketOpen :: bool
  liShutdown :: bool
  liReturned :: bool
  liTrace :: "trace list"

text \<open>\<open>openSocket\<close> resolves the address and listens (\<open>listen\<close> says whether both succeed), and then announces itself.\<close>

definition openSocket :: "(bytes \<Rightarrow> bool) \<Rightarrow> Listener \<Rightarrow> Listener option" where
  "openSocket listen btl =
     (if listen (address (liOpts btl))
      then Some (btl\<lparr>liSocketOpen := True,
        liTrace := liTrace btl @ (if evListen (event (liOpts btl)) then [TListen] else [])\<rparr>)
      else None)"

text \<open>The sizes that are not set get their defaults.\<close>

definition default_sizes :: "options \<Rightarrow> options" where
  "default_sizes cfg =
     (let cfg = (if maxMessageSize cfg = 0 then cfg\<lparr>maxMessageSize := of_nat DefaultMaxMessageSize\<rparr> else cfg)
      in if headerByteSize cfg = 0 then cfg\<lparr>headerByteSize := of_nat DefaultHeaderSize\<rparr> else cfg)"

definition NewListener :: "(bytes \<Rightarrow> bool) \<Rightarrow> TransOption list \<Rightarrow> Listener option" where
  "NewListener listen opts =
     (let cfg = default_sizes (initOpts opts)
      in openSocket listen \<lparr>liOpts = cfg, liSocketOpen = False, liShutdown = False, liReturned = False, liTrace = []\<rparr>)"

datatype accept = Accepted nat | AcceptError

text \<open>One turn of the loop of \<open>blockListen\<close>: an error ends it only when the shutdown channel is closed.\<close>

definition blockListen_step :: "accept \<Rightarrow> Listener \<Rightarrow> Listener" where
  "blockListen_step a l =
     (if liReturned l then l
      else case a of
          AcceptError \<Rightarrow> (if liShutdown l then l\<lparr>liReturned := True\<rparr> else l)
        | Accepted c \<Rightarrow>
            l\<lparr>liTrace := liTrace l @ (if evConnect (event (liOpts l)) then [TConnect c] else [])
                 @ [TServe c (headerByteSize (liOpts l)) (maxMessageSize (liOpts l))]\<rparr>)"

definition blockListen :: "accept list \<Rightarrow> Listener \<Rightarrow> Listener" where
  "blockListen as l = fold blockListen_step as l"

text \<open>\<open>Start\<close> runs the loop. \<open>StartAsync\<close> starts it in a goroutine and returns the variable that goroutine will assign, before it can: the error
  is always nil, and the listener serves from then on.\<close>

definition Listener_Start :: "accept list \<Rightarrow> Listener \<Rightarrow> Listener" where
  "Listener_Start as btl = blockListen as btl"

definition StartAsync :: "Listener \<Rightarrow> Listener \<times> bytes option" where
  [simp]: "StartAsync btl = (let err = None in (btl, err))"

text \<open>\<open>Close\<close> closes the channel (a second time panics) and waits for a group nobody ever joined. The socket is
  left as it is.\<close>

definition Listener_Close :: "Listener \<Rightarrow> Listener option" where
  "Listener_Close l = (if liShutdown l then None else Some (l\<lparr>liShutdown := True\<rparr>))"

section \<open>Properties\<close>

lemma NewListener_opens:
  assumes "evListen (event (initOpts opts))" "listen (address (initOpts opts))"
  obtains btl where "NewListener listen opts = Some btl" "TListen \<in> set (liTrace btl)" "\<not> liShutdown btl"
proof -
  have "event (default_sizes (initOpts opts)) = event (initOpts opts)"
    "address (default_sizes (initOpts opts)) = address (initOpts opts)"
    by (simp_all add: default_sizes_def Let_def)
  with assms that show thesis by (simp add: NewListener_def openSocket_def)
qed

lemma blockListen_accepts:
  "\<not>  liReturned l \<Longrightarrow>
     blockListen (map Accepted cs) l =
     l\<lparr>liTrace := liTrace l @ concat (map (\<lambda>c.
         (if evConnect (event (liOpts l)) then [TConnect c] else []) @
         [TServe c (headerByteSize (liOpts l)) (maxMessageSize (liOpts l))]) cs)\<rparr>"
  unfolding blockListen_def
proof (induction cs arbitrary: l)
  case (Cons c cs)
  then show ?case by (simp add: blockListen_step_def)
qed simp

text \<open>C33. \<open>Close\<close> does not stop a listener: after it, every connection that is accepted is still announced and served
  as before, and the accept loop has not returned; it returns at the first failing accept. The socket stays open, so nothing makes the
  accept fail.\<close>
theorem Close_keeps_serving:
  assumes "Listener_Close l = Some l'" "\<not>  liReturned l"
  shows "liTrace (blockListen (map Accepted cs) l') = liTrace (blockListen (map Accepted cs) l) \<and>
     \<not>  liReturned (blockListen (map Accepted cs) l') \<and> liSocketOpen l' = liSocketOpen l \<and>
     liReturned (blockListen (map Accepted cs @ [AcceptError]) l')"
proof -
  have l': "l' = l\<lparr>liShutdown := True\<rparr>"
    using assms(1) by (simp add: Listener_Close_def split: if_splits)
  have "blockListen (map Accepted cs @ [AcceptError]) l' =
      blockListen_step AcceptError (blockListen (map Accepted cs) l')"
    by (simp add: blockListen_def)
  then show ?thesis
    using assms(2) blockListen_accepts [of l cs] blockListen_accepts [of l' cs]
    by (simp add: l' blockListen_step_def)
qed

definition demo_listener :: Listener where
  "demo_listener = \<lparr>liOpts = options_zero, liSocketOpen = True, liShutdown = False, liReturned = False, liTrace = []\<rparr>"

theorem Close_keeps_serving_witness:
  "liTrace (blockListen (map Accepted [1]) (demo_listener\<lparr>liShutdown := True\<rparr>)) =
     liTrace (blockListen (map Accepted [1]) demo_listener)"
  using Close_keeps_serving [of demo_listener "demo_listener\<lparr>liShutdown := True\<rparr>" "[1]"]
  by (simp add: Listener_Close_def demo_listener_def)

end
