(* ===== verification/Server.thy ===== *)
theory Server
  imports Server_Handle Listener Registry
begin

text \<open>
  The RPC server of \<open>server/server.go\<close> and \<open>server/options.go\<close>: making one from the configuration, the admission of requests to
  the channel the workers read, the callbacks of the listener, and \<open>Run\<close> and \<open>Release\<close> with the registry of
  \<open>Registry\<close> underneath. An operation that calls the registry can end the process or panic, as \<open>reg_out\<close> says.
\<close>

section \<open>The request channel\<close>

text \<open>The length test of \<open>onRecv\<close> (\<open>channels\<close> is the configured size, also the capacity of the channel), and the
  send behind it. Every connection has a goroutine in \<open>onRecv\<close>, so that the two are separate actions of several.\<close>

definition reqCh_full :: "int \<Rightarrow> 'a chan \<Rightarrow> bool" where
  "reqCh_full channels q \<longleftrightarrow> channels - 10 < int (length (chBuf q))"

definition reqCh_send :: "'a chan \<Rightarrow> 'a \<Rightarrow> 'a chan option" where
  "reqCh_send q x = (case chan_send q x of Done q' \<Rightarrow> Some q' | _ \<Rightarrow> None)"

definition reqCh_poll :: "'a chan \<Rightarrow> ('a  \<times>  'a chan) option" where
  "reqCh_poll q = (case chan_recv q of Done (Some x, q') \<Rightarrow> Some (x, q') | _ \<Rightarrow> None)"

definition reqCh_ok :: "int \<Rightarrow> 'a chan \<Rightarrow> bool" where
  "reqCh_ok channels q \<longleftrightarrow> \<not>  chClosed q \<and> chCap q = nat channels"

abbreviation reqCh_run :: "int \<Rightarrow> 'a gate_ev list \<Rightarrow> ('a chan, 'a) gate \<Rightarrow> ('a chan, 'a) gate" where
  "reqCh_run channels \<equiv> gate_run (reqCh_full channels) reqCh_send reqCh_poll"

interpretation reqCh: gated_queue "reqCh_full channels" reqCh_send reqCh_poll chBuf "reqCh_ok channels" "nat (channels - 10)" "nat channels"
  for channels
  by unfold_locales
    (auto simp: reqCh_send_def reqCh_poll_def reqCh_full_def reqCh_ok_def chan_send_def chan_recv_def
      split: if_splits list.splits)

lemma reqCh_send_outcome:
  "reqCh_ok channels q \<Longrightarrow> chan_send q x = (case reqCh_send q x of None \<Rightarrow> Blocks | Some q' \<Rightarrow> Done q')"
  by (simp add: reqCh_send_def reqCh_ok_def chan_send_def)

section \<open>Making a server\<close>

text \<open>What travels through the channel: a packet, and the connection it came from and is answered on.\<close>

record RequetChannel =
  rcConn :: nat
  rcPacket :: bytes

record Server =
  svRegistry :: registry
  svSock :: "Listener option"
  svHandler :: "rpcHandler option"
  svCancelled :: bool
  svReqs :: i64
  svConns :: i64
  svAddrs :: bytes
  svCoroutines :: int
  svChannels :: int
  svReqCh :: "RequetChannel chan"
  svWorkers :: nat

text \<open>The options of \<open>NewServer\<close> and of \<open>Run\<close> share a record.\<close>

record server_options =
  soBind :: bytes
  soPort :: int
  soCtx :: "go_context option"
  soRegistry :: "registry option"

definition Bind :: "bytes \<Rightarrow> server_options \<Rightarrow> server_options" where
  "Bind addr c = c\<lparr>soBind := addr\<rparr>"

definition Port :: "int \<Rightarrow> server_options \<Rightarrow> server_options" where
  "Port port c = c\<lparr>soPort := port\<rparr>"

definition ServerRegistry :: "registry \<Rightarrow> server_options \<Rightarrow> server_options" where
  "ServerRegistry r c = c\<lparr>soRegistry := Some r\<rparr>"

definition SetOption :: "bytes \<Rightarrow> ctx_value \<Rightarrow> server_options \<Rightarrow> server_options" where
  "SetOption k v c =
     (let ctx = (case soCtx c of None \<Rightarrow> [] | Some ctx \<Rightarrow> ctx) in c\<lparr>soCtx := Some ((k, v) # ctx)\<rparr>)"

definition server_options_zero :: server_options where
  "server_options_zero = \<lparr>soBind = [], soPort = 0, soCtx = None, soRegistry = None\<rparr>"

text \<open>The node a server registers as, from the section \<open>server\<close> of the configuration.\<close>

definition server_node :: "float_ops \<Rightarrow> (bytes list \<Rightarrow> conf) \<Rightarrow> nodeopts" where
  "server_node fo get =
     (let s = \<lambda>path. aReader_String fo (get (str ''server'' # path))
      in Node [Version (s [str ''version''] (str ''v0.0.1'')), Group (s [str ''group''] []), Name (s [str ''name''] []),
           Token (s [str ''token''] []), Region (s [str ''location'', str ''region''] []),
           Zone (s [str ''location'', str ''zone''] []), Campus (s [str ''location'', str ''campus''] [])])"

text \<open>\<open>NewServer\<close>: the registry is made a provider (or the process exits), and \<open>make\<close> panics on a negative capacity.\<close>

definition NewServer ::
    "float_ops \<Rightarrow> (bytes list \<Rightarrow> conf) \<Rightarrow> (polaris_cfg \<Rightarrow> bool) \<Rightarrow> (server_options \<Rightarrow> server_options) list \<Rightarrow> Server reg_out" where
  "NewServer fo get ok opts =
     (let opt = fold (\<lambda>f c. f c) opts server_options_zero;
          rgis = (case soRegistry opt of None \<Rightarrow> Registry | Some r \<Rightarrow> r)
      in case registry_Provider fo get ok (server_node fo get) rgis of
           Exits cs \<Rightarrow> Exits cs
         | RegPanics cs \<Rightarrow> RegPanics cs
         | Returns r cs \<Rightarrow>
             (let channels = aReader_Int (get [str ''server'', str ''channels'']) 10000
              in if channels < 0 then RegPanics cs
                 else Returns \<lparr>svRegistry = r, svSock = None, svHandler = None, svCancelled = False, svReqs = 0, svConns = 0,
                        svAddrs = [], svCoroutines = aReader_Int (get [str ''server'', str ''coroutines'']) 32,
                        svChannels = channels, svReqCh = make_chan (nat channels), svWorkers = 0\<rparr> cs))"

definition NewHandler :: "rpcHandler \<Rightarrow> Server \<Rightarrow> Server" where
  "NewHandler h s = s\<lparr>svHandler := Some h\<rparr>"

section \<open>The callbacks of the listener\<close>

definition incConn :: "Server \<Rightarrow> i64 \<times> Server" where
  "incConn s = (svConns s + 1, s\<lparr>svConns := svConns s + 1\<rparr>)"

definition decConn :: "Server \<Rightarrow> i64 \<times> Server" where
  "decConn s = (svConns s - 1, s\<lparr>svConns := svConns s - 1\<rparr>)"

definition getConn :: "Server \<Rightarrow> i64 \<times> Server" where
  "getConn s = (svConns s + 0, s)"

text \<open>\<open>listen\<close>: the port of the listening address, the Ethernet address of the host, and the registration;
  \<open>split\<close> is the outcome of \<open>net.SplitHostPort\<close>. The boolean is the error it returns.\<close>

definition Server_listen ::
    "(bytes \<times> bytes) option \<Rightarrow> net_addr list option \<Rightarrow> bool \<Rightarrow> Server \<Rightarrow> (Server \<times> bool) reg_out" where
  "Server_listen split addrs accepted s =
     (case split of
        None \<Rightarrow> Returns (s, True) []
      | Some (_, port) \<Rightarrow>
          (case GetEthIp addrs of
             None \<Rightarrow> Returns (s, True) []
           | Some ip \<Rightarrow>
               (let addr = ip @ str '':'' @ port; s = s\<lparr>svAddrs := addr\<rparr>
                in case registry_Register accepted addr (str ''rpc'') (svRegistry s) of
                     Returns r cs \<Rightarrow> Returns (s\<lparr>svRegistry := r\<rparr>, False) cs
                   | Exits cs \<Rightarrow> Exits cs
                   | RegPanics cs \<Rightarrow> RegPanics cs)))"

definition Server_connect :: "Server \<Rightarrow> Server \<times> mev list" where
  "Server_connect s =
     (let (conns, s') = incConn s in (s', [MCounterByAdd (str ''server'') (str ''connect'') conns]))"

definition Server_closed :: "Server \<Rightarrow> Server \<times> mev list" where
  "Server_closed s = (snd (decConn s), [MCounter (str ''server'') (str ''close'')])"

text \<open>\<open>onRecv\<close>: the outcome of handing a packet to the server, where no other goroutine acts between the length test and the send. What can
  happen in between is the subject of \<open>reqCh_run\<close>, and of \<open>Workers\<close>, where the two are separate steps.\<close>

datatype recv_out =
    RQueued Server
  | RBlocked
  | RRejected write_out
  | RError perr
  | RPanicked

definition Server_reject :: "handle_env \<Rightarrow> bytes \<Rightarrow> recv_out" where
  "Server_reject e packet =
     (case Request_Unmarshal packet Request_Reset of
        Inl err \<Rightarrow> if err = GoPanic then RPanicked else RError err
      | Inr msg \<Rightarrow>
          (case reply e \<lparr>rsSid = rqSid msg, rsHeaders = rqHeaders msg, rsCode = 500, rsPacket = [], rsUnrecognized = []\<rparr> of
             None \<Rightarrow> RPanicked
           | Some w \<Rightarrow> RRejected w))"

definition Server_onRecv :: "handle_env \<Rightarrow> RequetChannel \<Rightarrow> Server \<Rightarrow> recv_out" where
  "Server_onRecv e req s =
     (if reqCh_full (svChannels s) (svReqCh s) then Server_reject e (rcPacket req)
      else case chan_send (svReqCh s) req of
          Done q \<Rightarrow> RQueued (s\<lparr>svReqCh := q\<rparr>)
        | Blocks \<Rightarrow> RBlocked
        | Panics \<Rightarrow> RPanicked)"

text \<open>One turn of the loop of \<open>goRecv\<close>, on a packet taken from the channel.\<close>

definition goRecv_step :: "handle_env \<Rightarrow> Server \<Rightarrow> (handle_res  \<times>  Server) option" where
  "goRecv_step e s =
     (case reqCh_poll (svReqCh s) of
        None \<Rightarrow> None
      | Some (req, q) \<Rightarrow>
          (let r = Server_handle (svHandler s) e (rcPacket req) (svReqs s)
           in Some (r, s\<lparr>svReqCh := q, svReqs := hrReqs r\<rparr>)))"

section \<open>Running and releasing\<close>

definition server_events :: TransEvent where
  "server_events = \<lparr>evListen = True, evConnect = True, evClosed = True, evOnRecv = True\<rparr>"

text \<open>\<open>fmt\<close> is \<open>buffstreams.FormatAddress\<close> on the bound address and port. The listener calls \<open>listen\<close> once it
  is open, and ignores its error; the workers start only when the listener does.\<close>

definition Server_Run ::
    "(bytes \<Rightarrow> int \<Rightarrow> bytes) \<Rightarrow> (bytes \<Rightarrow> bool) \<Rightarrow> (bytes \<times> bytes) option \<Rightarrow> net_addr list option \<Rightarrow> bool \<Rightarrow>
       (server_options \<Rightarrow> server_options) list \<Rightarrow> Server \<Rightarrow> Server reg_out" where
  "Server_Run fmt can_listen split addrs accepted opts s =
     (let config = fold (\<lambda>f c. f c) opts (server_options_zero\<lparr>soBind := str ''0.0.0.0'', soPort := 0\<rparr>)
      in case NewListener can_listen
            [MaxMessageSize (2 ^ 20), EnableLogging True, Address (fmt (soBind config) (soPort config)),
             Event server_events, Ctx 0] of
           None \<Rightarrow> Returns s []
         | Some btl \<Rightarrow>
             (case (if TListen \<in> set (liTrace btl) then Server_listen split addrs accepted s else Returns (s, False) []) of
                Returns (s, _) cs \<Rightarrow>
                  (case StartAsync btl of
                     (btl, Some err) \<Rightarrow> Returns (s\<lparr>svSock := Some btl\<rparr>) cs
                   | (btl, None) \<Rightarrow> Returns (s\<lparr>svSock := Some btl, svWorkers := nat (svCoroutines s)\<rparr>) cs)
              | Exits cs \<Rightarrow> Exits cs
              | RegPanics cs \<Rightarrow> RegPanics cs))"

text \<open>The ticker's metrics: what is in the channel, and how many goroutines there are.\<close>

definition Server_tick :: "i64 \<Rightarrow> Server \<Rightarrow> mev list" where
  "Server_tick goroutines s =
     (if svCancelled s then []
      else [MCounterByAdd (str ''server'') (str ''channels'') (of_nat (length (chBuf (svReqCh s)))),
            MCounterByAdd (str ''server'') (str ''coroutines'') goroutines])"

text \<open>\<open>Release\<close>: a second one closes a closed channel, and panics.\<close>

definition Server_Release :: "Server \<Rightarrow> Server reg_out" where
  "Server_Release s =
     (case registry_Destroy (svRegistry s) of
        Exits cs \<Rightarrow> Exits cs
      | RegPanics cs \<Rightarrow> RegPanics cs
      | Returns _ cs \<Rightarrow>
          (case svSock s of
             None \<Rightarrow> Returns (s\<lparr>svCancelled := True\<rparr>) cs
           | Some btl \<Rightarrow>
               (case Listener_Close btl of
                  None \<Rightarrow> RegPanics cs
                | Some btl' \<Rightarrow> Returns (s\<lparr>svSock := Some btl', svCancelled := True\<rparr>) cs)))"

section \<open>Lemmas\<close>

lemma NewServer_state:
  assumes "NewServer fo get ok opts = Returns s cs"
  shows "svReqCh s = make_chan (nat (svChannels s))" "0 \<le> svChannels s" "svSock s = None" "\<not> svCancelled s"
    and "rgProvider (svRegistry s)" "rgNode (svRegistry s) = Some (server_node fo get)" "cs = []"
  using assms
  by (auto simp: NewServer_def registry_Provider_def Let_def split: if_splits)

section \<open>Properties\<close>

text \<open>C22. The request channel between the connections and the workers, whatever the interleaving of length tests, sends and takes: what has been taken
  is what was sent, in order, with what is left in the channel; a request is sent at most once, after its test; and the channel never holds
  more than its capacity. The test keeps a reserve of ten: while at most ten connections are between their test and their send at any moment, a send
  never blocks its connection; eleven connections can fill the reserve, and then one of them blocks.\<close>
theorem request_channel_fifo:
  assumes "NewServer fo get ok opts = Returns s cs" "g = reqCh_run (svChannels s) evs (gate_init (svReqCh s))"
  shows "gtSent g = gtTaken g @ chBuf (gtQueue g) \<and> mset (gtSent g) + mset (gtWaiting g) \<subseteq># mset (tested evs) \<and>
    int (length (chBuf (gtQueue g))) \<le> svChannels s \<and>
    (10 \<le> svChannels s \<and> at_most 10 (reqCh_full (svChannels s)) reqCh_send reqCh_poll evs (gate_init (svReqCh s)) \<and> gtWaiting g \<noteq> [] \<longrightarrow>
      (\<exists>q'. chan_send (gtQueue g) x = Done q')) \<and>
    (10 \<le> svChannels s \<longrightarrow>
      (\<exists>evs'. at_most 11 (reqCh_full (svChannels s)) reqCh_send reqCh_poll evs' (gate_init (svReqCh s)) \<and>
        gtWaiting (reqCh_run (svChannels s) evs' (gate_init (svReqCh s))) \<noteq> [] \<and>
        chan_send (gtQueue (reqCh_run (svChannels s) evs' (gate_init (svReqCh s)))) x = Blocks))"
proof -
  note s = NewServer_state [OF assms(1)]
  let ?c = "svChannels s"
  have ok: "reqCh_ok ?c (svReqCh s)" "chBuf (svReqCh s) = []"
    using s(1,2) by (simp_all add: reqCh_ok_def make_chan_def)
  have inv: "reqCh.gate_inv ?c (mset (tested evs')) (reqCh_run ?c evs' (gate_init (svReqCh s)))" for evs'
    by (rule reqCh.run_fifo [OF ok])
  have send: "chan_send (gtQueue (reqCh_run ?c evs' (gate_init (svReqCh s)))) x =
      (case reqCh_send (gtQueue (reqCh_run ?c evs' (gate_init (svReqCh s)))) x of None \<Rightarrow> Blocks | Some q' \<Rightarrow> Done q')" for evs'
    using inv [of evs'] by (intro reqCh_send_outcome [of ?c]) (simp add: reqCh.gate_inv_def)
  have "reqCh_send (gtQueue g) x \<noteq> None"
    if "10 \<le> ?c" "at_most 10 (reqCh_full ?c) reqCh_send reqCh_poll evs (gate_init (svReqCh s))" "gtWaiting g \<noteq> []"
    unfolding assms(2) by (rule reqCh.run_never_blocks [OF ok that(2)]) (use that assms(2) in auto)
  moreover have "\<exists>evs'. at_most 11 (reqCh_full ?c) reqCh_send reqCh_poll evs' (gate_init (svReqCh s)) \<and>
      gtWaiting (reqCh_run ?c evs' (gate_init (svReqCh s))) \<noteq> [] \<and>
      reqCh_send (gtQueue (reqCh_run ?c evs' (gate_init (svReqCh s)))) x = None" if "10 \<le> ?c"
    by (rule reqCh.run_can_block [OF ok]) (use that in \<open>auto simp: reqCh_full_def\<close>)
  ultimately show ?thesis
    using inv [of evs] s(2) send [of evs] send unfolding assms(2) [symmetric] by (fastforce simp: reqCh.gate_inv_def)
qed

text \<open>A configuration that names only the registry's addresses and the number of channels.\<close>

definition demo_conf :: "int \<Rightarrow> bytes list \<Rightarrow> conf" where
  "demo_conf channels path =
     (if path = [str ''polaris'', str ''addrs''] then ConfString (str ''10.0.0.1:8091'')
      else if path = [str ''server'', str ''channels''] then ConfInt channels
      else ConfNil)"

definition demo_server :: "int \<Rightarrow> Server" where
  "demo_server channels =
     \<lparr>svRegistry = Registry\<lparr>rgProvider := True, rgNode := Some (nodeopts_zero\<lparr>noVersion := str ''v0.0.1''\<rparr>), rgLimiter := True\<rparr>,
       svSock = None, svHandler = None, svCancelled = False, svReqs = 0, svConns = 0, svAddrs = [], svCoroutines = 32,
       svChannels = channels, svReqCh = make_chan (nat channels), svWorkers = 0\<rparr>"

lemma demo_NewServer: "0 \<le> channels \<Longrightarrow> NewServer fo (demo_conf channels) (\<lambda>_. True) [] = Returns (demo_server channels) []"
  by (simp add: NewServer_def registry_Provider_def server_node_def Node_def Version_def Group_def Name_def Token_def
      Region_def Zone_def Campus_def nodeopts_zero_def server_options_zero_def demo_conf_def demo_server_def
      aReader_String_def aReader_Int_def Let_def)

definition demo_rc :: "bytes \<Rightarrow> RequetChannel" where
  "demo_rc p = \<lparr>rcConn = 0, rcPacket = p\<rparr>"

theorem request_channel_fifo_witness:
  "gtSent (reqCh_run 10 [Test (demo_rc [1]), Test (demo_rc [2]), Send 1, Take, Send 0] (gate_init (make_chan 10))) = [demo_rc [2], demo_rc [1]] \<and>
   (\<exists>q'. chan_send (gtQueue (reqCh_run 10 [Test (demo_rc [1]), Test (demo_rc [2]), Send 1] (gate_init (make_chan 10)))) (demo_rc [3]) = Done q')"
proof -
  let ?evs = "[Test (demo_rc [1]), Test (demo_rc [2]), Send 1]"
  have "gtWaiting (reqCh_run 10 ?evs (gate_init (make_chan 10))) \<noteq> []" "at_most 10 (reqCh_full 10) reqCh_send reqCh_poll ?evs (gate_init (make_chan 10))"
    by (simp_all add: gate_event_def gate_init_def reqCh_full_def reqCh_send_def make_chan_def chan_send_def)
  with request_channel_fifo [OF demo_NewServer [of 10] refl, of ?evs "demo_rc [3]"]
  have "\<exists>q'. chan_send (gtQueue (reqCh_run 10 ?evs (gate_init (make_chan 10)))) (demo_rc [3]) = Done q'" by (simp add: demo_server_def)
  then show ?thesis
    by (simp add: gate_event_def gate_init_def reqCh_full_def reqCh_send_def reqCh_poll_def make_chan_def chan_send_def chan_recv_def)
qed

text \<open>A server configured with fewer than 10 channels refuses every request, even with an empty channel:
  the length test is true of every channel.\<close>
theorem few_channels_refuse_all:
  assumes "svChannels s < 10"
  shows "Server_onRecv e req s = Server_reject e (rcPacket req)"
  using assms by (simp add: Server_onRecv_def reqCh_full_def)

theorem few_channels_refuse_all_witness:
  "Server_onRecv demo_env \<lparr>rcConn = 0, rcPacket = [1]\<rparr> (demo_server 9) = Server_reject demo_env [1]"
  using few_channels_refuse_all [of "demo_server 9" demo_env "\<lparr>rcConn = 0, rcPacket = [1]\<rparr>"] by (simp add: demo_server_def)

end
