(* ===== verification/Workers.thy ===== *)
theory Workers
  imports Server "HOL-Library.Multiset"
begin

text \<open>
  The goroutines of \<open>server/server.go\<close> around the request channel: those of the connections, in \<open>onRecv\<close>, which test
  the channel's length and then send, and the loops of \<open>goRecv\<close>, run by any number of workers at once, with the counter of requests
  being processed and the context that \<open>Release\<close> cancels. A step is one goroutine's next visible action: passing the test,
  sending, taking a request, counting it, finishing it, or stopping. What a request does in between is \<open>Server_handle\<close>
  of \<open>Server_Handle\<close>.
\<close>

section \<open>State\<close>

text \<open>A worker waits in its \<open>select\<close>; holds a request it has not counted yet; holds one it has counted; or has returned.\<close>

datatype worker = WIdle | WTaken RequetChannel | WCounted RequetChannel | WStopped

text \<open>\<open>wsPassed\<close> are the requests whose connections have passed the length test and not yet sent. The last two components record the
  requests accepted into the channel and those handled, in order.\<close>

record workers_state =
  wsQueue :: "RequetChannel chan"
  wsReqs :: i64
  wsWorkers :: "worker list"
  wsCancelled :: bool
  wsPassed :: "RequetChannel list"
  wsAccepted :: "RequetChannel list"
  wsHandled :: "RequetChannel list"

definition workers_init :: "int \<Rightarrow> nat \<Rightarrow> workers_state" where
  "workers_init channels n =
     \<lparr>wsQueue = make_chan (nat channels), wsReqs = 0, wsWorkers = replicate n WIdle, wsCancelled = False,
       wsPassed = [], wsAccepted = [], wsHandled = []\<rparr>"

text \<open>Whether \<open>handle\<close> gets as far as \<open>incReq\<close>: the request decodes, and is for a method that can be called.\<close>

definition request_counted :: "rpcHandler option \<Rightarrow> bytes \<Rightarrow> bool" where
  "request_counted h packet \<longleftrightarrow>
     (case Request_Unmarshal packet Request_Reset of
        Inl _ \<Rightarrow> False
      | Inr msg \<Rightarrow>
          (case h of
             None \<Rightarrow> False
           | Some calls \<Rightarrow> (case calls (rqRpcId msg) of Some (Some item) \<Rightarrow> riCall item \<noteq> None | _ \<Rightarrow> False)))"

section \<open>Steps\<close>

text \<open>What the rest of the system sees of a step: a connection's packet passes the test, a worker drops a request before it is
  counted or finishes one, or nothing. A connection's goroutine is in \<open>onRecv\<close> for one packet at a time.\<close>

datatype worker_event = EPass RequetChannel | EDrop RequetChannel | EFinish RequetChannel | EInternal

inductive worker_event_step :: "int \<Rightarrow> rpcHandler option \<Rightarrow> worker_event \<Rightarrow> workers_state \<Rightarrow> workers_state \<Rightarrow> bool"
  for channels h where
  pass:
    "\<not> reqCh_full channels (wsQueue s) \<Longrightarrow> rcConn p \<notin> rcConn ` set (wsPassed s) \<Longrightarrow>
     worker_event_step channels h (EPass p) s (s\<lparr>wsPassed := wsPassed s @ [p]\<rparr>)"
| accept:
    "p \<in> set (wsPassed s) \<Longrightarrow> chan_send (wsQueue s) p = Done q \<Longrightarrow>
     worker_event_step channels h EInternal s
       (s\<lparr>wsQueue := q, wsPassed := remove1 p (wsPassed s), wsAccepted := wsAccepted s @ [p]\<rparr>)"
| take_request:
    "i < length (wsWorkers s) \<Longrightarrow> wsWorkers s ! i = WIdle \<Longrightarrow> reqCh_poll (wsQueue s) = Some (p, q) \<Longrightarrow>
     worker_event_step channels h EInternal s (s\<lparr>wsQueue := q, wsWorkers := (wsWorkers s)[i := WTaken p]\<rparr>)"
| count:
    "i < length (wsWorkers s) \<Longrightarrow> wsWorkers s ! i = WTaken p \<Longrightarrow> request_counted h (rcPacket p) \<Longrightarrow>
     worker_event_step channels h EInternal s (s\<lparr>wsReqs := wsReqs s + 1, wsWorkers := (wsWorkers s)[i := WCounted p]\<rparr>)"
| drop_request:
    "i < length (wsWorkers s) \<Longrightarrow> wsWorkers s ! i = WTaken p \<Longrightarrow> \<not> request_counted h (rcPacket p) \<Longrightarrow>
     worker_event_step channels h (EDrop p) s
       (s\<lparr>wsWorkers := (wsWorkers s)[i := WIdle], wsHandled := wsHandled s @ [p]\<rparr>)"
| finish:
    "i < length (wsWorkers s) \<Longrightarrow> wsWorkers s ! i = WCounted p \<Longrightarrow>
     worker_event_step channels h (EFinish p) s
       (s\<lparr>wsReqs := wsReqs s - 1, wsWorkers := (wsWorkers s)[i := WIdle], wsHandled := wsHandled s @ [p]\<rparr>)"
| cancel:
    "worker_event_step channels h EInternal s (s\<lparr>wsCancelled := True\<rparr>)"
| stop:
    "i < length (wsWorkers s) \<Longrightarrow> wsWorkers s ! i = WIdle \<Longrightarrow> wsCancelled s \<Longrightarrow>
     worker_event_step channels h EInternal s (s\<lparr>wsWorkers := (wsWorkers s)[i := WStopped]\<rparr>)"

definition worker_step :: "int \<Rightarrow> rpcHandler option \<Rightarrow> workers_state \<Rightarrow> workers_state \<Rightarrow> bool" where
  "worker_step channels h s s' \<longleftrightarrow> (\<exists>ev. worker_event_step channels h ev s s')"

lemma worker_stepI: "worker_event_step channels h ev s s' \<Longrightarrow> worker_step channels h s s'"
  unfolding worker_step_def by (rule exI)

abbreviation worker_steps :: "int \<Rightarrow> rpcHandler option \<Rightarrow> workers_state \<Rightarrow> workers_state \<Rightarrow> bool" where
  "worker_steps channels h \<equiv> (worker_step channels h)\<^sup>*\<^sup>*"

text \<open>A request that passes the test and finds room is accepted.\<close>

lemma offer_accepts:
  assumes "\<not> reqCh_full channels (wsQueue s)" "reqCh_send (wsQueue s) p = Some q" "wsPassed s = []"
  shows "worker_steps channels h s (s\<lparr>wsQueue := q, wsAccepted := wsAccepted s @ [p]\<rparr>)"
proof -
  let ?s1 = "s\<lparr>wsPassed := [p]\<rparr>"
  have q: "\<not> reqCh_full channels (wsQueue s)" "chan_send (wsQueue s) p = Done q"
    using assms(1,2) by (auto simp: reqCh_send_def split: if_splits go_op.splits)
  have "worker_step channels h s ?s1"
    using pass [of channels s p h] q(1) assms(3) by (auto intro: worker_stepI)
  moreover have "worker_step channels h ?s1 (s\<lparr>wsQueue := q, wsAccepted := wsAccepted s @ [p]\<rparr>)"
    using worker_stepI [OF accept [of p ?s1 q channels h]] q(2) assms(3) by (cases s) simp
  ultimately show ?thesis by (meson rtranclp.rtrancl_into_rtrancl rtranclp.rtrancl_refl)
qed

section \<open>No request is lost or handled twice\<close>

fun holding :: "worker \<Rightarrow> RequetChannel list" where
  "holding (WTaken p) = [p]"
| "holding (WCounted p) = [p]"
| "holding _ = []"

fun counted :: "worker \<Rightarrow> nat" where
  "counted (WCounted p) = 1"
| "counted _ = 0"

definition held :: "worker list \<Rightarrow> RequetChannel multiset" where
  "held ws = mset (concat (map holding ws))"

definition busy :: "worker list \<Rightarrow> nat" where
  "busy ws = (\<Sum>w \<leftarrow> ws. counted w)"

lemma held_update:
  "i < length ws \<Longrightarrow> held (ws[i := w]) + mset (holding (ws ! i)) = held ws + mset (holding w)"
proof (induction ws arbitrary: i)
  case (Cons v ws)
  then show ?case by (cases i) (auto simp: held_def ac_simps)
qed simp

lemma busy_update: "i < length ws \<Longrightarrow> busy (ws[i := w]) + counted (ws ! i) = busy ws + counted w"
proof (induction ws arbitrary: i)
  case (Cons v ws)
  then show ?case by (cases i) (auto simp: busy_def)
qed simp

lemma held_init [simp]: "held (replicate n WIdle) = {#}"
  by (induction n) (simp_all add: held_def)

lemma busy_init [simp]: "busy (replicate n WIdle) = 0"
  by (induction n) (simp_all add: busy_def)

definition workers_inv :: "int \<Rightarrow> nat \<Rightarrow> workers_state \<Rightarrow> bool" where
  "workers_inv channels n s \<longleftrightarrow>
     reqCh_ok channels (wsQueue s) \<and> length (wsWorkers s) = n \<and>
     mset (wsAccepted s) = mset (wsHandled s) + held (wsWorkers s) + mset (chBuf (wsQueue s)) \<and>
     wsReqs s = of_nat (busy (wsWorkers s))"

lemma chan_send_items:
  "chan_send q x = Done q' \<Longrightarrow> chBuf q' = chBuf q @ [x] \<and> (reqCh_ok channels q \<longrightarrow> reqCh_ok channels q')"
  by (auto simp: chan_send_def reqCh_ok_def split: if_splits)

lemma workers_inv_event:
  assumes "worker_event_step channels h ev s s'" "workers_inv channels n s"
  shows "workers_inv channels n s'"
  using assms(1)
proof (cases rule: worker_event_step.cases)
  case (pass p)
  with assms(2) show ?thesis by (simp add: workers_inv_def)
next
  case (accept p q)
  have ok: "reqCh_ok channels (wsQueue s)" using assms(2) by (simp add: workers_inv_def)
  from chan_send_items [OF accept(4), of channels] ok accept assms(2) show ?thesis by (simp add: workers_inv_def)
next
  case (take_request i p q)
  have ok: "reqCh_ok channels (wsQueue s)" using assms(2) by (simp add: workers_inv_def)
  from reqCh.poll_items [OF ok take_request(5)] take_request assms(2)
    held_update [OF take_request(3), of "WTaken p"] busy_update [OF take_request(3), of "WTaken p"]
  show ?thesis by (simp add: workers_inv_def ac_simps)
next
  case (count i p)
  from count assms(2) held_update [OF count(3), of "WCounted p"] busy_update [OF count(3), of "WCounted p"]
  show ?thesis by (simp add: workers_inv_def)
next
  case (drop_request i p)
  from drop_request assms(2) held_update [OF drop_request(3), of WIdle] busy_update [OF drop_request(3), of WIdle]
  show ?thesis by (simp add: workers_inv_def)
next
  case (finish i p)
  have "busy (wsWorkers s) = Suc (busy ((wsWorkers s)[i := WIdle]))"
    using busy_update [OF finish(3), of WIdle] finish(4) by simp
  with finish assms(2) held_update [OF finish(3), of WIdle]
  show ?thesis by (simp add: workers_inv_def)
next
  case cancel
  with assms(2) show ?thesis by (simp add: workers_inv_def)
next
  case (stop i)
  from stop assms(2) held_update [OF stop(3), of WStopped] busy_update [OF stop(3), of WStopped]
  show ?thesis by (simp add: workers_inv_def)
qed

lemma workers_inv_step: "worker_step channels h s s' \<Longrightarrow> workers_inv channels n s \<Longrightarrow> workers_inv channels n s'"
  unfolding worker_step_def using workers_inv_event by blast

lemma workers_inv_init: "workers_inv channels n (workers_init channels n)"
  by (simp add: workers_inv_def workers_init_def reqCh_ok_def make_chan_def)

lemma workers_inv_steps:
  "worker_steps channels h s s' \<Longrightarrow> workers_inv channels n s \<Longrightarrow> workers_inv channels n s'"
  by (induction rule: rtranclp_induct) (auto intro: workers_inv_step)

text \<open>A worker counts only requests that can be counted.\<close>

definition counted_only :: "rpcHandler option \<Rightarrow> workers_state \<Rightarrow> bool" where
  "counted_only h s \<longleftrightarrow> (\<forall>p. WCounted p \<in> set (wsWorkers s) \<longrightarrow> request_counted h (rcPacket p))"

lemma set_update_cases: "x \<in> set (xs[i := y]) \<Longrightarrow> x = y \<or> x \<in> set xs"
  using set_update_subset_insert [of xs i y] by blast

lemma counted_only_event: "worker_event_step channels h ev s s' \<Longrightarrow> counted_only h s \<Longrightarrow> counted_only h s'"
  by (induction rule: worker_event_step.induct) (auto simp: counted_only_def dest!: set_update_cases)

lemma counted_only_init: "counted_only h (workers_init channels n)"
  by (simp add: counted_only_def workers_init_def)

lemma finish_counted: "worker_event_step channels h (EFinish p) s s' \<Longrightarrow> counted_only h s \<Longrightarrow> request_counted h (rcPacket p)"
  by (auto simp: counted_only_def elim!: worker_event_step.cases dest: nth_mem)

text \<open>What is counted is what \<open>Server_handle\<close> counts.\<close>

lemma request_counted_handle:
  "if request_counted h p
   then \<exists>msg (item :: RpcItem) call. Request_Unmarshal p Request_Reset = Inr msg \<and> riCall item = Some call \<and>
     Server_handle h e p reqs = handle_call e (riName item) call msg reqs
   else \<exists>ms out. Server_handle h e p reqs = handle_early ms out reqs"
  by (auto simp: request_counted_def Server_handle_def split: sum.splits option.splits)

section \<open>Progress\<close>

text \<open>What is left to do: three actions for a request in the channel, two for one that is taken, one for one that is counted.\<close>

fun pending :: "worker \<Rightarrow> nat" where
  "pending (WTaken p) = 2"
| "pending (WCounted p) = 1"
| "pending _ = 0"

definition to_do :: "workers_state \<Rightarrow> nat" where
  "to_do s = 3 * length (chBuf (wsQueue s)) + (\<Sum>w \<leftarrow> wsWorkers s. pending w)"

lemma pending_update:
  "i < length ws \<Longrightarrow>
     (\<Sum>w \<leftarrow> ws[i := v]. pending w) + pending (ws ! i) = (\<Sum>w \<leftarrow> ws. pending w) + pending v"
proof (induction ws arbitrary: i)
  case (Cons w ws)
  then show ?case by (cases i) auto
qed simp

definition running :: "workers_state \<Rightarrow> bool" where
  "running s \<longleftrightarrow> wsWorkers s \<noteq> [] \<and> WStopped \<notin> set (wsWorkers s)"

lemma running_update: "running s \<Longrightarrow> w \<noteq> WStopped \<Longrightarrow> wsWorkers s' = (wsWorkers s)[i := w] \<Longrightarrow> running s'"
  using set_update_subset_insert [of "wsWorkers s" i w] by (auto simp: running_def)

lemma progress_worker:
  assumes "worker_step channels h s s'" "running s" "i < length (wsWorkers s)" "w \<noteq> WStopped"
    and "wsWorkers s' = (wsWorkers s)[i := w]" "wsQueue s' = wsQueue s" "wsAccepted s' = wsAccepted s"
    and "pending w < pending (wsWorkers s ! i)"
  shows "\<exists>s'. worker_step channels h s s' \<and> running s' \<and> to_do s' < to_do s \<and> wsAccepted s' = wsAccepted s"
  using assms running_update [OF assms(2,4,5)] pending_update [OF assms(3), of w]
  by (intro exI [of _ s']) (simp add: to_do_def)

lemma worker_progress:
  assumes "running s" "reqCh_ok channels (wsQueue s)" "to_do s \<noteq> 0"
  shows "\<exists>s'. worker_step channels h s s' \<and> running s' \<and> to_do s' < to_do s \<and> wsAccepted s' = wsAccepted s"
proof (cases "\<exists>w \<in> set (wsWorkers s). pending w \<noteq> 0")
  case True
  then obtain i where i: "i < length (wsWorkers s)" "pending (wsWorkers s ! i) \<noteq> 0"
    by (auto simp: in_set_conv_nth)
  show ?thesis
  proof (cases "wsWorkers s ! i")
    case (WTaken p)
    show ?thesis
    proof (cases "request_counted h (rcPacket p)")
      case True
      show ?thesis
        by (rule progress_worker [OF worker_stepI [OF worker_event_step.count [OF i(1) WTaken True]] assms(1) i(1), of "WCounted p"])
          (simp_all add: WTaken)
    next
      case False
      show ?thesis
        by (rule progress_worker [OF worker_stepI [OF worker_event_step.drop_request [OF i(1) WTaken False]] assms(1) i(1), of WIdle])
          (simp_all add: WTaken)
    qed
  next
    case (WCounted p)
    show ?thesis
      by (rule progress_worker [OF worker_stepI [OF worker_event_step.finish [OF i(1) WCounted]] assms(1) i(1), of WIdle])
        (simp_all add: WCounted)
  qed (use i in simp_all)
next
  case False
  with assms(3) have "chBuf (wsQueue s) \<noteq> []" by (auto simp: to_do_def)
  with reqCh.poll_empty [OF assms(2)] obtain p q where pq: "reqCh_poll (wsQueue s) = Some (p, q)" by fastforce
  have i: "0 < length (wsWorkers s)" using assms(1) by (simp add: running_def)
  then have "wsWorkers s ! 0 \<in> set (wsWorkers s)" by (rule nth_mem)
  with False assms(1) have idle: "wsWorkers s ! 0 = WIdle"
    by (cases "wsWorkers s ! 0") (auto simp: running_def)
  let ?s = "s\<lparr>wsQueue := q, wsWorkers := (wsWorkers s)[0 := WTaken p]\<rparr>"
  have "worker_step channels h s ?s" by (rule worker_stepI [OF worker_event_step.take_request [OF i idle pq]])
  moreover have "running ?s" using running_update [OF assms(1), of "WTaken p" ?s 0] by simp
  moreover have "to_do ?s < to_do s"
    using reqCh.poll_items [OF assms(2) pq] pending_update [OF i, of "WTaken p"] idle by (simp add: to_do_def)
  ultimately show ?thesis by (intro exI [of _ ?s]) simp
qed

lemma worker_drain:
  "running s \<Longrightarrow> workers_inv channels n s \<Longrightarrow>
     \<exists>s'. worker_steps channels h s s' \<and> to_do s' = 0 \<and> wsAccepted s' = wsAccepted s \<and> workers_inv channels n s'"
proof (induction "to_do s" arbitrary: s rule: less_induct)
  case less
  show ?case
  proof (cases "to_do s = 0")
    case False
    have "reqCh_ok channels (wsQueue s)" using less.prems(2) by (simp add: workers_inv_def)
    from worker_progress [OF less.prems(1) this False, of h] obtain s1 where
      s1: "worker_step channels h s s1" "running s1" "to_do s1 < to_do s" "wsAccepted s1 = wsAccepted s" by blast
    from less.hyps [OF s1(3,2) workers_inv_step [OF s1(1) less.prems(2)]] s1 show ?thesis
      by (metis converse_rtranclp_into_rtranclp)
  qed (use less.prems in blast)
qed

lemma to_do_0: "to_do s = 0 \<Longrightarrow> chBuf (wsQueue s) = [] \<and> held (wsWorkers s) = {#} \<and> busy (wsWorkers s) = 0"
proof -
  assume "to_do s = 0"
  then have "chBuf (wsQueue s) = []" "\<forall>w \<in> set (wsWorkers s). pending w = 0" by (auto simp: to_do_def)
  moreover have "\<forall>w \<in> set ws. pending w = 0 \<Longrightarrow> held ws = {#} \<and> busy ws = 0" for ws
  proof (induction ws)
    case (Cons w ws)
    then show ?case by (cases w) (simp_all add: held_def busy_def)
  qed (simp add: held_def busy_def)
  ultimately show ?thesis by blast
qed

text \<open>An idle worker and an empty channel serve a request at once.\<close>

lemma idle_serves:
  assumes "chBuf (wsQueue s) = []" "reqCh_ok channels (wsQueue s)" "10 \<le> channels"
    and "i < length (wsWorkers s)" "wsWorkers s ! i = WIdle" "rcConn p \<notin> rcConn ` set (wsPassed s)" "request_counted h (rcPacket p)"
  obtains s1 s2 where "worker_event_step channels h (EPass p) s s1" "(worker_event_step channels h EInternal)\<^sup>*\<^sup>* s1 s2"
    and "worker_event_step channels h (EFinish p) s2 (s\<lparr>wsAccepted := wsAccepted s @ [p], wsHandled := wsHandled s @ [p]\<rparr>)"
proof -
  let ?q = "(wsQueue s)\<lparr>chBuf := [p]\<rparr>"
  define s1 where "s1 = s\<lparr>wsPassed := wsPassed s @ [p]\<rparr>"
  define s2 where "s2 = s\<lparr>wsQueue := ?q, wsAccepted := wsAccepted s @ [p]\<rparr>"
  define s3 where "s3 = s2\<lparr>wsQueue := wsQueue s, wsWorkers := (wsWorkers s)[i := WTaken p]\<rparr>"
  define s4 where "s4 = s3\<lparr>wsReqs := wsReqs s + 1, wsWorkers := (wsWorkers s)[i := WCounted p]\<rparr>"
  note defs = s1_def s2_def s3_def s4_def
  have "p \<notin> set (wsPassed s)" using assms(6) by auto
  then have passed: "remove1 p (wsPassed s @ [p]) = wsPassed s" by (simp add: remove1_append)
  have send: "chan_send (wsQueue s) p = Done ?q"
    using assms(1-3) by (simp add: chan_send_def reqCh_ok_def)
  have poll: "reqCh_poll ?q = Some (p, wsQueue s)"
    using assms(1) by (cases "wsQueue s") (simp add: reqCh_poll_def chan_recv_def)
  have "worker_event_step channels h (EPass p) s s1"
    unfolding s1_def using assms(1,3,6) by (intro pass) (simp_all add: reqCh_full_def)
  moreover have "worker_event_step channels h EInternal s1 s2"
    using accept [of p s1 ?q channels h] send passed by (cases s) (simp add: defs)
  moreover have "worker_event_step channels h EInternal s2 s3"
    using take_request [of i s2 p "wsQueue s" channels h] assms(4,5) poll by (simp add: defs)
  moreover have "worker_event_step channels h EInternal s3 s4"
    using count [of i s3 p h channels] assms(4,7) by (simp add: defs)
  moreover have "worker_event_step channels h (EFinish p) s4 (s\<lparr>wsAccepted := wsAccepted s @ [p], wsHandled := wsHandled s @ [p]\<rparr>)"
    using finish [of i s4 p channels h] assms(4) list_update_id [of "wsWorkers s" i] unfolding assms(5)
    by (cases s) (simp add: defs)
  ultimately show thesis using that by (meson rtranclp.rtrancl_into_rtrancl rtranclp.rtrancl_refl)
qed

lemma stopped_event:
  assumes "worker_event_step channels h ev s s'" "set (wsWorkers s) \<subseteq> {WStopped}"
  shows "wsWorkers s' = wsWorkers s \<and> wsHandled s' = wsHandled s"
proof -
  have "wsWorkers s ! i = WStopped" if "i < length (wsWorkers s)" for i
    using nth_mem [OF that] assms(2) by blast
  with assms(1) show ?thesis by (cases rule: worker_event_step.cases) auto
qed

lemma stopped_step:
  "worker_step channels h s s' \<Longrightarrow> set (wsWorkers s) \<subseteq> {WStopped} \<Longrightarrow>
     wsWorkers s' = wsWorkers s \<and> wsHandled s' = wsHandled s"
  unfolding worker_step_def using stopped_event by blast

lemma stopped_steps:
  "worker_steps channels h s s' \<Longrightarrow> set (wsWorkers s) \<subseteq> {WStopped} \<Longrightarrow>
     wsWorkers s' = wsWorkers s \<and> wsHandled s' = wsHandled s"
proof (induction rule: rtranclp_induct)
  case (step s1 s2)
  then show ?case using stopped_step [OF step.hyps(2)] by simp
qed simp

section \<open>Properties\<close>

text \<open>C8. Whatever the workers and the arriving requests do, no request is lost and none is handled twice: the requests accepted are those
  handled, those a worker holds, and those in the channel. The counter of requests being processed is the number
  of workers that hold a counted request, so it is never negative and never above the number of workers.\<close>
theorem workers_conserve_requests:
  assumes "worker_steps channels h (workers_init channels n) s"
  shows "mset (wsAccepted s) = mset (wsHandled s) + held (wsWorkers s) + mset (chBuf (wsQueue s)) \<and>
    wsReqs s = of_nat (busy (wsWorkers s)) \<and> busy (wsWorkers s) \<le> n"
proof -
  have "workers_inv channels n s"
    using workers_inv_steps [OF assms(1) workers_inv_init] .
  moreover have "busy ws \<le> length ws" for ws
  proof (induction ws)
    case (Cons w ws)
    then show ?case by (cases w) (simp_all add: busy_def)
  qed (simp add: busy_def)
  ultimately show ?thesis by (auto simp: workers_inv_def)
qed

definition demo_worker_state :: workers_state where
  "demo_worker_state = (workers_init 10 2)\<lparr>wsQueue := (make_chan 10)\<lparr>chBuf := [demo_rc [1]]\<rparr>, wsAccepted := [demo_rc [1]]\<rparr>"

lemma demo_offer:
  "\<not> reqCh_full 10 (make_chan 10)" "reqCh_send (make_chan 10) (demo_rc [1]) = Some ((make_chan 10)\<lparr>chBuf := [demo_rc [1]]\<rparr>)"
  by (simp_all add: reqCh_send_def reqCh_full_def make_chan_def chan_send_def)

lemma demo_worker_step: "worker_steps 10 h (workers_init 10 2) demo_worker_state"
  using offer_accepts [of 10 "workers_init 10 2" "demo_rc [1]" "(make_chan 10)\<lparr>chBuf := [demo_rc [1]]\<rparr>" h] demo_offer
  by (simp add: demo_worker_state_def workers_init_def)

theorem workers_conserve_requests_witness: "wsReqs demo_worker_state = 0 \<and> busy (wsWorkers demo_worker_state) \<le> 2"
  using workers_conserve_requests [OF demo_worker_step [of None]]
  by (simp add: demo_worker_state_def workers_init_def)

text \<open>C21. As long as no worker has stopped, and there is one, every request that was accepted can be handled: from any state that can be
  reached the workers can empty the channel, and the counter is 0 then.\<close>
theorem workers_can_drain:
  assumes "worker_steps channels h (workers_init channels n) s" "0 < n" "WStopped \<notin> set (wsWorkers s)"
  shows "\<exists>s'. worker_steps channels h s s' \<and> wsAccepted s' = wsAccepted s \<and> chBuf (wsQueue s') = [] \<and>
    mset (wsHandled s') = mset (wsAccepted s) \<and> wsReqs s' = 0"
proof -
  have inv: "workers_inv channels n s"
    using workers_inv_steps [OF assms(1) workers_inv_init] .
  then have "running s" using assms(2,3) by (auto simp: running_def workers_inv_def)
  from worker_drain [OF this inv, of h] obtain s' where
    s': "worker_steps channels h s s'" "to_do s' = 0" "wsAccepted s' = wsAccepted s" "workers_inv channels n s'" by blast
  with to_do_0 [OF s'(2)] show ?thesis by (auto simp: workers_inv_def)
qed

theorem workers_can_drain_witness:
  "\<exists>s. worker_steps 10 None demo_worker_state s \<and> mset (wsHandled s) = {#demo_rc [1]#}"
  using workers_can_drain [OF demo_worker_step [of None]]
  by (auto simp: demo_worker_state_def workers_init_def)

text \<open>Once the workers have stopped, which the cancelled context makes them do with requests still in the channel, what is in
  the channel is never handled, and the listener goes on accepting requests into it.\<close>
theorem stopped_workers_leave_requests:
  assumes "worker_steps channels h (workers_init channels n) s" "set (wsWorkers s) \<subseteq> {WStopped}"
    and "worker_steps channels h s s'"
  shows "wsHandled s' = wsHandled s \<and> mset (wsAccepted s') = mset (wsHandled s) + mset (chBuf (wsQueue s'))"
proof -
  have "workers_inv channels n s'"
    using workers_inv_steps [OF rtranclp_trans [OF assms(1,3)] workers_inv_init] .
  moreover have "held ws = {#}" if "set ws \<subseteq> {WStopped}" for ws
    using that by (induction ws) (simp_all add: held_def)
  ultimately show ?thesis
    using stopped_steps [OF assms(3,2)] assms(2) by (simp add: workers_inv_def)
qed

theorem stopped_workers_leave_requests_witness:
  "\<exists>s. worker_steps 10 None (workers_init 10 1) s \<and> mset (wsAccepted s) = {#demo_rc [1]#} \<and> wsHandled s = [] \<and>
     mset (wsAccepted s) = mset (chBuf (wsQueue s))"
proof -
  define s1 where "s1 = (workers_init 10 1)\<lparr>wsQueue := (make_chan 10)\<lparr>chBuf := [demo_rc [1]]\<rparr>, wsAccepted := [demo_rc [1]]\<rparr>"
  define s2 where "s2 = s1\<lparr>wsCancelled := True\<rparr>"
  define s3 where "s3 = s2\<lparr>wsWorkers := [WStopped]\<rparr>"
  have "worker_steps 10 None (workers_init 10 1) s1"
    using offer_accepts [of 10 "workers_init 10 1" "demo_rc [1]" "(make_chan 10)\<lparr>chBuf := [demo_rc [1]]\<rparr>" None] demo_offer
    by (simp add: s1_def workers_init_def)
  moreover have "worker_step 10 None s1 s2"
    unfolding s2_def by (rule worker_stepI [OF worker_event_step.cancel])
  moreover have "worker_step 10 None s2 s3"
    using worker_stepI [OF worker_event_step.stop [of 0 s2 10 None]] by (simp add: s3_def s2_def s1_def workers_init_def)
  ultimately have r: "worker_steps 10 None (workers_init 10 1) s3"
    by (meson rtranclp.rtrancl_into_rtrancl)
  have "wsWorkers s3 = [WStopped]" "wsAccepted s3 = [demo_rc [1]]" "wsHandled s3 = []"
    by (simp_all add: s3_def s2_def s1_def workers_init_def)
  with stopped_workers_leave_requests [OF r _ rtranclp.rtrancl_refl] r show ?thesis by auto
qed

end
