(* ===== verification/Rpc.thy ===== *)
theory Rpc
  imports Rpc_Client Workers
begin

text \<open>
  A remote procedure call from end to end: the client builds and frames a request, the server's receiving loop takes the frame off
  the connection, a worker handles the request, the reply crosses back, and the client's call returns. The pieces are those of the
  component theories; this one composes them.
\<close>

section \<open>The request of a call\<close>

abbreviation traceKey :: bytes where
  "traceKey \<equiv> str ''traceId''"

lemma call_request_fields:
  assumes "\<not> coOnlyCall opt"
  shows "rqSid (call_request ctx opt sid rpc packet) = sid" "rqRpcId (call_request ctx opt sid rpc packet) = GenRid rpc"
    and "rqHeaders (call_request ctx opt sid rpc packet) = [traceKey \<mapsto> GetTraceId ctx]"
    and "rqPacket (call_request ctx opt sid rpc packet) = packet" "rqUnrecognized (call_request ctx opt sid rpc packet) = []"
  using assms by (simp_all add: call_request_def Let_def)

text \<open>A message with one header is ranged over in one order only.\<close>

lemma one_order: "range_order [k \<mapsto> v] [k]"
  by (simp add: range_order_def)

text \<open>A callback that never panics, as the client's, which recovers, and the server's, unless a reply does.\<close>

definition quiet :: "rcb \<Rightarrow> bool" where
  "quiet rcb \<longleftrightarrow> (\<forall>out q. rcb out q = RcbNil \<or> rcb out q = RcbError)"

text \<open>The loop takes the bytes \<open>f\<close>, cut in any way, for the one packet \<open>p\<close>.\<close>

definition received_as :: "bytes \<Rightarrow> bytes \<Rightarrow> bool" where
  "received_as f p \<longleftrightarrow>
     (\<forall>cs rcb. concat cs = f \<longrightarrow> quiet rcb \<longrightarrow>
        rrDelivered (Socket_onRecv DefaultHeaderSize DefaultMaxMessageSize rcb True (map Chunk cs)) = [p])"

lemma packet_crosses:
  assumes "sendable DefaultMaxMessageSize p"
  shows "\<exists>f. frame p = Some f \<and> Response_Write True p ws = Some (write_loop f 0 ws []) \<and> received_as f p"
proof -
  obtain f where f: "frame p = Some f" using sendable_frame [OF assms] by blast
  have "p \<noteq> []" using assms by (simp add: sendable_def)
  then have "Response_Write True p ws = Some (write_loop f 0 ws [])"
    using f by (auto simp: frame_def Response_Write_def)
  moreover have "received_as f p"
    unfolding received_as_def
  proof (intro allI impI)
    fix cs rcb
    assume "concat cs = f" "quiet rcb"
    then show "rrDelivered (Socket_onRecv DefaultHeaderSize DefaultMaxMessageSize rcb True (map Chunk cs)) = [p]"
      using Socket_onRecv_frames [of cs "[p]" DefaultMaxMessageSize rcb True] f assms
      by (simp add: frames_def quiet_def DefaultHeaderSize_def)
  qed
  ultimately show ?thesis using f by blast
qed

section \<open>Sizes\<close>

lemma field_size_bounds:
  "size_varint_field v \<le> 11" "size_bytes_field l \<le> 11 + l" "size_map_entry k t \<le> 33 + length k + length t"
  using sovPacket_bounds [of v] sovPacket_bounds [of "of_nat l"] sovPacket_bounds [of "of_nat (length k)"]
    sovPacket_bounds [of "of_nat (length t)"]
    sovPacket_bounds [of "of_nat (1 + length k + sovPacket (of_nat (length k)) + 1 + length t + sovPacket (of_nat (length t)))"]
  by (simp_all add: size_varint_field_def size_bytes_field_def size_map_entry_def Let_def)

lemma one_header_size: "size_map [k \<mapsto> t] [k] \<le> 33 + length k + length t"
  using field_size_bounds(3) [of k t] by (simp add: map_get_def)

lemma optional_le: "n \<le> m \<Longrightarrow> (if b then n else 0) \<le> (m :: nat)"
  by simp

text \<open>Besides the trace id and the packet, a request and a response of a call have at most 80 bytes.\<close>

lemma call_sizes:
  assumes "\<not> coOnlyCall opt" "req = call_request ctx opt sid rpc packet"
  shows "Request_Size (Some req) [traceKey] \<le> 80 + length (GetTraceId ctx) + length packet"
    and "Response_Size (Some (reply_msg req code ret)) [traceKey] \<le> 80 + length (GetTraceId ctx) + length ret"
proof -
  note fields = call_request_fields [OF assms(1), of ctx sid rpc packet, folded assms(2)]
  have map: "size_map (rqHeaders req) [traceKey] \<le> 40 + length (GetTraceId ctx)"
    using one_header_size [of traceKey "GetTraceId ctx"] by (simp only: fields(3)) simp
  note opt = optional_le [OF field_size_bounds(1)] optional_le [OF field_size_bounds(2)]
  show "Request_Size (Some req) [traceKey] \<le> 80 + length (GetTraceId ctx) + length packet"
    using map opt(1) [of "rqSid req \<noteq> 0" "rqSid req"] opt(1) [of "rqRpcId req \<noteq> 0" "rqRpcId req"]
      opt(2) [of "0 < length packet" "length packet"]
    by (simp only: Request_Size_def option.case fields(4,5)) simp
  show "Response_Size (Some (reply_msg req code ret)) [traceKey] \<le> 80 + length (GetTraceId ctx) + length ret"
    using map opt(1) [of "rqSid req \<noteq> 0" "rqSid req"] opt(1) [of "code \<noteq> 0" "scast code"]
      opt(2) [of "0 < length ret" "length ret"]
    by (simp only: Response_Size_def option.case reply_msg_def Response.simps) simp
qed

section \<open>The call\<close>

text \<open>The request is marshalled and fits in a frame; its bytes decode to it.\<close>

lemma call_marshals:
  assumes "\<not> coOnlyCall opt" "sid \<noteq> 0" "req = call_request ctx opt sid rpc packet"
    and "Request_Size (Some req) [traceKey] \<le> DefaultMaxMessageSize"
  obtains bs where "Request_Marshal req [traceKey] [traceKey] = Some bs" "Request_Unmarshal bs Request_Reset = Inr req"
    and "sendable DefaultMaxMessageSize bs"
proof -
  note fields = call_request_fields [OF assms(1), folded assms(3)]
  let ?bs = "enc_Request req [traceKey]"
  have order: "range_order (rqHeaders req) [traceKey]" by (simp add: assms(3) fields(3) one_order)
  have len: "length ?bs \<le> 2 ^ 20"
    using assms(4) by (simp only: length_enc_Request DefaultMaxMessageSize_def)
  have ne: "?bs \<noteq> []"
    using assms(2,3) fields(1) by (simp add: enc_Request_def enc_varint_field_def)
  show thesis
  proof (rule that)
    show "Request_Marshal req [traceKey] [traceKey] = Some ?bs" by (rule Request_Marshal_enc [OF order order])
    show "Request_Unmarshal ?bs Request_Reset = Inr req"
      using len fields(5) by (intro Request_Unmarshal_enc order) (simp_all add: assms(3) go_slice_def)
    show "sendable DefaultMaxMessageSize ?bs"
      using len ne by (simp add: sendable_def DefaultMaxMessageSize_def)
  qed
qed

text \<open>The reply to it fits in a frame, and the client does not drop it.\<close>

lemma call_reply:
  assumes "\<not> coOnlyCall opt" "sid \<noteq> 0" "req = call_request ctx opt sid rpc packet" "heKs e = [traceKey]" "heKs' e = [traceKey]"
    and "Response_Size (Some (reply_msg req code ret)) [traceKey] \<le> DefaultMaxMessageSize"
  shows "can_reply e (reply_msg req code ret)" "\<not> recv_dropped (reply_msg req code ret)" "rsSid (reply_msg req code ret) = sid"
proof -
  note fields = call_request_fields [OF assms(1), folded assms(3)]
  let ?res = "reply_msg req code ret"
  have f: "rsSid ?res = sid" "rsHeaders ?res = [traceKey \<mapsto> GetTraceId ctx]"
    using fields(1,3) by (simp_all add: reply_msg_def assms(3))
  have "enc_Response ?res [traceKey] \<noteq> []"
    using f(1) assms(2) by (simp add: enc_Response_def enc_varint_field_def)
  then have "0 < Response_Size (Some ?res) [traceKey]"
    using length_enc_Response [of ?res "[traceKey]"] by (metis length_greater_0_conv)
  then show "can_reply e ?res"
    using assms(4-6) f(2) by (simp add: can_reply_def one_order DefaultMaxMessageSize_def)
  show "\<not> recv_dropped ?res" using f assms(2) by (simp add: recv_dropped_def)
  show "rsSid ?res = sid" by (rule f(1))
qed

text \<open>The bytes of a reply the client's loop accepts.\<close>

lemma reply_sendable:
  assumes "can_reply e res" "rsUnrecognized res = []" "Response_Size (Some res) (heKs e) \<le> DefaultMaxMessageSize"
  obtains bs where "Response_Unmarshal bs Response_Reset = Inr res" "sendable DefaultMaxMessageSize bs"
    and "\<And>f. frame bs = Some f \<Longrightarrow> reply e res = Some (write_loop f 0 (heWrites e) [])"
proof -
  note cr = assms(1) [unfolded can_reply_def]
  let ?bs = "enc_Response res (heKs' e)"
  have m: "Response_Marshal res (heKs e) (heKs' e) = Some ?bs"
    using cr by (intro Response_Marshal_enc) auto
  have len: "length ?bs \<le> 2 ^ 20" "?bs \<noteq> []"
    using cr assms(3) Response_Size_order [of res "heKs e" "heKs' e"] length_enc_Response [of res "heKs' e"]
    by (auto simp: DefaultMaxMessageSize_def)
  show thesis
  proof (rule that)
    show "Response_Unmarshal ?bs Response_Reset = Inr res"
      using cr len assms(2) by (intro Response_Unmarshal_enc) (auto simp: go_slice_def)
    show "sendable DefaultMaxMessageSize ?bs" using len by (simp add: sendable_def DefaultMaxMessageSize_def)
    show "frame ?bs = Some f \<Longrightarrow> reply e res = Some (write_loop f 0 (heWrites e) [])" for f
      using m len(2) by (auto simp: reply_def Response_Write_def frame_def)
  qed
qed

text \<open>What the server answers to a request: the code and the packet. A method that panics is answered by nothing.\<close>

definition method_answer :: "handle_env \<Rightarrow> RpcItem \<Rightarrow> (go_context \<Rightarrow> bytes \<Rightarrow> call_res) \<Rightarrow> go_context \<Rightarrow> bytes \<Rightarrow> (i32 \<times> bytes) option" where
  "method_answer e item call ctx packet =
     (if heLimited e (riName item) then Some (405, [])
      else case call ctx packet of CallOk ret \<Rightarrow> Some (0, ret) | CallErr \<Rightarrow> Some (505, []) | CallPanic _ \<Rightarrow> None)"

lemma handle_answers_with:
  assumes "Request_Unmarshal bs Request_Reset = Inr req" "calls (rqRpcId req) = Some (Some item)" "riCall item = Some call"
    and "method_answer e item call [(traceKey, CtxString (map_get (rqHeaders req) traceKey))] (rqPacket req) = Some (code, ret)"
    and "rqHeaders req (str ''onlyCall'') = None" "rqSid req \<noteq> 0" "reply e (reply_msg req code ret) = Some w"
  shows "hrReplies (Server_handle (Some calls) e bs reqs) = [w]"
  using assms(4-7) unfolding handle_registered [of bs req calls item call, OF assms(1-3)]
  by (auto simp: method_answer_def handle_simps reply_msg_def split: if_splits call_res.splits)

lemma no_onlyCall_header: "[traceKey \<mapsto> v] (str ''onlyCall'') = None"
  by simp

text \<open>The way of a call's bytes: the request's packet and frame, and those of the reply.\<close>

lemma call_transported:
  assumes "req = call_request ctx opt sid rpc packet" "\<not> coOnlyCall opt" "sid \<noteq> 0"
    and "calls (GenRid rpc) = Some (Some item)" "riCall item = Some call"
    and "method_answer e item call [(traceKey, CtxString (GetTraceId ctx))] packet = Some (code, ret)"
    and "heKs e = [traceKey]" "heKs' e = [traceKey]"
    and "80 + length (GetTraceId ctx) + length packet \<le> DefaultMaxMessageSize"
    and "80 + length (GetTraceId ctx) + length ret \<le> DefaultMaxMessageSize"
  obtains bs bs' f' where "Request_Marshal req [traceKey] [traceKey] = Some bs" "Request_Unmarshal bs Request_Reset = Inr req"
    and "sendable DefaultMaxMessageSize bs" "sendable DefaultMaxMessageSize bs'" "frame bs' = Some f'"
    and "\<And>reqs. hrReplies (Server_handle (Some calls) e bs reqs) = [write_loop f' 0 (heWrites e) []]"
    and "Response_Unmarshal bs' Response_Reset = Inr (reply_msg req code ret)"
    and "\<not> recv_dropped (reply_msg req code ret)" "rsSid (reply_msg req code ret) = sid"
proof -
  note fields = call_request_fields [OF assms(2), of ctx sid rpc packet, folded assms(1)]
  let ?res = "reply_msg req code ret"
  obtain bs where bs: "Request_Marshal req [traceKey] [traceKey] = Some bs" "Request_Unmarshal bs Request_Reset = Inr req"
    "sendable DefaultMaxMessageSize bs"
    using call_marshals [OF assms(2,3,1) order_trans [OF call_sizes(1) [OF assms(2,1)] assms(9)]] .
  note res_size = order_trans [OF call_sizes(2) [OF assms(2,1)] assms(10)]
  note res = call_reply [OF assms(2,3,1,7,8) res_size]
  obtain bs' where bs': "Response_Unmarshal bs' Response_Reset = Inr ?res" "sendable DefaultMaxMessageSize bs'"
    "\<And>f. frame bs' = Some f \<Longrightarrow> reply e ?res = Some (write_loop f 0 (heWrites e) [])"
    using reply_sendable [OF res(1)] assms(7) res_size by auto
  obtain f' where f': "frame bs' = Some f'" using packet_crosses [OF bs'(2)] by blast
  have "hrReplies (Server_handle (Some calls) e bs reqs) = [write_loop f' 0 (heWrites e) []]" for reqs
  proof (rule handle_answers_with [where call = call and item = item])
    show "rqHeaders req (str ''onlyCall'') = None" using fields(3) no_onlyCall_header by simp
  qed (use bs assms(3-6) fields bs'(3) [OF f'] in \<open>simp_all add: map_get_def\<close>)
  with bs bs'(1,2) f' res(2,3) that show thesis by blast
qed

text \<open>The parts of a call, one after the other.\<close>

lemma call_crosses:
  assumes "req = call_request ctx opt sid rpc packet" "\<not> coOnlyCall opt"
    and "lock_free s" "sid = next_Sid (csCounter s)" "sid \<noteq> 0"
    and "calls (GenRid rpc) = Some (Some item)" "riCall item = Some call"
    and "method_answer e item call [(traceKey, CtxString (GetTraceId ctx))] packet = Some (code, ret)"
    and "heKs e = [traceKey]" "heKs' e = [traceKey]"
    and "80 + length (GetTraceId ctx) + length packet \<le> DefaultMaxMessageSize"
    and "80 + length (GetTraceId ctx) + length ret \<le> DefaultMaxMessageSize"
  shows "\<exists>bs f bs' f' res s'.
     Request_Marshal req [traceKey] [traceKey] = Some bs \<and> frame bs = Some f \<and>
     Response_Write True bs ws = Some (write_loop f 0 ws []) \<and>
     received_as f bs \<and>
     frame bs' = Some f' \<and>
     hrReplies (Server_handle (Some calls) e bs reqs) = [write_loop f' 0 (heWrites e) []] \<and>
     received_as f' bs' \<and>
     Response_Unmarshal bs' Response_Reset = Inr res \<and>
     client_steps s s' \<and> csCalls s' sid = Some (CReturned (if code = 0 then CrPacket ret else CrError code)) \<and> csItems s' sid = None \<and> lock_free s' \<and>
     csRecvs s' = csRecvs s @ [(res, RDone)]"
proof -
  let ?res = "reply_msg req code ret"
  obtain bs bs' f' where t: "Request_Marshal req [traceKey] [traceKey] = Some bs" "sendable DefaultMaxMessageSize bs"
    "sendable DefaultMaxMessageSize bs'" "frame bs' = Some f'"
    "hrReplies (Server_handle (Some calls) e bs reqs) = [write_loop f' 0 (heWrites e) []]"
    "Response_Unmarshal bs' Response_Reset = Inr ?res" "\<not> recv_dropped ?res" "rsSid ?res = sid"
    using call_transported [where call = call and calls = calls, OF assms(1,2,5-12)] by metis
  obtain f where f: "frame bs = Some f" "Response_Write True bs ws = Some (write_loop f 0 ws [])" "received_as f bs"
    using packet_crosses [OF t(2), of ws] by blast
  have "received_as f' bs'" using packet_crosses [OF t(3)] t(4) by auto
  moreover have "rsSid ?res = next_Sid (csCounter s)" using t(8) assms(4) by simp
  from call_completes [OF assms(3) this t(7)] obtain s' where s': "client_steps s s'"
    "csCalls s' (rsSid ?res) = Some (CReturned (if rsCode ?res = 0 then CrPacket (rsPacket ?res) else CrError (rsCode ?res)))"
    "csItems s' (rsSid ?res) = None" "lock_free s'" "csRecvs s' = csRecvs s @ [(?res, RDone)]" by blast
  have "csCalls s' sid = Some (CReturned (if code = 0 then CrPacket ret else CrError code))" "csItems s' sid = None"
    using s'(2,3) unfolding t(8) by (simp_all add: reply_msg_def)
  ultimately show ?thesis using t(1,4-6) f s'(1,4,5) by blast
qed

section \<open>Properties\<close>

text \<open>C5. A call of a registered method returns what the method returns. Client and server share nothing but two byte streams: for
  every trace id, packet and method, the client's request, in whatever chunks its frame arrives, reaches the server's loop as one packet; handling it
  writes one frame; and that frame, in whatever chunks it arrives, is one packet for the client, which decodes to a response
  with which the call can return the method's packet, its entry gone and the lock free.\<close>
theorem rpc_call_returns:
  assumes "req = call_request ctx opt sid rpc packet" "\<not> coOnlyCall opt"
    and "lock_free s" "sid = next_Sid (csCounter s)" "sid \<noteq> 0"
    and "calls (GenRid rpc) = Some (Some item)" "riCall item = Some call" "\<not> heLimited e (riName item)"
    and "call [(traceKey, CtxString (GetTraceId ctx))] packet = CallOk ret"
    and "heKs e = [traceKey]" "heKs' e = [traceKey]"
    and "80 + length (GetTraceId ctx) + length packet \<le> DefaultMaxMessageSize"
    and "80 + length (GetTraceId ctx) + length ret \<le> DefaultMaxMessageSize"
  shows "\<exists>bs f bs' f' res s'.
     Request_Marshal req [traceKey] [traceKey] = Some bs \<and> frame bs = Some f \<and>
     Response_Write True bs ws = Some (write_loop f 0 ws []) \<and>
     received_as f bs \<and>
     frame bs' = Some f' \<and>
     hrReplies (Server_handle (Some calls) e bs reqs) = [write_loop f' 0 (heWrites e) []] \<and>
     received_as f' bs' \<and>
     Response_Unmarshal bs' Response_Reset = Inr res \<and>
     client_steps s s' \<and> csCalls s' sid = Some (CReturned (CrPacket ret)) \<and> csItems s' sid = None \<and> lock_free s' \<and>
     csRecvs s' = csRecvs s @ [(res, RDone)]"
proof -
  have "method_answer e item call [(traceKey, CtxString (GetTraceId ctx))] packet = Some (0, ret)"
    using assms(8,9) by (simp add: method_answer_def)
  from call_crosses [where calls = calls and call = call, OF assms(1-7) this assms(10-13), of ws reqs] show ?thesis by simp
qed

definition demo_method :: RpcItem where
  "demo_method = \<lparr>riCall = Some (\<lambda>_ p. CallOk (rev p)), riName = str ''S.Reverse''\<rparr>"

definition demo_rpc_env :: handle_env where
  "demo_rpc_env = \<lparr>heLimited = (\<lambda>_. False), heKs = [traceKey], heKs' = [traceKey], heWrites = [Wrote 5, Wrote 100]\<rparr>"

definition demo_ctx :: go_context where
  "demo_ctx = SetTraceId [] (str ''t1'')"

theorem rpc_call_returns_witness:
  "\<exists>bs f s. Request_Marshal (call_request demo_ctx (initOpt []) 1 (str ''S.Reverse'') [1, 2, 3]) [traceKey] [traceKey] = Some bs \<and>
     frame bs = Some f \<and> received_as f bs \<and> client_steps client_init s \<and> csCalls s 1 = Some (CReturned (CrPacket [3, 2, 1]))"
proof -
  have "\<not> coOnlyCall (initOpt [])" by (simp add: initOpt_def client_options_zero_def)
  moreover have "GetTraceId demo_ctx = str ''t1''" by (simp add: demo_ctx_def GetTraceId_def SetTraceId_def)
  ultimately show ?thesis
    using rpc_call_returns [OF refl, of "initOpt []" client_init 1 "[GenRid (str ''S.Reverse'') \<mapsto> Some demo_method]" "str ''S.Reverse''"
        demo_method "\<lambda>_ p. CallOk (rev p)" demo_rpc_env demo_ctx "[1, 2, 3]" "[3, 2, 1]" "[]" 0] client_init_free
    by (auto simp: demo_method_def demo_rpc_env_def client_init_def next_Sid_def DefaultMaxMessageSize_def)
qed

text \<open>C7. A call that the server's limiter refuses, or whose method fails, comes back as an error: the reply carries code 405 or 505 and
  no packet, it crosses as any other, and the client's call returns the error with that code, its entry gone and the lock free.\<close>
theorem rpc_call_fails:
  assumes "req = call_request ctx opt sid rpc packet" "\<not> coOnlyCall opt"
    and "lock_free s" "sid = next_Sid (csCounter s)" "sid \<noteq> 0"
    and "calls (GenRid rpc) = Some (Some item)" "riCall item = Some call"
    and "heLimited e (riName item) \<and> code = 405 \<or>
      \<not> heLimited e (riName item) \<and> call [(traceKey, CtxString (GetTraceId ctx))] packet = CallErr \<and> code = 505"
    and "heKs e = [traceKey]" "heKs' e = [traceKey]"
    and "80 + length (GetTraceId ctx) + length packet \<le> DefaultMaxMessageSize"
  shows "\<exists>bs f bs' f' res s'.
     Request_Marshal req [traceKey] [traceKey] = Some bs \<and> frame bs = Some f \<and> received_as f bs \<and>
     frame bs' = Some f' \<and>
     hrReplies (Server_handle (Some calls) e bs reqs) = [write_loop f' 0 (heWrites e) []] \<and>
     received_as f' bs' \<and> Response_Unmarshal bs' Response_Reset = Inr res \<and>
     client_steps s s' \<and> csCalls s' sid = Some (CReturned (CrError code)) \<and> csItems s' sid = None \<and> lock_free s' \<and>
     csRecvs s' = csRecvs s @ [(res, RDone)]"
proof -
  have answer: "method_answer e item call [(traceKey, CtxString (GetTraceId ctx))] packet = Some (code, [])" and "code \<noteq> 0"
    using assms(8) by (auto simp: method_answer_def)
  have "80 + length (GetTraceId ctx) + length ([] :: bytes) \<le> DefaultMaxMessageSize" using assms(11) by simp
  from call_crosses [where calls = calls and call = call, OF assms(1-7) answer assms(9-11) this, of "[]" reqs] \<open>code \<noteq> 0\<close>
  show ?thesis by (simp, blast)
qed

theorem rpc_call_fails_witness:
  "\<exists>s. client_steps client_init s \<and> csCalls s 1 = Some (CReturned (CrError 405))"
proof -
  have "\<not> coOnlyCall (initOpt [])" by (simp add: initOpt_def client_options_zero_def)
  moreover have "GetTraceId demo_ctx = str ''t1''" by (simp add: demo_ctx_def GetTraceId_def SetTraceId_def)
  ultimately show ?thesis
    using rpc_call_fails [OF refl, of "initOpt []" client_init 1 "[GenRid (str ''S.Reverse'') \<mapsto> Some demo_method]" "str ''S.Reverse''"
        demo_method "\<lambda>_ p. CallOk (rev p)" "demo_rpc_env\<lparr>heLimited := \<lambda>_. True\<rparr>" 405 demo_ctx "[1, 2, 3]" 0] client_init_free
    by (auto simp: demo_method_def demo_rpc_env_def client_init_def next_Sid_def DefaultMaxMessageSize_def)
qed

end
