(* ===== verification/System.thy ===== *)
theory System
  imports Rpc
begin

text \<open>
  The whole system: any number of client processes and any number of servers behind one name, over connections on which packets travel in
  order in each direction. Every client takes the steps of \<open>Client\<close>, every server those of \<open>Workers\<close>; what this theory adds is the traffic between
  them: a client spreads its calls over its connections as it likes, so that the calls of one table \<open>callItem\<close> are answered by several servers.
  Calls are registered and then put marshalled requests on a connection; a packet that reaches its server passes the length test of \<open>onRecv\<close> or is answered with
  code 500; a worker that finishes a request puts what \<open>Server_handle\<close> wrote on the request's connection; a response that reaches the client
  is decoded and handed to the receiving side of \<open>Client\<close>. Connections break, writes fail, a server's process can end.
\<close>

section \<open>The traffic\<close>

text \<open>The packet of a reply that was written out: what follows the header. A write that failed or never ended leaves none.\<close>

definition written :: "write_out list \<Rightarrow> bytes option" where
  "written ws = (case ws of [WDone out n False] \<Rightarrow> Some (drop 8 out) | _ \<Rightarrow> None)"

definition on_conn :: "nat \<Rightarrow> bytes option \<Rightarrow> RequetChannel list" where
  "on_conn c bs = (case bs of None \<Rightarrow> [] | Some bs \<Rightarrow> [\<lparr>rcConn = c, rcPacket = bs\<rparr>])"

text \<open>The orders in which the reply to a packet ranges over the request's headers are orders of them.\<close>

definition orders_of :: "handle_env \<Rightarrow> bytes \<Rightarrow> bool" where
  "orders_of e packet \<longleftrightarrow>
     (case Request_Unmarshal packet Request_Reset of
        Inl _ \<Rightarrow> True
      | Inr msg \<Rightarrow> range_order (rqHeaders msg) (heKs e) \<and> range_order (rqHeaders msg) (heKs' e))"

text \<open>What a table registers: the names, and which of them can be called. What the methods return can change from run to run.\<close>

definition registered :: "rpcHandler option \<Rightarrow> (u64 \<rightharpoonup> (bytes \<times> bool) option) option" where
  "registered h = map_option (\<lambda>calls rid. map_option (map_option (\<lambda>i. (riName i, riCall i \<noteq> None))) (calls rid)) h"

text \<open>What the methods can do: the method of a name, run with a context and a packet, can end with a result. The methods of a table behave so if all
  their results are allowed; \<open>methods_of h\<close> allows what the functions of the table \<open>h\<close> return. During a run of the server, each execution of
  a method is by a \<^emph>\<open>version\<close> of the table: the same names, and functions that behave.\<close>

type_synonym behaviour = "bytes \<Rightarrow> go_context \<Rightarrow> bytes \<Rightarrow> call_res \<Rightarrow> bool"

definition behaves :: "behaviour \<Rightarrow> rpcHandler option \<Rightarrow> bool" where
  "behaves M h \<longleftrightarrow>
     (\<forall>calls rid item call ctx packet. h = Some calls \<longrightarrow> calls rid = Some (Some item) \<longrightarrow> riCall item = Some call \<longrightarrow>
        M (riName item) ctx packet (call ctx packet))"

definition methods_of :: "rpcHandler option \<Rightarrow> behaviour" where
  "methods_of h name ctx packet res \<longleftrightarrow>
     (\<exists>calls rid item call. h = Some calls \<and> calls rid = Some (Some item) \<and> riName item = name \<and> riCall item = Some call \<and>
        res = call ctx packet)"

lemma behaves_methods_of: "behaves (methods_of h) h"
  unfolding behaves_def methods_of_def by blast

definition version :: "behaviour \<Rightarrow> rpcHandler option \<Rightarrow> rpcHandler option \<Rightarrow> bool" where
  "version M h h' \<longleftrightarrow> registered h' = registered h \<and> behaves M h'"

text \<open>The answer to a request that is counted: the code and the packet, or none when the method panics.\<close>

definition run_answer :: "rpcHandler option \<Rightarrow> handle_env \<Rightarrow> Request \<Rightarrow> (i32 \<times> bytes) option" where
  "run_answer h e msg =
     (case h of
        None \<Rightarrow> None
      | Some calls \<Rightarrow>
          (case calls (rqRpcId msg) of
             Some (Some item) \<Rightarrow>
               (case riCall item of
                  Some call \<Rightarrow> method_answer e item call [(traceKey, CtxString (map_get (rqHeaders msg) traceKey))] (rqPacket msg)
                | None \<Rightarrow> None)
           | _ \<Rightarrow> None))"

definition rc_request :: "RequetChannel \<Rightarrow> Request" where
  "rc_request p = (case Request_Unmarshal (rcPacket p) Request_Reset of Inl _ \<Rightarrow> Request_Reset | Inr msg \<Rightarrow> msg)"

section \<open>State\<close>

text \<open>What a caller passes to \<open>call\<close>.\<close>

record call_args =
  caCtx :: go_context
  caOpt :: client_options
  caRpc :: bytes
  caPacket :: bytes

definition asks :: "call_args \<Rightarrow> i64 \<Rightarrow> Request" where
  "asks a sid = call_request (caCtx a) (caOpt a) sid (caRpc a) (caPacket a)"

text \<open>
  \<open>syAsked\<close> is what the caller passed to each call, by client and sid, and \<open>syPending\<close> the calls that have their sid and whose \<open>Write\<close> has not
  returned. The last four components are history: the packets sent, those refused, the runs of methods with their answers (newest first), and how
  many calls each client has begun.
\<close>

record system_state =
  syClients :: "nat \<Rightarrow> client_state"
  syTo :: "RequetChannel list"
  syBack :: "RequetChannel list"
  syDown :: "nat set"
  syServers :: "nat \<Rightarrow> workers_state"
  syCrashed :: "nat set"
  syAsked :: "nat \<times> i64 \<rightharpoonup> call_args"
  syPending :: "(nat \<times> i64) set"
  sySent :: "RequetChannel list"
  syRejected :: "RequetChannel list"
  syRuns :: "(RequetChannel \<times> (i32 \<times> bytes) option) list"
  syStarted :: "nat \<Rightarrow> nat"

definition system_init :: "int \<Rightarrow> nat \<Rightarrow> system_state" where
  "system_init channels n =
     \<lparr>syClients = \<lambda>_. client_init, syTo = [], syBack = [], syDown = {}, syServers = \<lambda>_. workers_init channels n, syCrashed = {},
      syAsked = Map.empty, syPending = {}, sySent = [], syRejected = [], syRuns = [], syStarted = \<lambda>_. 0\<rparr>"

section \<open>Steps\<close>

text \<open>\<open>owner c\<close> is the client process that opened connection \<open>c\<close>, \<open>serves c\<close> the server it leads to; \<open>h\<close> is the method table all servers register, \<open>M\<close> what
  the methods can do. The first packet of a connection is the one that reaches the other side: TCP keeps the order, and \<open>Connection\<close> shows
  what becomes of the frames in it. A packet above the default maximum is never handed on; its connection can only break.\<close>

definition first_on :: "RequetChannel list \<Rightarrow> RequetChannel \<Rightarrow> RequetChannel list \<Rightarrow> bool" where
  "first_on wire p rest \<longleftrightarrow>
     length (rcPacket p) \<le> DefaultMaxMessageSize \<and>
     (\<exists>xs ys. wire = xs @ p # ys \<and> rest = xs @ ys \<and> rcConn p \<notin> rcConn ` set xs)"

inductive system_step :: "(nat \<Rightarrow> nat) \<Rightarrow> (nat \<Rightarrow> nat) \<Rightarrow> int \<Rightarrow> behaviour \<Rightarrow> rpcHandler option \<Rightarrow> system_state \<Rightarrow> system_state \<Rightarrow> bool"
  for owner serves channels M h where
  start_call:  \<comment> \<open>a call has its sid, and unless it asks for no reply its entry in the table\<close>
    "coOnlyCall (caOpt a) \<or> lock_free (syClients s k) \<Longrightarrow> sid = next_Sid (csCounter (syClients s k)) \<Longrightarrow>
     system_step owner serves channels M h s
       (s\<lparr>syClients := (syClients s)(k := register_call (caOpt a) (syClients s k)), syAsked := (syAsked s)((k, sid) \<mapsto> a),
          syPending := insert (k, sid) (syPending s), syStarted := (syStarted s)(k := Suc (syStarted s k))\<rparr>)"
| call:  \<comment> \<open>its request is written on one of the client's connections; the encoder of the header does not panic\<close>
    "(k, sid) \<in> syPending s \<Longrightarrow> syAsked s (k, sid) = Some a \<Longrightarrow>
     coOnlyCall (caOpt a) \<or> csCalls (syClients s k) sid = Some CRegistered \<Longrightarrow> owner c = k \<Longrightarrow> c \<notin> syDown s \<Longrightarrow>
     req = asks a sid \<Longrightarrow> range_order (rqHeaders req) ks \<Longrightarrow> range_order (rqHeaders req) ks' \<Longrightarrow>
     Request_Marshal req ks ks' = Some bs \<Longrightarrow> go_slice bs \<Longrightarrow> frame bs \<noteq> None \<Longrightarrow> p = \<lparr>rcConn = c, rcPacket = bs\<rparr> \<Longrightarrow>
     system_step owner serves channels M h s
       (s\<lparr>syClients := (syClients s)(k := write_call (caOpt a) sid (syClients s k)), syTo := syTo s @ [p],
          syPending := syPending s - {(k, sid)}, sySent := p # sySent s\<rparr>)"
| only_failed:  \<comment> \<open>the write of a call that asks for no reply fails or panics; for other calls this is a step of the client\<close>
    "syAsked s (k, sid) = Some a \<Longrightarrow> coOnlyCall (caOpt a) \<Longrightarrow>
     system_step owner serves channels M h s (s\<lparr>syPending := syPending s - {(k, sid)}\<rparr>)"
| client:
    "client_internal (syClients s k) c' \<Longrightarrow>
     system_step owner serves channels M h s (s\<lparr>syClients := (syClients s)(k := c')\<rparr>)"
| reach:  \<comment> \<open>a packet reaches its server and passes the length test\<close>
    "j = serves (rcConn p) \<Longrightarrow> j \<notin> syCrashed s \<Longrightarrow> first_on (syTo s) p rest \<Longrightarrow> worker_event_step channels h (EPass p) (syServers s j) ws' \<Longrightarrow>
     system_step owner serves channels M h s (s\<lparr>syTo := rest, syServers := (syServers s)(j := ws')\<rparr>)"
| refuse:  \<comment> \<open>a packet reaches its server, finds the channel full, and is answered with 500\<close>
    "j = serves (rcConn p) \<Longrightarrow> j \<notin> syCrashed s \<Longrightarrow> first_on (syTo s) p rest \<Longrightarrow>
     rcConn p \<notin> rcConn ` set (wsPassed (syServers s j)) \<Longrightarrow> reqCh_full channels (wsQueue (syServers s j)) \<Longrightarrow> orders_of e (rcPacket p) \<Longrightarrow>
     bs = (case Server_reject e (rcPacket p) of RRejected w \<Rightarrow> written [w] | _ \<Rightarrow> None) \<Longrightarrow>
     bs = None \<or> rcConn p \<notin> syDown s \<Longrightarrow>
     system_step owner serves channels M h s
       (s\<lparr>syTo := rest, syBack := syBack s @ on_conn (rcConn p) bs, syRejected := p # syRejected s\<rparr>)"
| server:
    "j \<notin> syCrashed s \<Longrightarrow> worker_event_step channels h EInternal (syServers s j) ws' \<Longrightarrow>
     system_step owner serves channels M h s (s\<lparr>syServers := (syServers s)(j := ws')\<rparr>)"
| drop_request:
    "j \<notin> syCrashed s \<Longrightarrow> worker_event_step channels h (EDrop p) (syServers s j) ws' \<Longrightarrow>
     system_step owner serves channels M h s (s\<lparr>syServers := (syServers s)(j := ws')\<rparr>)"
| run:  \<comment> \<open>a worker has run the method of a request; \<open>h'\<close> says what the methods do this time\<close>
    "j \<notin> syCrashed s \<Longrightarrow> worker_event_step channels h (EFinish p) (syServers s j) ws' \<Longrightarrow>
     version M h h' \<Longrightarrow> orders_of e (rcPacket p) \<Longrightarrow>
     r = Server_handle h' e (rcPacket p) (wsReqs (syServers s j) - 1) \<Longrightarrow>
     bs = written (hrReplies r) \<Longrightarrow> bs = None \<or> rcConn p \<notin> syDown s \<Longrightarrow>
     system_step owner serves channels M h s
       (s\<lparr>syServers := (syServers s)(j := ws'), syBack := syBack s @ on_conn (rcConn p) bs, syRuns := (p, run_answer h' e (rc_request p)) # syRuns s,
          syCrashed := (if hrOut r = HCrashed then insert j (syCrashed s) else syCrashed s)\<rparr>)"
| arrive:
    "first_on (syBack s) p rest \<Longrightarrow> Response_Unmarshal (rcPacket p) Response_Reset = Inr r \<Longrightarrow> k = owner (rcConn p) \<Longrightarrow>
     system_step owner serves channels M h s
       (s\<lparr>syBack := rest, syClients := (syClients s)(k := receive r (syClients s k))\<rparr>)"
| garbled:
    "first_on (syBack s) p rest \<Longrightarrow> Response_Unmarshal (rcPacket p) Response_Reset = Inl err \<Longrightarrow>
     system_step owner serves channels M h s (s\<lparr>syBack := rest\<rparr>)"
| break_conn:
    "system_step owner serves channels M h s
       (s\<lparr>syTo := filter (\<lambda>p. rcConn p \<noteq> c) (syTo s), syBack := filter (\<lambda>p. rcConn p \<noteq> c) (syBack s),
          syDown := insert c (syDown s)\<rparr>)"

abbreviation system_steps :: "(nat \<Rightarrow> nat) \<Rightarrow> (nat \<Rightarrow> nat) \<Rightarrow> int \<Rightarrow> behaviour \<Rightarrow> rpcHandler option \<Rightarrow> system_state \<Rightarrow> system_state \<Rightarrow> bool" where
  "system_steps owner serves channels M h \<equiv> (system_step owner serves channels M h)\<^sup>*\<^sup>*"

end
