(* ===== verification/System_Invariants.thy ===== *)
theory System_Invariants
  imports System
begin

text \<open>
  The invariants of \<open>System\<close>: each client runs on its own, the sids of what is sent are those of the calls begun, every packet is in one
  place and is run at most once, a run's answer is its method's, and what travels back answers a request of its connection. Each has one
  lemma that every step keeps it; \<open>system_inv\<close> is all of them.
\<close>

section \<open>Replies\<close>

lemma versionD: "version M h h' \<Longrightarrow> registered h' = registered h"
  by (simp add: version_def)

lemma registered_counted:
  assumes "registered h' = registered h"
  shows "request_counted h' p = request_counted h p"
proof (cases h)
  case None
  with assms show ?thesis by (cases h') (simp_all add: registered_def request_counted_def)
next
  case (Some calls)
  with assms obtain calls' where h': "h' = Some calls'" by (auto simp: registered_def)
  have eq: "map_option (map_option (\<lambda>i. (riName i, riCall i \<noteq> None))) (calls' rid) =
      map_option (map_option (\<lambda>i. (riName i, riCall i \<noteq> None))) (calls rid)" for rid
    using assms Some h' by (simp add: registered_def fun_eq_iff)
  have "(case calls' rid of Some (Some item) \<Rightarrow> riCall item \<noteq> None | _ \<Rightarrow> False) =
      (case calls rid of Some (Some item) \<Rightarrow> riCall item \<noteq> None | _ \<Rightarrow> False)" for rid
    using eq [of rid] by (auto split: option.splits)
  then show ?thesis using Some h' by (simp add: request_counted_def split: sum.split)
qed

lemma written_reply:
  assumes "reply e res = Some w" "written [w] = Some bs"
    and "range_order (rsHeaders res) (heKs e)" "range_order (rsHeaders res) (heKs' e)"
  shows "bs = enc_Response res (heKs' e)"
proof -
  let ?p = "enc_Response res (heKs' e)"
  have w: "Response_Write True ?p (heWrites e) = Some w"
    using assms(1) Response_Marshal_enc [OF assms(3,4)] by (simp add: reply_def)
  obtain out n where out: "w = WDone out n False" "bs = drop 8 out"
    using assms(2) by (auto simp: written_def split: write_out.splits bool.splits)
  show ?thesis
  proof (cases "?p = []")
    case True
    with w out show ?thesis by (simp add: Response_Write_def)
  next
    case False
    with w obtain hd where hd: "Header_Encoder (Header_new (of_nat (length ?p))) = Some hd"
      "w = write_loop (hd @ ?p) 0 (heWrites e) []"
      by (auto simp: Response_Write_def split: if_splits bind_splits)
    with out(1) write_loop_prefix [of 0 "hd @ ?p" "[]" "heWrites e"] have "out = hd @ ?p" by simp
    with out(2) Header_decode_encoded(1) [OF hd(1)] show ?thesis by simp
  qed
qed

lemma written_decodes:
  assumes "reply e res = Some w" "written [w] = Some bs" "rsUnrecognized res = []"
    and "range_order (rsHeaders res) (heKs e)" "range_order (rsHeaders res) (heKs' e)" "go_slice bs"
  shows "Response_Unmarshal bs Response_Reset = Inr res"
  using written_reply [OF assms(1,2,4,5)] Response_Unmarshal_enc [OF assms(5)] assms(3,6) by simp

text \<open>A counted request is answered with what its method answers, or not at all.\<close>

lemma counted_replies:
  assumes "request_counted h p" "hrReplies (Server_handle h e p reqs) = ws" "ws \<noteq> []"
  obtains msg code ret w where "Request_Unmarshal p Request_Reset = Inr msg" "run_answer h e msg = Some (code, ret)"
    and "reply e (reply_msg msg code ret) = Some w" "ws = [w]"
proof -
  from assms(1) obtain msg calls item call where m: "Request_Unmarshal p Request_Reset = Inr msg" "h = Some calls"
    "calls (rqRpcId msg) = Some (Some item)" "riCall item = Some call"
    by (auto simp: request_counted_def split: sum.splits option.splits)
  have "\<exists>code ret w. run_answer h e msg = Some (code, ret) \<and> reply e (reply_msg msg code ret) = Some w \<and> ws = [w]"
    using assms(2,3) m unfolding m(2) handle_registered [of p msg calls item call, OF m(1,3,4)]
    by (auto simp: run_answer_def method_answer_def handle_simps reply_msg_def split: if_splits call_res.splits option.splits)
  with m(1) that show thesis by blast
qed

lemma rejected_replies:
  assumes "Server_reject e p = RRejected w"
  obtains msg where "Request_Unmarshal p Request_Reset = Inr msg" "reply e (reply_msg msg 500 []) = Some w"
  using assms by (auto simp: Server_reject_def reply_msg_def split: sum.splits option.splits if_splits)

section \<open>What the parts' steps do to the system's traffic\<close>

lemma first_on_mset: "first_on wire p rest \<Longrightarrow> mset wire = add_mset p (mset rest)"
  by (auto simp: first_on_def)

lemma first_on_set: "first_on wire p rest \<Longrightarrow> set wire = insert p (set rest)"
  by (auto simp: first_on_def)

lemma first_on_slice: "first_on wire p rest \<Longrightarrow> go_slice (rcPacket p)"
  by (simp add: first_on_def DefaultMaxMessageSize_def go_slice_def)

lemma event_pass:
  "worker_event_step channels h (EPass p) s s' \<Longrightarrow>
     wsPassed s' = wsPassed s @ [p] \<and> wsAccepted s' = wsAccepted s \<and> wsHandled s' = wsHandled s"
  by (auto elim: worker_event_step.cases)

lemma event_internal:
  "worker_event_step channels h EInternal s s' \<Longrightarrow>
     mset (wsPassed s') + mset (wsAccepted s') = mset (wsPassed s) + mset (wsAccepted s) \<and> wsHandled s' = wsHandled s"
  by (auto elim!: worker_event_step.cases)

lemma event_end:
  "ev = EDrop p \<or> ev = EFinish p \<Longrightarrow> worker_event_step channels h ev s s' \<Longrightarrow>
     wsPassed s' = wsPassed s \<and> wsAccepted s' = wsAccepted s \<and> wsHandled s' = wsHandled s @ [p]"
  by (auto elim: worker_event_step.cases)

definition returns :: "client_state \<Rightarrow> i64 \<rightharpoonup> call_result" where
  "returns s sid = (case csCalls s sid of Some (CReturned res) \<Rightarrow> Some res | _ \<Rightarrow> None)"

lemma next_Sid_changes: "next_Sid n \<noteq> n"
  by (simp add: next_Sid_def)

lemma internal_dom: "client_internal s s' \<Longrightarrow> dom (csCalls s') = dom (csCalls s)"
  unfolding client_internal_def
  by (elim conjE, erule client_step.cases) (auto simp: next_Sid_changes)

lemma map_fst_update: "i < length xs \<Longrightarrow> xs ! i = (r, pc) \<Longrightarrow> map fst (xs[i := (r, pc')]) = map fst xs"
  by (simp add: map_update list_update_same_conv)

lemma internal_arrived:
  assumes "client_internal s s'"
  shows "arrived s' = arrived s"
proof -
  from assms have st: "client_step s s'" and same: "csCounter s' = csCounter s" "length (csRecvs s') = length (csRecvs s)"
    by (simp_all add: client_internal_def)
  from st have "map fst (csRecvs s') = map fst (csRecvs s)"
  proof (cases rule: client_step.cases)
    case (recv_steal i r c j)
    then have "j < length (csRecvs s)" by (simp add: sending_to_def)
    then have "(map fst (csRecvs s))[j := fst (csRecvs s ! j)] = map fst (csRecvs s)"
      by (simp add: list_update_same_conv)
    with recv_steal(1-3) show ?thesis by (simp add: map_update list_update_same_conv)
  next
    case (write_failed_steal sid c res j)
    then show ?thesis by (simp add: sending_to_def map_update list_update_same_conv)
  qed (use same in \<open>auto simp: map_fst_update\<close>)
  from arg_cong [OF this, of set] show ?thesis by (simp add: arrived_def)
qed

text \<open>One call returns in a client's step, or none.\<close>

lemma internal_returns:
  assumes "client_internal s s'"
  shows "returns s' = returns s \<or>
    (\<exists>sid res. returns s sid = None \<and> csCalls s' sid = Some (CReturned res) \<and> returns s' = (returns s)(sid \<mapsto> res))"
proof -
  from assms have st: "client_step s s'" and same: "csCounter s' = csCounter s" by (simp_all add: client_internal_def)
  from st show ?thesis
    by (cases rule: client_step.cases) (use same in \<open>auto simp: returns_def fun_eq_iff next_Sid_changes\<close>)
qed

section \<open>Invariants\<close>

text \<open>Every client runs on its own: its part of the system's state is one its steps reach. The sids it has used are those of the calls it
  has begun.\<close>

definition sids :: "nat \<Rightarrow> i64 set" where
  "sids n = of_nat ` {1..n}"

definition inv_clients :: "system_state \<Rightarrow> bool" where
  "inv_clients s \<longleftrightarrow>
     (\<forall>k. client_steps client_init (syClients s k) \<and> csCounter (syClients s k) = of_nat (syStarted s k) \<and>
       dom (csCalls (syClients s k)) \<subseteq> sids (syStarted s k))"

definition inv_server :: "int \<Rightarrow> rpcHandler option \<Rightarrow> nat \<Rightarrow> system_state \<Rightarrow> bool" where
  "inv_server channels h n s \<longleftrightarrow> (\<forall>j. workers_inv channels n (syServers s j) \<and> counted_only h (syServers s j))"

text \<open>What is sent decodes to a request with the sid of a call its client has begun; no two have the same client and sid, unless a client
  goes once round its 64-bit counter.\<close>

definition key :: "(nat \<Rightarrow> nat) \<Rightarrow> RequetChannel \<Rightarrow> nat \<times> i64" where
  "key owner p = (owner (rcConn p), rqSid (rc_request p))"

definition few_calls :: "system_state \<Rightarrow> bool" where
  "few_calls s \<longleftrightarrow> (\<forall>k. syStarted s k < 2 ^ 64)"

definition inv_sent :: "(nat \<Rightarrow> nat) \<Rightarrow> system_state \<Rightarrow> bool" where
  "inv_sent owner s \<longleftrightarrow>
     (\<forall>p \<in> set (sySent s). Request_Unmarshal (rcPacket p) Request_Reset = Inr (rc_request p) \<and>
        rqSid (rc_request p) \<in> sids (syStarted s (owner (rcConn p)))) \<and>
     (few_calls s \<longrightarrow> distinct (map (key owner) (sySent s)))"

text \<open>A call that has its sid and is not written is none of those sent.\<close>

definition inv_pending :: "(nat \<Rightarrow> nat) \<Rightarrow> system_state \<Rightarrow> bool" where
  "inv_pending owner s \<longleftrightarrow>
     (\<forall>(k, sid) \<in> syPending s. sid \<in> sids (syStarted s k) \<and> (few_calls s \<longrightarrow> (k, sid) \<notin> key owner ` set (sySent s)))"

text \<open>A server holds packets of its own connections only; and every packet sent is in one place only, on its way, at the server of its
  connection, or refused, and is run at most once.\<close>

definition inv_homes :: "(nat \<Rightarrow> nat) \<Rightarrow> system_state \<Rightarrow> bool" where
  "inv_homes serves s \<longleftrightarrow>
     (\<forall>j. \<forall>p \<in> set (wsPassed (syServers s j)) \<union> set (wsAccepted (syServers s j)). serves (rcConn p) = j)"

definition traffic_ok :: "system_state \<Rightarrow> workers_state \<Rightarrow> RequetChannel \<Rightarrow> bool" where
  "traffic_ok s ws p \<longleftrightarrow>
     count (mset (syTo s)) p + count (mset (wsPassed ws)) p + count (mset (wsAccepted ws)) p + count (mset (syRejected s)) p
       \<le> count (mset (sySent s)) p \<and>
     count (mset (map fst (syRuns s))) p \<le> count (mset (wsHandled ws)) p"

definition inv_traffic :: "(nat \<Rightarrow> nat) \<Rightarrow> system_state \<Rightarrow> bool" where
  "inv_traffic serves s \<longleftrightarrow> (\<forall>p. traffic_ok s (syServers s (serves (rcConn p))) p)"

text \<open>What is sent is what was asked.\<close>

definition inv_asked :: "(nat \<Rightarrow> nat) \<Rightarrow> system_state \<Rightarrow> bool" where
  "inv_asked owner s \<longleftrightarrow>
     (few_calls s \<longrightarrow> (\<forall>p \<in> set (sySent s). \<exists>a. syAsked s (key owner p) = Some a \<and> rc_request p = asks a (snd (key owner p))))"

text \<open>A run's answer is its method's.\<close>

definition answers :: "behaviour \<Rightarrow> rpcHandler option \<Rightarrow> Request \<Rightarrow> (i32 \<times> bytes) option \<Rightarrow> bool" where
  "answers M h msg ans \<longleftrightarrow> (\<exists>h' e. version M h h' \<and> ans = run_answer h' e msg)"

definition inv_runs :: "behaviour \<Rightarrow> rpcHandler option \<Rightarrow> system_state \<Rightarrow> bool" where
  "inv_runs M h s \<longleftrightarrow> (\<forall>(p, ans) \<in> set (syRuns s). answers M h (rc_request p) ans)"

text \<open>Responses, on their way and arrived, answer requests of their connection: runs, or refusals.\<close>

definition answered :: "system_state \<Rightarrow> nat \<Rightarrow> Response \<Rightarrow> bool" where
  "answered s c res \<longleftrightarrow>
     (\<exists>p code ret. rcConn p = c \<and> res = reply_msg (rc_request p) code ret \<and>
        ((p, Some (code, ret)) \<in> set (syRuns s) \<or> p \<in> set (syRejected s) \<and> code = 500 \<and> ret = []))"

definition inv_back :: "system_state \<Rightarrow> bool" where
  "inv_back s \<longleftrightarrow>
     (\<forall>p \<in> set (syBack s). \<exists>res. answered s (rcConn p) res \<and>
        (go_slice (rcPacket p) \<longrightarrow> Response_Unmarshal (rcPacket p) Response_Reset = Inr res))"

definition inv_arrived :: "(nat \<Rightarrow> nat) \<Rightarrow> system_state \<Rightarrow> bool" where
  "inv_arrived owner s \<longleftrightarrow> (\<forall>k. \<forall>r \<in> arrived (syClients s k). \<exists>c. owner c = k \<and> answered s c r)"

definition system_inv :: "(nat \<Rightarrow> nat) \<Rightarrow> (nat \<Rightarrow> nat) \<Rightarrow> int \<Rightarrow> behaviour \<Rightarrow> rpcHandler option \<Rightarrow> nat \<Rightarrow> system_state \<Rightarrow> bool" where
  "system_inv owner serves channels M h n s \<longleftrightarrow>
     inv_clients s \<and> inv_server channels h n s \<and> inv_sent owner s \<and> inv_homes serves s \<and> inv_traffic serves s \<and> inv_runs M h s \<and> inv_back s \<and>
     inv_arrived owner s \<and> inv_asked owner s \<and> inv_pending owner s"

section \<open>The invariants hold\<close>

lemma register_call_simps:
  "csCounter (register_call opt c) = next_Sid (csCounter c)" "csRecvs (register_call opt c) = csRecvs c"
  "dom (csCalls (register_call opt c)) \<subseteq> insert (next_Sid (csCounter c)) (dom (csCalls c))"
  by (auto simp: register_call_def Let_def)

lemma write_call_simps:
  "csCounter (write_call opt sid c) = csCounter c" "csRecvs (write_call opt sid c) = csRecvs c"
  "coOnlyCall opt \<or> csCalls c sid = Some CRegistered \<Longrightarrow> dom (csCalls (write_call opt sid c)) = dom (csCalls c)"
  by (auto simp: write_call_def)

lemma receive_simps:
  "csCounter (receive r c) = csCounter c" "csCalls (receive r c) = csCalls c" "arrived (receive r c) = insert r (arrived c)"
  by (simp_all add: receive_def arrived_def)

lemma arrived_same: "csRecvs c' = csRecvs c \<Longrightarrow> arrived c' = arrived c"
  by (simp add: arrived_def)

lemma next_Sid_of_nat: "next_Sid (of_nat n) = of_nat (Suc n)"
  by (simp add: next_Sid_def)

lemma sids_Suc: "sids (Suc n) = insert (of_nat (Suc n)) (sids n)"
  by (simp only: sids_def atLeastAtMostSuc_conv [of 1 n] image_insert)

lemma sids_mono: "m \<le> n \<Longrightarrow> sids m \<subseteq> sids n"
  unfolding sids_def by (intro image_mono) auto

text \<open>The next sid is a new one.\<close>

lemma sids_fresh: "Suc n < 2 ^ 64 \<Longrightarrow> of_nat (Suc n) \<notin> sids n"
proof
  assume n: "Suc n < 2 ^ 64" and "of_nat (Suc n) \<in> sids n"
  then obtain i where i: "i \<in> {1..n}" "unat (of_nat (Suc n) :: i64) = unat (of_nat i :: i64)"
    by (auto simp: sids_def)
  moreover from i(1) have "i < 2 ^ 64" "i \<noteq> Suc n" using n by simp_all
  ultimately show False using n by (simp add: unat_of_nat del: of_nat_Suc)
qed

text \<open>A client after one more call.\<close>

definition one_client_ok :: "nat \<Rightarrow> client_state \<Rightarrow> bool" where
  "one_client_ok j c \<longleftrightarrow>
     client_steps client_init c \<and> csCounter c = of_nat j \<and> dom (csCalls c) \<subseteq> sids j"

lemma inv_clients_alt: "inv_clients s \<longleftrightarrow> (\<forall>k. one_client_ok (syStarted s k) (syClients s k))"
  by (simp add: inv_clients_def one_client_ok_def)

lemma one_client_call:
  assumes "one_client_ok j c" "client_step c c'" "csCounter c' = next_Sid (csCounter c)"
    and "dom (csCalls c') \<subseteq> insert (next_Sid (csCounter c)) (dom (csCalls c))"
  shows "one_client_ok (Suc j) c'"
proof -
  have n: "next_Sid (csCounter c) = of_nat (Suc j)"
    using assms(1) next_Sid_of_nat [of j] by (simp add: one_client_ok_def)
  then have "dom (csCalls c') \<subseteq> sids (Suc j)"
    using assms(1,4) unfolding one_client_ok_def sids_Suc by auto
  with n assms(1-3) show ?thesis
    by (auto simp only: one_client_ok_def intro: rtranclp.rtrancl_into_rtrancl)
qed

lemma one_client_step:
  assumes "one_client_ok j c" "client_steps c c'" "csCounter c' = csCounter c" "dom (csCalls c') = dom (csCalls c)"
  shows "one_client_ok j c'"
  using assms unfolding one_client_ok_def by (auto intro: rtranclp_trans)

lemma inv_clients_step: "system_step owner serves channels M h s s' \<Longrightarrow> inv_clients s \<Longrightarrow> inv_clients s'"
proof (induction rule: system_step.induct)
  case (start_call a s k sid)
  then show ?case
    using one_client_call [OF _ register_call_step register_call_simps(1,3)] by (simp add: inv_clients_alt)
next
  case (call k sid s a c req ks ks' bs p)
  then show ?case
    using one_client_step [OF _ write_call_steps write_call_simps(1,3)] by (simp add: inv_clients_alt)
next
  case (client s k c')
  have "client_step (syClients s k) c'" "csCounter c' = csCounter (syClients s k)"
    using client.hyps by (simp_all add: client_internal_def)
  with client.prems internal_dom [OF client.hyps] show ?case
    by (auto simp: inv_clients_alt intro: one_client_step [OF _ r_into_rtranclp])
next
  case (arrive s p rest r k)
  then show ?case
    using one_client_step [OF _ r_into_rtranclp, OF _ receive_step] by (simp add: inv_clients_alt receive_simps)
qed (simp_all add: inv_clients_def)

lemma inv_server_step: "system_step owner serves channels M h s s' \<Longrightarrow> inv_server channels h n s \<Longrightarrow> inv_server channels h n s'"
  by (induction rule: system_step.induct)
    (auto simp: inv_server_def intro: workers_inv_event counted_only_event)

text \<open>A worker's packet is one its server accepted, so it is of a connection of that server.\<close>

lemma end_home:
  assumes "ev = EDrop p \<or> ev = EFinish p" "worker_event_step channels h ev (syServers s j) ws'" "inv_server channels h n s" "inv_homes serves s"
  shows "serves (rcConn p) = j"
proof -
  have "workers_inv channels n ws'" using assms(2,3) workers_inv_event by (auto simp: inv_server_def)
  then have "mset (wsHandled ws') \<subseteq># mset (wsAccepted ws')" by (simp add: workers_inv_def)
  from set_mset_mono [OF this] have "set (wsHandled ws') \<subseteq> set (wsAccepted ws')" by simp
  with event_end [OF assms(1,2)] have "p \<in> set (wsAccepted (syServers s j))" by auto
  with assms(4) show ?thesis by (auto simp: inv_homes_def)
qed

lemma inv_homes_step:
  assumes "system_step owner serves channels M h s s'" "inv_homes serves s"
  shows "inv_homes serves s'"
  using assms(1)
proof (cases rule: system_step.cases)
  case (reach j p rest ws')
  with assms(2) event_pass [OF reach(5)] show ?thesis by (auto simp: inv_homes_def)
next
  case (server j ws')
  have "set (wsPassed ws') \<union> set (wsAccepted ws') = set (wsPassed (syServers s j)) \<union> set (wsAccepted (syServers s j))"
    using event_internal [OF server(3)] by (metis set_mset_mset set_mset_union)
  with assms(2) server(1) show ?thesis by (auto simp: inv_homes_def)
next
  case (drop_request j p ws')
  with assms(2) event_end [OF _ drop_request(3), of p] show ?thesis by (auto simp: inv_homes_def)
next
  case (run j p ws' h' e r bs)
  with assms(2) event_end [OF _ run(3), of p] show ?thesis by (auto simp: inv_homes_def)
qed (use assms(2) in \<open>simp_all add: inv_homes_def\<close>)

lemma inv_traffic_step:
  assumes "system_step owner serves channels M h s s'" "inv_server channels h n s" "inv_homes serves s" "inv_traffic serves s"
  shows "inv_traffic serves s'"
proof -
  have old: "traffic_ok s (syServers s (serves (rcConn q))) q" for q using assms(4) by (simp add: inv_traffic_def)
  from assms(1) show ?thesis
  proof (cases rule: system_step.cases)
    case (call k sid a c req ks ks' bs p)
    then show ?thesis using old by (auto simp: inv_traffic_def traffic_ok_def)
  next
    case (reach j p rest ws')
    have "traffic_ok s' (syServers s' (serves (rcConn q))) q" for q
      using old [of q] reach(1,2) event_pass [OF reach(5)] first_on_mset [OF reach(4)]
      by (cases "q = p") (auto simp: traffic_ok_def)
    then show ?thesis by (simp add: inv_traffic_def)
  next
    case (refuse j p rest e bs)
    have "traffic_ok s' (syServers s' (serves (rcConn q))) q" for q
      using old [of q] refuse(1) first_on_mset [OF refuse(4)] by (cases "q = p") (simp_all add: traffic_ok_def)
    then show ?thesis by (simp add: inv_traffic_def)
  next
    case (server j ws')
    have same: "count (mset (wsPassed ws')) q + count (mset (wsAccepted ws')) q =
        count (mset (wsPassed (syServers s j))) q + count (mset (wsAccepted (syServers s j))) q" for q
      using event_internal [OF server(3)] by (metis count_union)
    have "traffic_ok s' (syServers s' (serves (rcConn q))) q" for q
      using old [of q] same [of q] server(1) event_internal [OF server(3)] by (auto simp: traffic_ok_def)
    then show ?thesis by (simp add: inv_traffic_def)
  next
    case (drop_request j p ws')
    have "traffic_ok s' (syServers s' (serves (rcConn q))) q" for q
      using old [of q] drop_request(1) event_end [OF _ drop_request(3), of p] by (auto simp: traffic_ok_def)
    then show ?thesis by (simp add: inv_traffic_def)
  next
    case (run j p ws' h' e r bs)
    have "traffic_ok s' (syServers s' (serves (rcConn q))) q" for q
      using old [of q] run(1) event_end [OF _ run(3), of p] end_home [OF _ run(3) assms(2,3), of p] by (auto simp: traffic_ok_def)
    then show ?thesis by (simp add: inv_traffic_def)
  next
    case (break_conn c)
    have "count (mset (filter (\<lambda>p. rcConn p \<noteq> c) (syTo s))) q \<le> count (mset (syTo s)) q" for q by simp
    then have "traffic_ok s' (syServers s' (serves (rcConn q))) q" for q
      using old [of q] add_le_mono1 order_trans unfolding break_conn traffic_ok_def by fastforce
    then show ?thesis by (simp add: inv_traffic_def)
  qed (use old in \<open>simp_all add: inv_traffic_def traffic_ok_def\<close>)
qed

lemma handled_accepted:
  assumes "inv_server channels h n s"
  shows "mset (wsHandled (syServers s j)) \<subseteq># mset (wsAccepted (syServers s j))"
  using assms by (simp add: inv_server_def workers_inv_def)

lemma traffic_parts:
  assumes "inv_traffic serves s" "inv_server channels h n s"
  shows "mset (syRejected s) + mset (map fst (syRuns s)) \<subseteq># mset (sySent s)"
  unfolding subseteq_mset_def
proof
  fix p :: RequetChannel
  let ?ws = "syServers s (serves (rcConn p))"
  have "count (mset (wsHandled ?ws)) p \<le> count (mset (wsAccepted ?ws)) p"
    using handled_accepted [OF assms(2)] by (simp only: subseteq_mset_def)
  moreover have "traffic_ok s ?ws p" using assms(1) by (simp add: inv_traffic_def)
  ultimately show "count (mset (syRejected s) + mset (map fst (syRuns s))) p \<le> count (mset (sySent s)) p"
    by (simp add: traffic_ok_def)
qed

lemma traffic_runs:
  assumes "inv_traffic serves s" "inv_server channels h n s"
  shows "mset (map fst (syRuns s)) \<subseteq># mset (sySent s)"
  using traffic_parts [OF assms] by (rule subset_mset.order_trans [rotated]) simp

text \<open>The request of a call decodes from what is sent.\<close>

lemma call_decodes:
  assumes "req = asks a sid" "range_order (rqHeaders req) ks" "range_order (rqHeaders req) ks'"
    and "Request_Marshal req ks ks' = Some bs" "go_slice bs" "p = \<lparr>rcConn = c, rcPacket = bs\<rparr>"
  shows "Request_Unmarshal (rcPacket p) Request_Reset = Inr req" "rc_request p = req" "rqSid req = sid"
proof -
  have "rqUnrecognized req = []" "rqSid req = sid" using assms(1) by (simp_all add: asks_def call_request_def Let_def)
  then show "Request_Unmarshal (rcPacket p) Request_Reset = Inr req" "rqSid req = sid"
    using assms(2-6) Request_Marshal_enc [OF assms(2,3)] Request_Unmarshal_enc [OF assms(3)] by auto
  then show "rc_request p = req" by (simp add: rc_request_def)
qed

lemma started_mono: "system_step owner serves channels M h s s' \<Longrightarrow> syStarted s k \<le> syStarted s' k"
  by (induction rule: system_step.induct) simp_all

lemma sids_later: "system_step owner serves channels M h s s' \<Longrightarrow> x \<in> sids (syStarted s k) \<Longrightarrow> x \<in> sids (syStarted s' k)"
  using sids_mono [OF started_mono] by blast

lemma few_calls_before: "system_step owner serves channels M h s s' \<Longrightarrow> few_calls s' \<Longrightarrow> few_calls s"
  unfolding few_calls_def using started_mono le_less_trans by blast

lemma call_key:
  assumes "req = asks a sid" "range_order (rqHeaders req) ks" "range_order (rqHeaders req) ks'"
    and "Request_Marshal req ks ks' = Some bs" "go_slice bs" "p = \<lparr>rcConn = c, rcPacket = bs\<rparr>" "owner c = k"
  shows "key owner p = (k, sid)"
  using call_decodes(2,3) [OF assms(1-6)] assms(6,7) by (simp add: key_def)

lemma inv_sent_step:
  assumes "system_step owner serves channels M h s s'" "inv_pending owner s" "inv_sent owner s"
  shows "inv_sent owner s'"
  using assms(1)
proof (cases rule: system_step.cases)
  case (start_call a k sid)
  then show ?thesis
    using assms(3) few_calls_before [OF assms(1)] sids_later [OF assms(1)] unfolding inv_sent_def by auto
next
  case (call k sid a c req ks ks' bs p)
  note dec = call_decodes [OF call(7-11,13)] and key = call_key [where owner = owner and c = c, OF call(7-11,13,5)]
  have s': "sySent s' = p # sySent s" "syStarted s' = syStarted s" using call(1) by simp_all
  have "sid \<in> sids (syStarted s k)" "few_calls s \<longrightarrow> (k, sid) \<notin> key owner ` set (sySent s)"
    using assms(2) call(2) unfolding inv_pending_def by auto
  moreover have "owner (rcConn p) = k" using call(5,13) by simp
  ultimately show ?thesis
    using assms(3) few_calls_before [OF assms(1)] dec key unfolding inv_sent_def s' by auto
qed (use assms(3) in \<open>simp_all add: inv_sent_def few_calls_def\<close>)

text \<open>A new sid is none of those sent.\<close>

lemma new_key:
  assumes "inv_clients s" "inv_sent owner s" "few_calls s'" "syStarted s' k = Suc (syStarted s k)"
  shows "(k, next_Sid (csCounter (syClients s k))) \<notin> key owner ` set (sySent s)"
proof
  assume "(k, next_Sid (csCounter (syClients s k))) \<in> key owner ` set (sySent s)"
  then obtain q where "q \<in> set (sySent s)" "owner (rcConn q) = k" "rqSid (rc_request q) = next_Sid (csCounter (syClients s k))"
    by (auto simp: key_def)
  then have "next_Sid (csCounter (syClients s k)) \<in> sids (syStarted s k)"
    using assms(2) unfolding inv_sent_def by metis
  moreover have "syStarted s' k < 2 ^ 64" using assms(3) by (simp only: few_calls_def)
  then have "Suc (syStarted s k) < 2 ^ 64" using assms(4) by simp
  ultimately show False
    using sids_fresh [of "syStarted s k"] assms(1) next_Sid_of_nat [of "syStarted s k"] by (simp add: inv_clients_def)
qed

lemma inv_pending_step:
  assumes "system_step owner serves channels M h s s'" "inv_clients s" "inv_sent owner s" "inv_pending owner s"
  shows "inv_pending owner s'"
  using assms(1)
proof (cases rule: system_step.cases)
  case (start_call a k sid)
  have "sid \<in> sids (syStarted s' k)"
    using start_call(1,3) assms(2) next_Sid_of_nat [of "syStarted s k"] by (simp add: inv_clients_def sids_Suc)
  moreover have "few_calls s' \<longrightarrow> (k, sid) \<notin> key owner ` set (sySent s)"
    using new_key [OF assms(2,3), of s' k] start_call(1,3) by simp
  ultimately show ?thesis
    using assms(4) few_calls_before [OF assms(1)] sids_later [OF assms(1)] start_call(1) unfolding inv_pending_def by auto
next
  case (call k sid a c req ks ks' bs p)
  with assms(4) call_key [where owner = owner and c = c, OF call(7-11,13,5)] few_calls_before [OF assms(1)] show ?thesis by (auto simp: inv_pending_def)
qed (use assms(4) in \<open>auto simp: inv_pending_def few_calls_def\<close>)

lemma inv_asked_step:
  assumes "system_step owner serves channels M h s s'" "inv_clients s" "inv_sent owner s" "inv_asked owner s"
  shows "inv_asked owner s'"
  using assms(1)
proof (cases rule: system_step.cases)
  case (start_call a k sid)
  have "key owner q \<noteq> (k, sid)" if "few_calls s'" "q \<in> set (sySent s)" for q
    using new_key [OF assms(2,3) that(1), of k] start_call(1,3) that(2) by force
  with assms(4) few_calls_before [OF assms(1)] start_call(1) show ?thesis by (auto simp: inv_asked_def)
next
  case (call k sid a c req ks ks' bs p)
  then have "syAsked s' (key owner p) = Some a \<and> rc_request p = asks a (snd (key owner p))"
    using call_decodes(2) [OF call(7-11,13)] call_key [where owner = owner and c = c, OF call(7-11,13,5)] by simp
  with assms(4) few_calls_before [OF assms(1)] call(1) show ?thesis by (auto simp: inv_asked_def)
qed (use assms(4) in \<open>simp_all add: inv_asked_def few_calls_def\<close>)

lemma inv_runs_step: "system_step owner serves channels M h s s' \<Longrightarrow> inv_runs M h s \<Longrightarrow> inv_runs M h s'"
  by (induction rule: system_step.induct) (auto simp: inv_runs_def answers_def)

lemma answered_mono:
  assumes "system_step owner serves channels M h s s'" "answered s c r"
  shows "answered s' c r"
proof -
  have "set (syRuns s) \<subseteq> set (syRuns s')" "set (syRejected s) \<subseteq> set (syRejected s')"
    using assms(1) by (auto elim: system_step.cases)
  with assms(2) show ?thesis unfolding answered_def by blast
qed

lemma rc_request_simp: "Request_Unmarshal (rcPacket p) Request_Reset = Inr msg \<Longrightarrow> rc_request p = msg"
  by (simp add: rc_request_def)

lemma orders_of_reply:
  "orders_of e packet \<Longrightarrow> Request_Unmarshal packet Request_Reset = Inr msg \<Longrightarrow>
     range_order (rsHeaders (reply_msg msg code ret)) (heKs e) \<and> range_order (rsHeaders (reply_msg msg code ret)) (heKs' e)"
  by (simp add: orders_of_def reply_msg_def)

text \<open>What a run, and a refusal, put on the wire.\<close>

lemma run_replies:
  assumes "request_counted h' (rcPacket p)" "orders_of e (rcPacket p)"
    and "written (hrReplies (Server_handle h' e (rcPacket p) reqs)) = Some bs"
  obtains code ret where "run_answer h' e (rc_request p) = Some (code, ret)"
    and "go_slice bs \<longrightarrow> Response_Unmarshal bs Response_Reset = Inr (reply_msg (rc_request p) code ret)"
proof -
  have ne: "hrReplies (Server_handle h' e (rcPacket p) reqs) \<noteq> []" using assms(3) by (auto simp: written_def)
  from counted_replies [OF assms(1) refl ne] obtain msg code ret w where r:
    "Request_Unmarshal (rcPacket p) Request_Reset = Inr msg" "run_answer h' e msg = Some (code, ret)"
    "reply e (reply_msg msg code ret) = Some w" "hrReplies (Server_handle h' e (rcPacket p) reqs) = [w]" .
  note o = orders_of_reply [OF assms(2) r(1), of code ret]
  have "go_slice bs \<longrightarrow> Response_Unmarshal bs Response_Reset = Inr (reply_msg msg code ret)"
    using written_decodes [OF r(3), of bs] o assms(3) r(4) by simp
  with r(2) show thesis using that rc_request_simp [OF r(1)] by simp
qed

lemma refusal_replies:
  assumes "Server_reject e (rcPacket p) = RRejected w" "written [w] = Some bs" "orders_of e (rcPacket p)" "go_slice bs"
  shows "Response_Unmarshal bs Response_Reset = Inr (reply_msg (rc_request p) 500 [])"
proof -
  from rejected_replies [OF assms(1)] obtain msg where m:
    "Request_Unmarshal (rcPacket p) Request_Reset = Inr msg" "reply e (reply_msg msg 500 []) = Some w" .
  from written_decodes [OF m(2) assms(2) _ _ _ assms(4)] orders_of_reply [OF assms(3) m(1)]
  show ?thesis by (simp add: rc_request_simp [OF m(1)])
qed

lemma on_conn_cases: "p \<in> set (on_conn c bs) \<Longrightarrow> rcConn p = c \<and> bs = Some (rcPacket p)"
  by (auto simp: on_conn_def split: option.splits)

definition back_ok :: "system_state \<Rightarrow> RequetChannel \<Rightarrow> bool" where
  "back_ok s p \<longleftrightarrow> (\<exists>res. answered s (rcConn p) res \<and>
     (go_slice (rcPacket p) \<longrightarrow> Response_Unmarshal (rcPacket p) Response_Reset = Inr res))"

lemma inv_back_alt: "inv_back s \<longleftrightarrow> (\<forall>p \<in> set (syBack s). back_ok s p)"
  by (simp add: inv_back_def back_ok_def)

lemma inv_back_step:
  assumes "system_step owner serves channels M h s s'" "inv_back s" "inv_server channels h n s"
  shows "inv_back s'"
proof -
  have old: "back_ok s' p" if "p \<in> set (syBack s)" for p
    using assms(2) that answered_mono [OF assms(1)] unfolding inv_back_alt back_ok_def by blast
  from assms(1) show ?thesis
  proof (cases rule: system_step.cases)
    case (refuse j p rest e bs)
    have "back_ok s' q" if q: "q \<in> set (on_conn (rcConn p) bs)" for q
    proof -
      obtain w where "Server_reject e (rcPacket p) = RRejected w" "written [w] = Some (rcPacket q)"
        using refuse(8) on_conn_cases [OF q] by (auto split: recv_out.splits)
      then have "go_slice (rcPacket q) \<longrightarrow>
          Response_Unmarshal (rcPacket q) Response_Reset = Inr (reply_msg (rc_request p) 500 [])"
        using refusal_replies [OF _ _ refuse(7)] by blast
      moreover have "answered s' (rcConn q) (reply_msg (rc_request p) 500 [])"
        using refuse(1) on_conn_cases [OF q] unfolding answered_def by auto
      ultimately show ?thesis unfolding back_ok_def by blast
    qed
    with refuse(1) old show ?thesis by (auto simp: inv_back_alt)
  next
    case (run j p ws' h' e r bs)
    have counted: "request_counted h' (rcPacket p)"
      using finish_counted [OF run(3)] assms(3) registered_counted [OF versionD [OF run(4)]] by (simp add: inv_server_def)
    have "back_ok s' q" if q: "q \<in> set (on_conn (rcConn p) bs)" for q
    proof -
      note w = on_conn_cases [OF q]
      from w run(6,7) have "written (hrReplies (Server_handle h' e (rcPacket p) (wsReqs (syServers s j) - 1))) = Some (rcPacket q)"
        by simp
      from run_replies [OF counted run(5) this] obtain code ret where a:
        "run_answer h' e (rc_request p) = Some (code, ret)"
        "go_slice (rcPacket q) \<longrightarrow> Response_Unmarshal (rcPacket q) Response_Reset = Inr (reply_msg (rc_request p) code ret)" .
      have "answered s' (rcConn q) (reply_msg (rc_request p) code ret)"
        using run(1) w a(1) unfolding answered_def by auto
      with a(2) show ?thesis unfolding back_ok_def by blast
    qed
    with run(1) old show ?thesis by (auto simp: inv_back_alt)
  qed (use old in \<open>auto simp: inv_back_alt dest: first_on_set\<close>)
qed

lemma inv_arrived_step:
  assumes "system_step owner serves channels M h s s'" "inv_arrived owner s" "inv_back s"
  shows "inv_arrived owner s'"
proof -
  have old: "\<exists>c. owner c = k \<and> answered s' c r" if "r \<in> arrived (syClients s k)" for k r
    using assms(2) that answered_mono [OF assms(1)] unfolding inv_arrived_def by blast
  from assms(1) show ?thesis
  proof (cases rule: system_step.cases)
    case (start_call a k sid)
    with old show ?thesis by (simp add: inv_arrived_def arrived_same [OF register_call_simps(2)])
  next
    case (call k sid a c req ks ks' bs p)
    with old show ?thesis by (simp add: inv_arrived_def arrived_same [OF write_call_simps(2)])
  next
    case (client k c')
    with old show ?thesis by (simp add: inv_arrived_def internal_arrived)
  next
    case (arrive p rest r k)
    have "p \<in> set (syBack s)" using first_on_set [OF arrive(2)] by simp
    with assms(3) first_on_slice [OF arrive(2)] arrive(3) have "answered s (rcConn p) r"
      unfolding inv_back_def by force
    with answered_mono [OF assms(1)] arrive(4) have "\<exists>c. owner c = k \<and> answered s' c r" by blast
    with old arrive(1) show ?thesis by (auto simp: inv_arrived_def receive_simps)
  qed (use old in \<open>simp_all add: inv_arrived_def\<close>)
qed

lemma system_inv_init: "system_inv owner serves channels M h n (system_init channels n)"
  by (simp add: system_inv_def inv_clients_def inv_server_def inv_sent_def inv_homes_def inv_traffic_def traffic_ok_def inv_runs_def inv_back_def
      inv_arrived_def inv_asked_def inv_pending_def system_init_def workers_inv_init counted_only_init)
    (simp add: client_init_def arrived_def workers_init_def)

lemma system_inv_step:
  assumes "system_step owner serves channels M h s s'" "system_inv owner serves channels M h n s"
  shows "system_inv owner serves channels M h n s'"
proof -
  have i: "inv_clients s" "inv_server channels h n s" "inv_sent owner s" "inv_traffic serves s" "inv_runs M h s" "inv_back s"
    "inv_arrived owner s" "inv_asked owner s" "inv_homes serves s" "inv_pending owner s" using assms(2) by (simp_all add: system_inv_def)
  show ?thesis
    unfolding system_inv_def
    by (intro conjI inv_clients_step [OF assms(1) i(1)] inv_server_step [OF assms(1) i(2)]
        inv_sent_step [OF assms(1) i(10,3)] inv_homes_step [OF assms(1) i(9)] inv_traffic_step [OF assms(1) i(2,9,4)] inv_runs_step [OF assms(1) i(5)]
        inv_back_step [OF assms(1) i(6,2)] inv_arrived_step [OF assms(1) i(7,6)]
        inv_asked_step [OF assms(1) i(1,3,8)] inv_pending_step [OF assms(1) i(1,3,10)])
qed

end
