(* ===== verification/Rpc_Spec.thy ===== *)
theory Rpc_Spec
  imports System_Invariants Simulation
begin

text \<open>
  What the system promises its callers, as an abstract machine without connections, queues, workers, locks or bytes: a call is made once, its
  method is run at most once, and what the call returns is the answer of that run, or one of the client's own errors (408, 500), or nothing.
  The system of \<open>System\<close> refines it, as long as no client makes \<open>2 ^ 64\<close> calls.
\<close>

section \<open>The abstract machine\<close>

record 'k rpc_spec =
  spReq :: "'k \<rightharpoonup> Request"
  spRun :: "'k \<rightharpoonup> (i32 \<times> bytes) option"
  spRet :: "'k \<rightharpoonup> call_result"

definition spec_init :: "'k rpc_spec" where
  "spec_init = \<lparr>spReq = Map.empty, spRun = Map.empty, spRet = Map.empty\<rparr>"

text \<open>The results a call may return.\<close>

definition justified :: "(i32 \<times> bytes) option option \<Rightarrow> call_result \<Rightarrow> bool" where
  "justified run res =
     (case res of
        CrPacket ret \<Rightarrow> run = Some (Some (0, ret))
      | CrError code \<Rightarrow> code \<in> {408, 500} \<or> code \<noteq> 0 \<and> map_option (map_option fst) run = Some (Some code)
      | CrNil \<Rightarrow> True)"

inductive spec_step :: "(Request \<Rightarrow> (i32 \<times> bytes) option \<Rightarrow> bool) \<Rightarrow> 'k rpc_spec \<Rightarrow> 'k rpc_spec \<Rightarrow> bool" for may where
  spec_send: "spReq a k = None \<Longrightarrow> spec_step may a (a\<lparr>spReq := (spReq a)(k \<mapsto> req)\<rparr>)"
| spec_run:
    "spReq a k = Some req \<Longrightarrow> spRun a k = None \<Longrightarrow> may req ans \<Longrightarrow> spec_step may a (a\<lparr>spRun := (spRun a)(k \<mapsto> ans)\<rparr>)"
| spec_return:
    "spRet a k = None \<Longrightarrow> justified (spRun a k) res \<Longrightarrow> spec_step may a (a\<lparr>spRet := (spRet a)(k \<mapsto> res)\<rparr>)"

text \<open>What it keeps: only calls are run, with an answer of their method, and results stay justified.\<close>

definition spec_inv :: "(Request \<Rightarrow> (i32 \<times> bytes) option \<Rightarrow> bool) \<Rightarrow> 'k rpc_spec \<Rightarrow> bool" where
  "spec_inv may a \<longleftrightarrow>
     (\<forall>k ans. spRun a k = Some ans \<longrightarrow> (\<exists>req. spReq a k = Some req \<and> may req ans)) \<and>
     (\<forall>k res. spRet a k = Some res \<longrightarrow> justified (spRun a k) res)"

lemma justified_mono: "justified None res \<Longrightarrow> justified run res"
  by (auto simp: justified_def split: call_result.splits)

lemma spec_inv_init: "spec_inv may spec_init"
  by (simp add: spec_inv_def spec_init_def)

lemma spec_inv_step: "spec_step may a b \<Longrightarrow> spec_inv may a \<Longrightarrow> spec_inv may b"
proof (induction rule: spec_step.induct)
  case (spec_send a k req)
  then have "spRun a k = None" unfolding spec_inv_def by (metis not_None_eq option.distinct(1))
  with spec_send show ?case by (auto simp: spec_inv_def)
next
  case (spec_run a k req ans)
  then have "justified None res \<Longrightarrow> justified (Some ans) res" for res by (blast intro: justified_mono)
  with spec_run show ?case unfolding spec_inv_def by (auto split: if_splits) (metis spec_run.hyps(2))+
qed (auto simp: spec_inv_def)

section \<open>The system refines it\<close>

definition abstraction :: "(nat \<Rightarrow> nat) \<Rightarrow> system_state \<Rightarrow> (nat \<times> i64) rpc_spec" where
  "abstraction owner s =
     \<lparr>spReq = map_of (map (\<lambda>p. (key owner p, rc_request p)) (sySent s)),
      spRun = map_of (map (\<lambda>(p, ans). (key owner p, ans)) (syRuns s)),
      spRet = \<lambda>(k, sid). returns (syClients s k) sid\<rparr>"

lemma map_of_None_key: "k \<notin> f ` set xs \<Longrightarrow> map_of (map (\<lambda>x. (f x, g x)) xs) k = None"
  by (induction xs) auto

lemma map_of_distinct_key: "distinct (map f xs) \<Longrightarrow> x \<in> set xs \<Longrightarrow> map_of (map (\<lambda>x. (f x, g x)) xs) (f x) = Some (g x)"
  by (rule map_of_is_SomeI) (auto simp: comp_def)

lemma distinct_submset:
  assumes "mset ys \<subseteq># mset xs" "distinct xs"
  shows "distinct ys"
proof -
  from assms(1) obtain zs where "mset xs = mset (ys @ zs)"
    by (metis ex_mset mset_append subset_mset.le_iff_add)
  from mset_eq_imp_distinct_iff [OF this] assms(2) show ?thesis by simp
qed

lemma distinct_key_once:
  assumes "distinct (map f xs)" "x \<in> set xs"
  shows "length (filter (\<lambda>y. f y = f x) xs) = 1"
proof -
  have "set (filter (\<lambda>y. f y = f x) xs) = {x}" using assms by (auto simp: distinct_map inj_on_def)
  moreover have "distinct (filter (\<lambda>y. f y = f x) xs)" using assms(1) by (simp add: distinct_map)
  ultimately show ?thesis by (metis distinct_card card.empty card.insert empty_iff finite.emptyI One_nat_def)
qed

text \<open>The keys of the runs are distinct, and those of packets sent.\<close>

definition run_key :: "(nat \<Rightarrow> nat) \<Rightarrow> RequetChannel \<times> (i32 \<times> bytes) option \<Rightarrow> nat \<times> i64" where
  "run_key owner r = key owner (fst r)"

lemma runs_distinct:
  assumes "system_inv owner serves channels M h n s" "few_calls s"
  shows "distinct (map (run_key owner) (syRuns s))" "fst ` set (syRuns s) \<subseteq> set (sySent s)" "distinct (map (key owner) (sySent s))"
proof -
  have sub: "mset (map fst (syRuns s)) \<subseteq># mset (sySent s)"
    using assms(1) traffic_runs unfolding system_inv_def by blast
  show d: "distinct (map (key owner) (sySent s))"
    using assms by (simp add: system_inv_def inv_sent_def)
  have "mset (map (key owner) (map fst (syRuns s))) \<subseteq># mset (map (key owner) (sySent s))"
    using image_mset_subseteq_mono [OF sub, of "key owner"] by (simp only: mset_map)
  from distinct_submset [OF this d] have "distinct (map (key owner) (map fst (syRuns s)))" .
  then show "distinct (map (run_key owner) (syRuns s))" by (simp only: map_map comp_def run_key_def [abs_def])
  from set_mset_mono [OF sub] show "fst ` set (syRuns s) \<subseteq> set (sySent s)" by simp
qed

lemma abstraction_run:
  assumes "system_inv owner serves channels M h n s" "few_calls s" "(p, ans) \<in> set (syRuns s)"
  shows "spRun (abstraction owner s) (key owner p) = Some ans"
proof -
  have "map_of (map (\<lambda>r. (run_key owner r, snd r)) (syRuns s)) (run_key owner (p, ans)) = Some (snd (p, ans))"
    by (rule map_of_distinct_key [OF runs_distinct(1) [OF assms(1,2)] assms(3)])
  moreover have "(\<lambda>r. (run_key owner r, snd r)) = (\<lambda>(p, ans). (key owner p, ans))"
    by (auto simp: run_key_def)
  ultimately show ?thesis by (simp add: abstraction_def run_key_def)
qed

lemma abstraction_sent:
  assumes "system_inv owner serves channels M h n s" "few_calls s" "p \<in> set (sySent s)"
  shows "spReq (abstraction owner s) (key owner p) = Some (rc_request p)"
  using map_of_distinct_key [OF runs_distinct(3) [OF assms(1,2)] assms(3), of rc_request] by (simp add: abstraction_def)

text \<open>The clients' part.\<close>

lemma returns_register: "next_Sid (csCounter c) \<notin> dom (csCalls c) \<Longrightarrow> returns (register_call opt c) = returns c"
  by (auto simp: register_call_def returns_def fun_eq_iff Let_def dom_def split: option.split call_pc.split)

lemma returns_write: "coOnlyCall opt \<or> csCalls c sid = Some CRegistered \<Longrightarrow> returns (write_call opt sid c) = returns c"
  by (auto simp: write_call_def returns_def fun_eq_iff)

lemma returns_None: "sid \<notin> dom (csCalls c) \<Longrightarrow> returns c sid = None"
  by (simp add: returns_def domIff)

lemma returns_receive: "returns (receive r c) = returns c"
  by (simp add: receive_def returns_def fun_eq_iff)

lemma fresh_sid:
  assumes "inv_clients s" "Suc (syStarted s k) < 2 ^ 64"
  shows "next_Sid (csCounter (syClients s k)) \<notin> dom (csCalls (syClients s k))"
proof -
  have "next_Sid (csCounter (syClients s k)) = of_nat (Suc (syStarted s k))"
    using assms(1) next_Sid_of_nat by (simp add: inv_clients_def)
  moreover have "dom (csCalls (syClients s k)) \<subseteq> sids (syStarted s k)" using assms(1) by (simp add: inv_clients_def)
  ultimately show ?thesis using sids_fresh [OF assms(2)] by auto
qed

text \<open>A result that stems from an arrived response is justified by a run.\<close>

lemma returns_justified:
  assumes "system_inv owner serves channels M h n s" "few_calls s" "returns (syClients s k) sid = Some res"
  shows "justified (spRun (abstraction owner s) (k, sid)) res"
proof -
  have "client_inv (syClients s k)"
    using assms(1) client_inv_steps by (simp add: system_inv_def inv_clients_def)
  then have "returns_arrived (syClients s k) sid res"
    using assms(3) by (auto simp: client_inv_def inv_result_def returns_def split: option.splits call_pc.splits)
  then consider "res \<in> {CrNil, CrError 408, CrError 500}"
    | r where "r \<in> arrived (syClients s k)" "rsSid r = sid" "res = response_outcome r"
    by (auto simp: returns_arrived_def)
  then show ?thesis
  proof cases
    case 1
    then show ?thesis by (auto simp: justified_def)
  next
    case (2 r)
    with assms(1) obtain p code ret where p: "owner (rcConn p) = k" "r = reply_msg (rc_request p) code ret"
      "(p, Some (code, ret)) \<in> set (syRuns s) \<or> code = 500"
      unfolding system_inv_def inv_arrived_def answered_def by blast
    have "key owner p = (k, sid)" using p(1,2) 2(2) by (simp add: key_def reply_msg_def)
    with p(3) abstraction_run [OF assms(1,2), of p "Some (code, ret)"] show ?thesis
      unfolding 2(3) p(2) by (auto simp: response_outcome_def reply_msg_def justified_def)
  qed
qed

lemma spec_eqI: "spReq a = spReq b \<Longrightarrow> spRun a = spRun b \<Longrightarrow> spRet a = spRet b \<Longrightarrow> a = (b :: 'k rpc_spec)"
  by (cases a; cases b) simp

lemma spec_return_step:
  assumes "system_inv owner serves channels M h n t" "few_calls t"
    and "spReq (abstraction owner t) = spReq (abstraction owner s)" "spRun (abstraction owner t) = spRun (abstraction owner s)"
    and "\<And>k'. k' \<noteq> k \<Longrightarrow> returns (syClients t k') = returns (syClients s k')"
    and "returns (syClients s k) sid = None" "returns (syClients t k) = (returns (syClients s k))(sid \<mapsto> res)"
  shows "spec_step may (abstraction owner s) (abstraction owner t)"
proof -
  let ?a = "abstraction owner s"
  have "justified (spRun ?a (k, sid)) res"
    using returns_justified [OF assms(1,2), of k sid res] assms(4,7) by simp
  moreover have "spRet ?a (k, sid) = None" using assms(6) by (simp add: abstraction_def)
  ultimately have "spec_step may ?a (?a\<lparr>spRet := (spRet ?a)((k, sid) \<mapsto> res)\<rparr>)" by (intro spec_return)
  moreover have "spRet (abstraction owner t) = (spRet ?a)((k, sid) \<mapsto> res)"
  proof
    fix q :: "nat \<times> i64"
    obtain k' sid' where "q = (k', sid')" by (cases q)
    then show "spRet (abstraction owner t) q = ((spRet ?a)((k, sid) \<mapsto> res)) q"
      using assms(5) [of k'] assms(7) by (cases "k' = k") (auto simp: abstraction_def)
  qed
  then have "abstraction owner t = ?a\<lparr>spRet := (spRet ?a)((k, sid) \<mapsto> res)\<rparr>"
    using assms(3,4) by (intro spec_eqI) simp_all
  ultimately show ?thesis by simp
qed

lemma same_abstraction:
  assumes "sySent t = sySent s" "syRuns t = syRuns s" "\<And>k. returns (syClients t k) = returns (syClients s k)"
  shows "abstraction owner t = abstraction owner s"
  using assms by (simp add: abstraction_def)

lemma stutters:
  "sySent t = sySent s \<Longrightarrow> syRuns t = syRuns s \<Longrightarrow> syClients t = syClients s \<Longrightarrow>
     (spec_step may)\<^sup>=\<^sup>= (abstraction owner s) (abstraction owner t)"
  using same_abstraction [of t s owner] by simp

lemma system_simulates:
  assumes "system_step owner serves channels M h s t" "system_inv owner serves channels M h n s" "few_calls t"
  shows "(spec_step (answers M h))\<^sup>=\<^sup>= (abstraction owner s) (abstraction owner t)"
proof -
  note inv' = system_inv_step [OF assms(1,2)]
  note few = few_calls_before [OF assms(1,3)]
  have clients: "inv_clients s" using assms(2) by (simp add: system_inv_def)
  from assms(1) show ?thesis
  proof (cases rule: system_step.cases)
    case (start_call a k sid)
    have t: "syClients t = (syClients s)(k := register_call (caOpt a) (syClients s k))" "syStarted t k = Suc (syStarted s k)"
      using start_call(1) by simp_all
    have "Suc (syStarted s k) < 2 ^ 64" using assms(3) t(2) unfolding few_calls_def by metis
    then have "returns (syClients t k') = returns (syClients s k')" for k'
      using returns_register [OF fresh_sid [OF clients]] by (simp add: t(1))
    then have "abstraction owner t = abstraction owner s" using start_call(1) by (intro same_abstraction) simp_all
    then show ?thesis by simp
  next
    case (call k sid a c req ks ks' bs p)
    note dec = call_decodes [OF call(7-11,13)]
    have t: "sySent t = p # sySent s" "syRuns t = syRuns s" "syClients t = (syClients s)(k := write_call (caOpt a) sid (syClients s k))"
      using call(1) by simp_all
    have "returns (syClients t k') = returns (syClients s k')" for k'
      using returns_write [OF call(4)] by (simp add: t(3))
    then have "abstraction owner t = (abstraction owner s)\<lparr>spReq := (spReq (abstraction owner s))(key owner p \<mapsto> req)\<rparr>"
      by (simp add: abstraction_def t(1,2) dec(2))
    moreover have "spReq (abstraction owner s) (key owner p) = None"
      using runs_distinct(3) [OF inv' assms(3)] unfolding t(1)
      by (simp add: abstraction_def map_of_None_key)
    ultimately show ?thesis using spec_send [of "abstraction owner s" "key owner p" "answers M h" req] by simp
  next
    case (client k c')
    have t: "sySent t = sySent s" "syRuns t = syRuns s" "syClients t = (syClients s)(k := c')" using client(1) by simp_all
    from internal_returns [OF client(2)] show ?thesis
    proof (elim disjE exE conjE)
      assume "returns c' = returns (syClients s k)"
      then have "abstraction owner t = abstraction owner s" by (intro same_abstraction) (simp_all add: t)
      then show ?thesis by simp
    next
      fix sid res
      assume "returns (syClients s k) sid = None" "returns c' = (returns (syClients s k))(sid \<mapsto> res)"
      then have "spec_step (answers M h) (abstraction owner s) (abstraction owner t)"
        by (intro spec_return_step [OF inv' assms(3)]) (simp_all add: t(3), simp_all add: abstraction_def t)
      then show ?thesis by simp
    qed
  next
    case (run j p ws' h' e r bs)
    let ?ans = "run_answer h' e (rc_request p)"
    have t: "sySent t = sySent s" "syRuns t = (p, ?ans) # syRuns s" "syClients t = syClients s" using run(1) by simp_all
    have p: "p \<in> set (sySent s)" using runs_distinct(2) [OF inv' assms(3)] t by simp
    have "key owner p \<notin> run_key owner ` set (syRuns s)"
      using runs_distinct(1) [OF inv' assms(3)] unfolding t(2) by (simp add: run_key_def)
    then have none: "spRun (abstraction owner s) (key owner p) = None"
      using map_of_None_key [of "key owner p" "run_key owner" "syRuns s" snd]
      by (simp add: abstraction_def run_key_def case_prod_unfold)
    have "answers M h (rc_request p) ?ans" using run(4) unfolding answers_def by blast
    from spec_run [where may = "answers M h", OF abstraction_sent [OF assms(2) few p] none this]
    have "spec_step (answers M h) (abstraction owner s) (abstraction owner t)" by (simp add: abstraction_def t)
    then show ?thesis by simp
  next
    case (arrive p rest r k)
    then have "abstraction owner t = abstraction owner s"
      by (intro same_abstraction) (simp_all add: returns_receive)
    then show ?thesis by simp
  qed (rule stutters; simp)+
qed

interpretation system: simulation "system_step owner serves channels M h" "system_init channels n" "system_inv owner serves channels M h n"
    few_calls "spec_step (answers M h)" "abstraction owner"
  for owner serves channels M h n
  by unfold_locales
    (rule system_inv_init, erule (1) system_inv_step, erule (1) few_calls_before, erule (2) system_simulates)

end
