(* ===== verification/System_Calls.thy ===== *)
theory System_Calls
  imports Rpc_Spec
begin

text \<open>
  What the system of \<open>System\<close> does for its callers: it refines the abstract machine of \<open>Rpc_Spec\<close>, runs a call's method at most once,
  returns to a call what its own run returned, and can complete a call from any state in which its parts are idle.
\<close>

section \<open>What a call of the system gets\<close>

lemma asks_fields:
  "rqSid (asks a sid) = sid" "rqRpcId (asks a sid) = GenRid (caRpc a)" "rqPacket (asks a sid) = caPacket a"
  "map_get (rqHeaders (asks a sid)) traceKey = GetTraceId (caCtx a)"
  by (simp_all add: asks_def call_request_def Let_def map_get_def)

lemma run_answer_ok:
  assumes "run_answer h e msg = Some (0, ret)"
  obtains calls item call where "h = Some calls" "calls (rqRpcId msg) = Some (Some item)" "riCall item = Some call"
    and "call [(traceKey, CtxString (map_get (rqHeaders msg) traceKey))] (rqPacket msg) = CallOk ret"
  using assms by (auto simp: run_answer_def method_answer_def split: option.splits if_splits call_res.splits)

text \<open>A version of the table has the same methods, and theirs are the results that \<open>M\<close> allows.\<close>

lemma version_method:
  assumes "version M h h'" "h' = Some calls'" "calls' rid = Some (Some item')" "riCall item' = Some call" "call ctx packet = res"
  obtains calls item where "h = Some calls" "calls rid = Some (Some item)" "M (riName item) ctx packet res"
proof -
  from assms(1,2) obtain calls where h: "h = Some calls" by (cases h) (auto simp: version_def registered_def)
  have "map_option (map_option (\<lambda>i. (riName i, riCall i \<noteq> None))) (calls' rid) =
      map_option (map_option (\<lambda>i. (riName i, riCall i \<noteq> None))) (calls rid)"
    using assms(1,2) h by (auto simp: version_def registered_def dest: fun_cong)
  then obtain item where "calls rid = Some (Some item)" "riName item = riName item'" using assms(3)
    by (cases "calls rid"; cases "the (calls rid)") auto
  moreover have "M (riName item') ctx packet res"
    using assms(1-4) unfolding version_def behaves_def assms(5) [symmetric] by blast
  ultimately show thesis using that h by simp
qed

lemma returned_runs:
  assumes "system_inv owner serves channels M h n s" "few_calls s" "csCalls (syClients s k) sid = Some (CReturned (CrPacket ret))"
  obtains p where "(p, Some (0, ret)) \<in> set (syRuns s)" "key owner p = (k, sid)"
proof -
  have "returns (syClients s k) sid = Some (CrPacket ret)" using assms(3) by (simp add: returns_def)
  from returns_justified [OF assms(1,2) this] have "spRun (abstraction owner s) (k, sid) = Some (Some (0, ret))"
    by (simp add: justified_def)
  from map_of_SomeD [OF this [unfolded abstraction_def rpc_spec.simps]] that show thesis by auto
qed

section \<open>A call can complete\<close>

lemma clients_internals:
  "client_internals (syClients s k) c' \<Longrightarrow> system_steps owner serves channels M h s (s\<lparr>syClients := (syClients s)(k := c')\<rparr>)"
proof (induction rule: rtranclp_induct)
  case base
  show ?case by simp
next
  case (step c1 c2)
  have "system_step owner serves channels M h (s\<lparr>syClients := (syClients s)(k := c1)\<rparr>) (s\<lparr>syClients := (syClients s)(k := c2)\<rparr>)"
    using client [of "s\<lparr>syClients := (syClients s)(k := c1)\<rparr>" k c2 owner serves channels M h] step.hyps(2) by simp
  with step.IH show ?case by (rule rtranclp.rtrancl_into_rtrancl)
qed

lemma server_internals:
  "(worker_event_step channels h EInternal)\<^sup>*\<^sup>* (syServers s j) ws \<Longrightarrow> j \<notin> syCrashed s \<Longrightarrow>
     system_steps owner serves channels M h s (s\<lparr>syServers := (syServers s)(j := ws)\<rparr>)"
proof (induction rule: rtranclp_induct)
  case base
  show ?case by simp
next
  case (step w1 w2)
  have "system_step owner serves channels M h (s\<lparr>syServers := (syServers s)(j := w1)\<rparr>) (s\<lparr>syServers := (syServers s)(j := w2)\<rparr>)"
    using server [of j "s\<lparr>syServers := (syServers s)(j := w1)\<rparr>" channels h w2 owner] step by simp
  with step show ?case by (meson rtranclp.rtrancl_into_rtrancl)
qed

text \<open>The server of connection \<open>c\<close> is ready for a packet of it, with nothing of \<open>c\<close> on its way; the other servers may do what they like, or be gone.\<close>

definition ready :: "(nat \<Rightarrow> nat) \<Rightarrow> int \<Rightarrow> nat \<Rightarrow> system_state \<Rightarrow> bool" where
  "ready serves channels c s \<longleftrightarrow>
     serves c \<notin> syCrashed s \<and> c \<notin> syDown s \<and> c \<notin> rcConn ` set (syTo s) \<and> c \<notin> rcConn ` set (syBack s) \<and>
     c \<notin> rcConn ` set (wsPassed (syServers s (serves c))) \<and> chBuf (wsQueue (syServers s (serves c))) = [] \<and>
     reqCh_ok channels (wsQueue (syServers s (serves c))) \<and> 10 \<le> channels \<and> WIdle \<in> set (wsWorkers (syServers s (serves c)))"

lemma first_on_last:
  "rcConn p \<notin> rcConn ` set xs \<Longrightarrow> length (rcPacket p) \<le> DefaultMaxMessageSize \<Longrightarrow> first_on (xs @ [p]) p xs"
  unfolding first_on_def by (intro conjI exI [of _ xs] exI [of _ "[]"]) simp_all

text \<open>A reply written in one go.\<close>

lemma written_frame:
  assumes "frame bs = Some f" "sendable DefaultMaxMessageSize bs"
  shows "written [write_loop f 0 [Wrote (2 ^ 30)] []] = Some bs"
proof -
  have len: "length bs \<le> 2 ^ 20" using assms(2) by (simp add: sendable_def DefaultMaxMessageSize_def)
  then have drop: "drop 8 f = bs" using frame_decode(2) [OF assms(1), of "[]"] by simp
  then have "length f - 8 \<le> 2 ^ 20" using len by (metis length_drop)
  then have "min (2 ^ 30) (length f) = length f" by simp
  with drop show ?thesis by (auto simp: written_def Let_def)
qed

lemma replied_not_crashed: "hrReplies (Server_handle h e p reqs) \<noteq> [] \<Longrightarrow> hrOut (Server_handle h e p reqs) \<noteq> HCrashed"
  by (auto simp: Server_handle_def handle_simps split: sum.splits option.splits call_res.splits if_splits)

text \<open>The server's part: a packet that reaches it is answered.\<close>

lemma ready_answers:
  assumes "ready serves channels c s" "syTo t = syTo s @ [p]" "rcConn p = c" "syServers t = syServers s" "syBack t = syBack s"
    and "syDown t = syDown s" "syCrashed t = syCrashed s"
    and "length (rcPacket p) \<le> DefaultMaxMessageSize" "request_counted h (rcPacket p)" "orders_of e (rcPacket p)"
    and "\<And>reqs. written (hrReplies (Server_handle h e (rcPacket p) reqs)) = Some bs"
    and "behaves M h"
  shows "\<exists>t'. system_steps owner serves channels M h t t' \<and> syTo t' = syTo s \<and> syBack t' = syBack s @ [\<lparr>rcConn = c, rcPacket = bs\<rparr>] \<and>
     syDown t' = syDown s \<and> syCrashed t' = syCrashed s \<and> syClients t' = syClients t \<and> syAsked t' = syAsked t \<and> syStarted t' = syStarted t \<and>
     wsQueue (syServers t' (serves c)) = wsQueue (syServers s (serves c)) \<and>
     wsWorkers (syServers t' (serves c)) = wsWorkers (syServers s (serves c)) \<and>
     wsPassed (syServers t' (serves c)) = wsPassed (syServers s (serves c))"
proof -
  let ?ws = "syServers s (serves c)"
  note ready = assms(1) [unfolded ready_def]
  then obtain i where i: "i < length (wsWorkers ?ws)" "wsWorkers ?ws ! i = WIdle"
    by (auto simp: in_set_conv_nth)
  obtain w1 w2 where w: "worker_event_step channels h (EPass p) ?ws w1"
    "(worker_event_step channels h EInternal)\<^sup>*\<^sup>* w1 w2"
    "worker_event_step channels h (EFinish p) w2
       (?ws\<lparr>wsAccepted := wsAccepted ?ws @ [p], wsHandled := wsHandled ?ws @ [p]\<rparr>)"
    using idle_serves [of "?ws" channels i p h] ready i assms(3,9) by metis
  let ?w3 = "?ws\<lparr>wsAccepted := wsAccepted ?ws @ [p], wsHandled := wsHandled ?ws @ [p]\<rparr>"
  let ?t1 = "t\<lparr>syTo := syTo s, syServers := (syServers s)(serves c := w1)\<rparr>"
  let ?t2 = "?t1\<lparr>syServers := (syServers s)(serves c := w2)\<rparr>"
  have "first_on (syTo t) p (syTo s)"
    unfolding assms(2) using ready assms(3,8) by (intro first_on_last) auto
  then have "system_step owner serves channels M h t ?t1"
    using reach [of "serves c" serves p t "syTo s" channels h w1 owner M] ready w(1) assms(3,4,7) by simp
  moreover have "system_steps owner serves channels M h ?t1 ?t2"
    using server_internals [of channels h ?t1 "serves c" w2 owner serves M] w(2) ready assms(7) by simp
  moreover have "hrOut (Server_handle h e (rcPacket p) reqs) \<noteq> HCrashed" for reqs
    using assms(11) [of reqs] by (intro replied_not_crashed) (auto simp: written_def)
  then have "system_step owner serves channels M h ?t2
      (?t2\<lparr>syServers := (syServers s)(serves c := ?w3), syBack := syBack s @ [\<lparr>rcConn = c, rcPacket = bs\<rparr>],
        syRuns := (p, run_answer h e (rc_request p)) # syRuns t, syCrashed := syCrashed s\<rparr>)"
    using run [of "serves c" ?t2 channels h p ?w3 M h e "Server_handle h e (rcPacket p) (wsReqs w2 - 1)" "Some bs" owner]
      w(3) ready assms(3,5-7,10-12) by (simp add: on_conn_def version_def)
  ultimately have "system_steps owner serves channels M h t
      (?t2\<lparr>syServers := (syServers s)(serves c := ?w3), syBack := syBack s @ [\<lparr>rcConn = c, rcPacket = bs\<rparr>],
        syRuns := (p, run_answer h e (rc_request p)) # syRuns t, syCrashed := syCrashed s\<rparr>)"
    by (meson converse_rtranclp_into_rtranclp rtranclp.rtrancl_into_rtrancl)
  then show ?thesis by (intro exI conjI) (assumption, simp_all add: assms(6))
qed

text \<open>And the whole call.\<close>

lemma ready_completes:
  assumes "ready serves channels c s" "owner c = k" "lock_free (syClients s k)" "sid = next_Sid (csCounter (syClients s k))" "sid \<noteq> 0"
    and "\<not> coOnlyCall opt" "calls (GenRid rpc) = Some (Some item)" "riCall item = Some call"
    and "call [(traceKey, CtxString (GetTraceId ctx))] packet = CallOk ret"
    and "80 + length (GetTraceId ctx) + length packet \<le> DefaultMaxMessageSize"
    and "80 + length (GetTraceId ctx) + length ret \<le> DefaultMaxMessageSize"
    and "behaves M (Some calls)"
  shows "\<exists>s'. system_steps owner serves channels M (Some calls) s s' \<and>
     csCalls (syClients s' k) sid = Some (CReturned (CrPacket ret)) \<and>
     syAsked s' (k, sid) = Some \<lparr>caCtx = ctx, caOpt = opt, caRpc = rpc, caPacket = packet\<rparr> \<and>
     syStarted s' = (syStarted s)(k := Suc (syStarted s k)) \<and> lock_free (syClients s' k) \<and> ready serves channels c s'"
proof -
  let ?h = "Some calls" and ?req = "call_request ctx opt sid rpc packet"
  let ?cl = "syClients s k" and ?res = "reply_msg (call_request ctx opt sid rpc packet) 0 ret"
  let ?a = "\<lparr>caCtx = ctx, caOpt = opt, caRpc = rpc, caPacket = packet\<rparr>"
  define e where "e = \<lparr>heLimited = \<lambda>_. False, heKs = [traceKey], heKs' = [traceKey], heWrites = [Wrote (2 ^ 30)]\<rparr>"
  note ready = assms(1) [unfolded ready_def]
  note fields = call_request_fields [OF assms(6), of ctx sid rpc packet]
  have "method_answer e item call [(traceKey, CtxString (GetTraceId ctx))] packet = Some (0, ret)"
    using assms(9) by (simp add: method_answer_def e_def)
  from call_transported [where call = call and calls = calls, OF refl assms(6,5,7,8) this _ _ assms(10,11)]
  obtain bs bs' f' where t: "Request_Marshal ?req [traceKey] [traceKey] = Some bs" "Request_Unmarshal bs Request_Reset = Inr ?req"
    "sendable DefaultMaxMessageSize bs" "sendable DefaultMaxMessageSize bs'" "frame bs' = Some f'"
    "\<And>reqs. hrReplies (Server_handle ?h e bs reqs) = [write_loop f' 0 [Wrote (2 ^ 30)] []]"
    "Response_Unmarshal bs' Response_Reset = Inr ?res" "\<not> recv_dropped ?res" "rsSid ?res = sid"
    by (auto simp: e_def)
  define p where "p = \<lparr>rcConn = c, rcPacket = bs\<rparr>"
  define s0 where "s0 = s\<lparr>syClients := (syClients s)(k := register_call opt ?cl), syAsked := (syAsked s)((k, sid) \<mapsto> ?a),
    syPending := insert (k, sid) (syPending s), syStarted := (syStarted s)(k := Suc (syStarted s k))\<rparr>"
  define s1 where "s1 = s0\<lparr>syClients := (syClients s)(k := begin_call opt ?cl), syTo := syTo s @ [p],
    syPending := syPending s - {(k, sid)}, sySent := p # sySent s\<rparr>"
  have order: "range_order (rqHeaders ?req) [traceKey]" by (simp only: fields(3) one_order)
  have len: "length bs \<le> DefaultMaxMessageSize" "length bs' \<le> DefaultMaxMessageSize"
    using t(3,4) by (simp_all add: sendable_def)
  have "system_step owner serves channels M ?h s s0"
    using start_call [of ?a s k sid owner serves channels M ?h] assms(3,4) by (simp add: s0_def)
  moreover have "system_step owner serves channels M ?h s0 s1"
  proof -
    have pc: "csCalls (syClients s0 k) sid = Some CRegistered" using assms(4,6) by (simp add: s0_def register_call_def Let_def)
    have req: "?req = asks ?a sid" by (simp add: asks_def)
    have bs: "go_slice bs" "frame bs \<noteq> None"
      using len sendable_frame [OF t(3)] by (auto simp: go_slice_def DefaultMaxMessageSize_def)
    show ?thesis
      using call [of k sid s0 ?a owner c ?req "[traceKey]" "[traceKey]" bs p serves channels M ?h, OF _ _ _ assms(2) _ req order order t(1) bs p_def]
        pc ready assms(4) by (simp add: s0_def s1_def begin_call_def)
  qed
  moreover
  have "request_counted ?h (rcPacket p)" "orders_of e (rcPacket p)"
    using t(2) fields(2) assms(7,8) order by (simp_all add: p_def request_counted_def orders_of_def e_def)
  with ready_answers [OF assms(1), of s1 p ?h e bs' M owner] written_frame [OF t(5,4)] t(6) len assms(12)
  obtain s2 where s2: "system_steps owner serves channels M ?h s1 s2" "syTo s2 = syTo s" "syBack s2 = syBack s @ [\<lparr>rcConn = c, rcPacket = bs'\<rparr>]"
    "syDown s2 = syDown s" "syCrashed s2 = syCrashed s" "syClients s2 = syClients s1" "syAsked s2 = syAsked s1" "syStarted s2 = syStarted s1"
    "wsQueue (syServers s2 (serves c)) = wsQueue (syServers s (serves c))" "wsWorkers (syServers s2 (serves c)) = wsWorkers (syServers s (serves c))"
    "wsPassed (syServers s2 (serves c)) = wsPassed (syServers s (serves c))"
    by (auto simp: p_def s1_def s0_def)
  moreover
  define s3 where "s3 = s2\<lparr>syBack := syBack s, syClients := (syClients s2)(k := receive ?res (begin_call opt ?cl))\<rparr>"
  have "first_on (syBack s2) \<lparr>rcConn = c, rcPacket = bs'\<rparr> (syBack s)"
    unfolding s2(3) using ready len by (intro first_on_last) auto
  then have "system_step owner serves channels M ?h s2 s3"
    using arrive [of s2 "\<lparr>rcConn = c, rcPacket = bs'\<rparr>" "syBack s" ?res k owner serves channels M ?h] t(7) assms(2) s2(6)
    by (simp add: s3_def s1_def)
  moreover
  from received_completes [of ?cl ?res opt, OF assms(3) _ t(8) assms(6)] t(9) assms(4)
  obtain c' where c': "client_internals (receive ?res (begin_call opt ?cl)) c'" "lock_free c'"
    "csCalls c' sid = Some (CReturned (CrPacket ret))"
    by (auto simp: reply_msg_def)
  then have "system_steps owner serves channels M ?h s3 (s3\<lparr>syClients := (syClients s3)(k := c')\<rparr>)"
    by (intro clients_internals) (simp add: s3_def)
  ultimately have "system_steps owner serves channels M ?h s (s3\<lparr>syClients := (syClients s3)(k := c')\<rparr>)"
    by (meson converse_rtranclp_into_rtranclp rtranclp_trans)
  moreover have "ready serves channels c (s3\<lparr>syClients := (syClients s3)(k := c')\<rparr>)"
    using ready s2 by (simp add: ready_def s3_def)
  ultimately show ?thesis
    using c'(2,3) s2(7,8) by (intro exI [of _ "s3\<lparr>syClients := (syClients s3)(k := c')\<rparr>"]) (simp add: s3_def s1_def s0_def)
qed

lemma ready_init: "10 \<le> channels \<Longrightarrow> 0 < n \<Longrightarrow> ready serves channels c (system_init channels n)"
  by (simp add: ready_def system_init_def workers_init_def reqCh_ok_def make_chan_def)

text \<open>A system of one client and one worker, and a call in it.\<close>

abbreviation demo_methods :: rpcHandler where
  "demo_methods \<equiv> [GenRid (str ''S.Rev'') \<mapsto> Some demo_item]"

lemma demo_system:
  "ready (\<lambda>_. 0) 10 0 (system_init 10 2)" "syClients (system_init 10 2) k = client_init" "syStarted (system_init 10 2) = (\<lambda>_. 0)"
  "next_Sid (csCounter client_init) = 1"
  "riCall demo_item = Some (\<lambda>_ p. CallOk (rev p))" "\<not> coOnlyCall client_options_zero" "GetTraceId [] = []"
  by (rule ready_init)
    (simp_all add: system_init_def demo_item_def client_options_zero_def GetTraceId_def client_init_def next_Sid_def)

lemma demo_run:
  obtains s where "system_steps (\<lambda>_. 0) (\<lambda>_. 0) 10 (methods_of (Some demo_methods)) (Some demo_methods) (system_init 10 2) s" "few_calls s"
    and "csCalls (syClients s 0) 1 = Some (CReturned (CrPacket [2, 1]))"
    and "syAsked s (0, 1) = Some \<lparr>caCtx = [], caOpt = client_options_zero, caRpc = str ''S.Rev'', caPacket = [1, 2]\<rparr>"
proof -
  from ready_completes [OF demo_system(1), of "\<lambda>_. 0" 0 1 client_options_zero demo_methods "str ''S.Rev''" demo_item
      "\<lambda>_ p. CallOk (rev p)" "[]" "[1, 2]" "[2, 1]" "methods_of (Some demo_methods)"] behaves_methods_of
  obtain s where "system_steps (\<lambda>_. 0) (\<lambda>_. 0) 10 (methods_of (Some demo_methods)) (Some demo_methods) (system_init 10 2) s"
    "csCalls (syClients s 0) 1 = Some (CReturned (CrPacket [2, 1]))"
    "syAsked s (0, 1) = Some \<lparr>caCtx = [], caOpt = client_options_zero, caRpc = str ''S.Rev'', caPacket = [1, 2]\<rparr>"
    "syStarted s = (\<lambda>_. 0)(0 := Suc 0)"
    by (auto simp: demo_system client_init_free DefaultMaxMessageSize_def)
  then show thesis using that by (simp add: few_calls_def)
qed

section \<open>Properties\<close>

text \<open>C2. The system of clients, connections, and servers with their request channels and workers refines the abstract machine: whatever the
  processes do, in whatever order, and however the clients spread their calls over the servers, as long as no client makes \<open>2 ^ 64\<close> calls, what has been sent, run and returned is what the abstract machine can do. So a
  method is run only for a call that was made and at most once for it, and what a call has returned is justified: by the answer of its own
  run, or as one of the client's own errors.\<close>
theorem system_refines_rpc:
  assumes "system_steps owner serves channels M h (system_init channels n) s" "few_calls s"
  shows "(spec_step (answers M h))\<^sup>*\<^sup>* spec_init (abstraction owner s) \<and> spec_inv (answers M h) (abstraction owner s)"
proof -
  have init: "abstraction owner (system_init channels n) = spec_init"
    by (simp add: abstraction_def spec_init_def system_init_def client_init_def returns_def fun_eq_iff)
  have "spec_inv (answers M h) (abstraction owner s)"
    using system.run_keeps [OF assms, where P = "spec_inv (answers M h)"] spec_inv_step spec_inv_init unfolding init by blast
  with system.run_simulates [OF assms] show ?thesis unfolding init by blast
qed

text \<open>C4. No call is run twice, on whichever servers: the runs belong to different calls, each to a packet that was sent; and a request that the server refused
  with code 500 because its channel was full has not been run, and never will have been.\<close>
theorem at_most_once:
  assumes "system_steps owner serves channels M h (system_init channels n) s" "few_calls s"
  shows "distinct (map (run_key owner) (syRuns s)) \<and> fst ` set (syRuns s) \<subseteq> set (sySent s) \<and>
    fst ` set (syRuns s) \<inter> set (syRejected s) = {}"
proof -
  have inv: "system_inv owner serves channels M h n s" by (rule system.reachable_inv [OF assms(1)])
  have "mset (syRejected s) + mset (map fst (syRuns s)) \<subseteq># mset (sySent s)"
    using inv traffic_parts by (auto simp: system_inv_def)
  moreover have "distinct (sySent s)" using runs_distinct(3) [OF inv assms(2)] by (simp add: distinct_map)
  ultimately have "distinct (syRejected s @ map fst (syRuns s))"
    using distinct_submset [of "syRejected s @ map fst (syRuns s)"] by simp
  with runs_distinct(1,2) [OF inv assms(2)] show ?thesis by auto
qed

text \<open>C1. A call gets its own answer. In every state the system can reach: if the call number \<open>sid\<close> of client \<open>k\<close> has returned a packet, then it
  was a call of some method with some packet, the name's id is registered, the method was run exactly once for this call, and that packet is what
  it answered in that one run, as it can when it is given the caller's packet and trace id.\<close>
theorem system_call_returns:
  assumes "system_steps owner serves channels M h (system_init channels n) s" "few_calls s"
    and "csCalls (syClients s k) sid = Some (CReturned (CrPacket ret))"
  shows "\<exists>a calls item. syAsked s (k, sid) = Some a \<and> h = Some calls \<and> calls (GenRid (caRpc a)) = Some (Some item) \<and>
     M (riName item) [(traceKey, CtxString (GetTraceId (caCtx a)))] (caPacket a) (CallOk ret) \<and>
     (\<exists>p. filter (\<lambda>r. run_key owner r = (k, sid)) (syRuns s) = [(p, Some (0, ret))])"
proof -
  have inv: "system_inv owner serves channels M h n s" by (rule system.reachable_inv [OF assms(1)])
  obtain p where p: "(p, Some (0, ret)) \<in> set (syRuns s)" "key owner p = (k, sid)" by (rule returned_runs [OF inv assms(2,3)])
  then have "p \<in> set (sySent s)" using runs_distinct(2) [OF inv assms(2)] by auto
  then obtain a where a: "syAsked s (k, sid) = Some a" "rc_request p = asks a sid"
    using inv assms(2) p(2) by (fastforce simp: system_inv_def inv_asked_def)
  have "answers M h (rc_request p) (Some (0, ret))" using inv p(1) by (fastforce simp: system_inv_def inv_runs_def)
  then obtain h' e where h': "version M h h'" "run_answer h' e (rc_request p) = Some (0, ret)"
    by (auto simp: answers_def)
  from run_answer_ok [OF h'(2)] obtain calls item call where c: "h' = Some calls" "calls (GenRid (caRpc a)) = Some (Some item)"
    "riCall item = Some call" "call [(traceKey, CtxString (GetTraceId (caCtx a)))] (caPacket a) = CallOk ret"
    unfolding a(2) asks_fields .
  obtain calls0 item0 where "h = Some calls0" "calls0 (GenRid (caRpc a)) = Some (Some item0)"
    "M (riName item0) [(traceKey, CtxString (GetTraceId (caCtx a)))] (caPacket a) (CallOk ret)"
    by (rule version_method [OF h'(1) c])
  moreover have "filter (\<lambda>r. run_key owner r = (k, sid)) (syRuns s) = [(p, Some (0, ret))]"
  proof -
    let ?rs = "filter (\<lambda>r. run_key owner r = (k, sid)) (syRuns s)"
    have "length ?rs = 1"
      using distinct_key_once [OF runs_distinct(1) [OF inv assms(2)] p(1)] p(2) by (simp add: run_key_def)
    then obtain x where x: "?rs = [x]" by (auto simp: length_Suc_conv)
    have "(p, Some (0, ret)) \<in> set ?rs" using p by (simp add: run_key_def)
    with x show ?thesis by simp
  qed
  ultimately show ?thesis using a(1) by blast
qed

text \<open>C6. A call can complete: in every state in which the client's lock is free, the connection is up and carries nothing of its own, and a worker
  and the channel of its server are idle, whatever has become of the other servers, a call of a registered method can be made and return what the method returns; and the system is then ready for
  the next call.\<close>
theorem system_call_completes:
  assumes "ready serves channels c s" "owner c = k" "lock_free (syClients s k)" "sid = next_Sid (csCounter (syClients s k))" "sid \<noteq> 0"
    and "\<not> coOnlyCall (opt :: client_options)" "calls (GenRid rpc) = Some (Some item)" "riCall item = Some call"
    and "call [(traceKey, CtxString (GetTraceId ctx))] packet = CallOk ret"
    and "80 + length (GetTraceId ctx) + length packet \<le> DefaultMaxMessageSize"
    and "80 + length (GetTraceId ctx) + length ret \<le> DefaultMaxMessageSize"
    and "behaves M (Some calls)"
  shows "\<exists>s'. system_steps owner serves channels M (Some calls) s s' \<and>
     csCalls (syClients s' k) sid = Some (CReturned (CrPacket ret)) \<and> lock_free (syClients s' k) \<and> ready serves channels c s'"
  using ready_completes [where call = call and calls = calls and s = s and opt = opt and rpc = rpc and packet = packet
      and ctx = ctx and ret = ret and owner = owner and channels = channels and c = c and k = k and sid = sid and item = item and M = M, OF assms]
  by blast

theorem system_refines_rpc_witness:
  "\<exists>a :: (nat \<times> i64) rpc_spec. (spec_step (answers (methods_of (Some demo_methods)) (Some demo_methods)))\<^sup>*\<^sup>* spec_init a \<and> spRet a (0, 1) = Some (CrPacket [2, 1])"
proof -
  obtain s where s: "system_steps (\<lambda>_. 0) (\<lambda>_. 0) 10 (methods_of (Some demo_methods)) (Some demo_methods) (system_init 10 2) s" "few_calls s"
    "csCalls (syClients s 0) 1 = Some (CReturned (CrPacket [2, 1]))" using demo_run by metis
  from s(3) have "spRet (abstraction (\<lambda>_. 0) s) (0, 1) = Some (CrPacket [2, 1])" by (simp add: abstraction_def returns_def)
  from conjI [OF system_refines_rpc [OF s(1,2), THEN conjunct1] this] show ?thesis by (rule exI)
qed

theorem at_most_once_witness:
  "\<exists>s :: system_state. csCalls (syClients s 0) 1 = Some (CReturned (CrPacket [2, 1])) \<and> distinct (map (run_key (\<lambda>_. 0)) (syRuns s))"
proof -
  obtain s where s: "system_steps (\<lambda>_. 0) (\<lambda>_. 0) 10 (methods_of (Some demo_methods)) (Some demo_methods) (system_init 10 2) s" "few_calls s"
    "csCalls (syClients s 0) 1 = Some (CReturned (CrPacket [2, 1]))" using demo_run by metis
  show ?thesis by (rule exI [of _ s], rule conjI [OF s(3) at_most_once [OF s(1,2), THEN conjunct1]])
qed

theorem system_call_returns_witness:
  "\<exists>s :: system_state. syAsked s (0, 1) = Some \<lparr>caCtx = [], caOpt = client_options_zero, caRpc = str ''S.Rev'', caPacket = [1, 2]\<rparr> \<and>
     (\<exists>p. filter (\<lambda>r. run_key (\<lambda>_. 0) r = (0, 1)) (syRuns s) = [(p, Some (0, [2, 1]))])"
proof -
  obtain s where s: "system_steps (\<lambda>_. 0) (\<lambda>_. 0) 10 (methods_of (Some demo_methods)) (Some demo_methods) (system_init 10 2) s" "few_calls s"
    "csCalls (syClients s 0) 1 = Some (CReturned (CrPacket [2, 1]))"
    "syAsked s (0, 1) = Some \<lparr>caCtx = [], caOpt = client_options_zero, caRpc = str ''S.Rev'', caPacket = [1, 2]\<rparr>"
    by (rule demo_run)
  from system_call_returns [OF s(1-3)] have "\<exists>p. filter (\<lambda>r. run_key (\<lambda>_. 0) r = (0, 1)) (syRuns s) = [(p, Some (0, [2, 1]))]" by blast
  from conjI [OF s(4) this] show ?thesis by (rule exI)
qed

text \<open>Server 1 is gone, and a call on a connection to server 0 completes.\<close>

theorem system_call_completes_witness:
  "\<exists>s. system_steps (\<lambda>_. 0) (\<lambda>c. c) 10 (methods_of (Some demo_methods)) (Some demo_methods) (system_init 10 2\<lparr>syCrashed := {1}\<rparr>) s \<and>
     csCalls (syClients s 0) 1 = Some (CReturned (CrPacket [2, 1]))"
proof -
  have "ready (\<lambda>c. c) 10 0 (system_init 10 2\<lparr>syCrashed := {1}\<rparr>)"
    by (simp add: ready_def system_init_def workers_init_def reqCh_ok_def make_chan_def)
  from system_call_completes [OF this, of "\<lambda>_. 0" 0 1 client_options_zero demo_methods "str ''S.Rev''" demo_item
      "\<lambda>_ p. CallOk (rev p)" "[]" "[1, 2]" "[2, 1]" "methods_of (Some demo_methods)"] behaves_methods_of
  show ?thesis by (auto simp: demo_system client_init_free DefaultMaxMessageSize_def)
qed

end
