(* ===== verification/Stub.thy ===== *)
theory Stub
  imports Rpc Server Usernode_Requests
begin

text \<open>
  The stubs of the example service, \<open>example/protocol/usernode.micro.go\<close>: on the client's side the methods of \<open>UserService\<close>, which marshal a
  request, call, and unmarshal the response; on the server's side the methods registered for them, around a handler the
  user writes. The example's own handler (\<open>example/server/controller/handle.go\<close>) and the request of its client
  (\<open>example/client/main.go\<close>) are here too, and the two sides are composed with the call of \<open>Rpc\<close>.
\<close>

section \<open>The server's side\<close>

text \<open>What a method of the handler does: a response, which can be a nil pointer, an error, or a panic.\<close>

datatype 'm handler_res = HandlerOk "'m option" | HandlerErr | HandlerPanic bool

record UserServiceHandler =
  uhCreateUser :: "go_context \<Rightarrow> CreateUserReq \<Rightarrow> CreateUserResp handler_res"
  uhUserInfo :: "go_context \<Rightarrow> UserInfoReq \<Rightarrow> UserInfoResp handler_res"

text \<open>The orders in which \<open>Size\<close> and \<open>MarshalToSizedBuffer\<close> range over a map.\<close>

type_synonym visit = "gomap \<Rightarrow> bytes list"

text \<open>Both methods have the same body. Marshalling a nil response dereferences it: a panic with an \<open>error\<close> value.\<close>

definition stub_serve :: "(bytes \<Rightarrow> perr + 'q) \<Rightarrow> ('q \<Rightarrow> 'm handler_res) \<Rightarrow> ('m \<Rightarrow> bytes option) \<Rightarrow> bytes \<Rightarrow> call_res" where
  "stub_serve unmarshal h marshal i =
     (case unmarshal i of
        Inl err \<Rightarrow> (if err = GoPanic then CallPanic True else CallErr)
      | Inr req \<Rightarrow>
          (case h req of
             HandlerErr \<Rightarrow> CallErr
           | HandlerPanic is_error \<Rightarrow> CallPanic is_error
           | HandlerOk None \<Rightarrow> CallPanic True
           | HandlerOk (Some res) \<Rightarrow> (case marshal res of None \<Rightarrow> CallPanic True | Some out \<Rightarrow> CallOk out)))"

definition handler_CreateUser :: "visit \<Rightarrow> visit \<Rightarrow> UserServiceHandler \<Rightarrow> go_context \<Rightarrow> bytes \<Rightarrow> call_res" where
  "handler_CreateUser v v' h ctx =
     stub_serve (\<lambda>d. CreateUserReq_Unmarshal d CreateUserReq_Reset) (uhCreateUser h ctx)
       (\<lambda>res. CreateUserResp_Marshal res (v (crExtra res)) (v' (crExtra res)))"

definition handler_UserInfo :: "visit \<Rightarrow> visit \<Rightarrow> UserServiceHandler \<Rightarrow> go_context \<Rightarrow> bytes \<Rightarrow> call_res" where
  "handler_UserInfo v v' h ctx =
     stub_serve (\<lambda>d. UserInfoReq_Unmarshal d UserInfoReq_Reset) (uhUserInfo h ctx)
       (\<lambda>res. UserInfoResp_Marshal res (v (urExtra res)) (v' (urExtra res)))"

definition RegisterUserServiceHandler :: "visit \<Rightarrow> visit \<Rightarrow> UserServiceHandler \<Rightarrow> Server \<Rightarrow> Server" where
  "RegisterUserServiceHandler v v' h s =
     (let handler = RpcHandler;
          handler = rpcHandler_Add handler (GenRid (str ''UserService.CreateUser''))
            (Some \<lparr>riCall = Some (handler_CreateUser v v' h), riName = str ''UserService.CreateUser''\<rparr>);
          handler = rpcHandler_Add handler (GenRid (str ''UserService.UserInfo''))
            (Some \<lparr>riCall = Some (handler_UserInfo v v' h), riName = str ''UserService.UserInfo''\<rparr>)
      in NewHandler handler s)"

section \<open>The client's side\<close>

record userService =
  usName :: bytes

definition NewUserService :: "bytes \<Rightarrow> userService" where
  "NewUserService serviceName = \<lparr>usName = (if length serviceName = 0 then str ''protocol'' else serviceName)\<rparr>"

text \<open>The outcomes a call depends on: the time, the dials, the random index, what the inner \<open>call\<close> comes back with, and the trace id.\<close>

record call_env =
  ceNow :: i64
  ceDials :: "dial list"
  ceIntn :: "nat \<Rightarrow> nat"
  ceInner :: "client \<Rightarrow> bytes \<Rightarrow> inner_out"
  ceTraceId :: bytes

text \<open>\<open>Call\<close> with the outcome of the message's \<open>Marshal\<close>, which returns no error but can panic; \<open>Call\<close> recovers the panic.\<close>

definition call_message :: "call_env \<Rightarrow> bytes option \<Rightarrow> rpc_request \<Rightarrow> rpc_client \<Rightarrow> call_out \<times> rpc_client \<times> mev list" where
  "call_message e marshalled req c =
     (case marshalled of
        None \<Rightarrow> (OutNil, c, call_metrics (rqMethod req) OutNil)
      | Some packet \<Rightarrow> Client_Call (Inr packet) (ceNow e) (ceDials e) (ceIntn e) (ceInner e) (ceTraceId e) req c)"

text \<open>The errors of a stub: the request is nil, the call failed, the response cannot be decoded. The message returned beside an
  error is not modelled.\<close>

datatype stub_err = StubNil bytes | StubCall call_out | StubDecode perr
datatype 'm stub_out = StubErr stub_err | StubOk 'm

text \<open>\<open>out.Unmarshal(res)\<close> whenever the error is nil: a nil packet is an empty one.\<close>

definition stub_result :: "(bytes \<Rightarrow> perr + 'm) \<Rightarrow> call_out \<Rightarrow> 'm stub_out" where
  "stub_result unmarshal out =
     (let decode = \<lambda>res. (case unmarshal res of Inl err \<Rightarrow> StubErr (StubDecode err) | Inr m \<Rightarrow> StubOk m)
      in case out of
           OutPacket res \<Rightarrow> decode res
         | OutNil \<Rightarrow> decode []
         | _ \<Rightarrow> StubErr (StubCall out))"

definition CreateUser ::
    "userService \<Rightarrow> CreateUserReq option \<Rightarrow> bytes list \<Rightarrow> bytes list \<Rightarrow> call_env \<Rightarrow> rpc_client \<Rightarrow>
       CreateUserResp stub_out \<times> rpc_client \<times> mev list" where
  "CreateUser svc i ks ks' e c =
     (case i of
        None \<Rightarrow> (StubErr (StubNil (str ''UserService.CreateUser req is nil'')), c, [])
      | Some m \<Rightarrow>
          (let req = NewRequest (usName svc) (str ''UserService.CreateUser'');
               (out, c, ms) = call_message e (CreateUserReq_Marshal m ks ks') req c
           in (stub_result (\<lambda>d. CreateUserResp_Unmarshal d CreateUserResp_Reset) out, c, ms)))"

definition UserInfo ::
    "userService \<Rightarrow> UserInfoReq option \<Rightarrow> bytes list \<Rightarrow> bytes list \<Rightarrow> call_env \<Rightarrow> rpc_client \<Rightarrow>
       UserInfoResp stub_out \<times> rpc_client \<times> mev list" where
  "UserInfo svc i ks ks' e c =
     (case i of
        None \<Rightarrow> (StubErr (StubNil (str ''UserService.UserInfo req is nil'')), c, [])
      | Some m \<Rightarrow>
          (let req = NewRequest (usName svc) (str ''UserService.UserInfo'');
               (out, c, ms) = call_message e (UserInfoReq_Marshal m ks ks') req c
           in (stub_result (\<lambda>d. UserInfoResp_Unmarshal d UserInfoResp_Reset) out, c, ms)))"

section \<open>The example\<close>

definition controller_CreateUser :: "go_context \<Rightarrow> CreateUserReq \<Rightarrow> CreateUserResp handler_res" where
  "controller_CreateUser ctx req =
     HandlerOk (Some \<lparr>crCode = 200, crMsg = str ''CreateUser Success '' @ cqUsername req, crExtra = Map.empty, crUnrecognized = []\<rparr>)"

definition controller_UserInfo :: "go_context \<Rightarrow> UserInfoReq \<Rightarrow> UserInfoResp handler_res" where
  "controller_UserInfo ctx req =
     HandlerOk (Some \<lparr>urCode = 200, urMsg = str ''UserInfo Success '' @ uqUsername req, urExtra = Map.empty, urUnrecognized = []\<rparr>)"

definition Controller :: UserServiceHandler where
  "Controller = \<lparr>uhCreateUser = controller_CreateUser, uhUserInfo = controller_UserInfo\<rparr>"

text \<open>The requests the example's client sends, the second with the options for a call that asks for no answer, and what it makes of the
  response to the first.\<close>

definition example_request :: "int \<Rightarrow> CreateUserReq" where
  "example_request i =
     \<lparr>cqAuth = Some \<lparr>auAppid = [], auAppkey = [], auExtra = Map.empty, auUnrecognized = []\<rparr>,
      cqUsername = str ''gffg-'' @ show_int i, cqTelephone = str ''1234567890'', cqEmail = str ''HelloWorld'', cqUnrecognized = []\<rparr>"

definition example_info_request :: UserInfoReq where
  "example_info_request =
     \<lparr>uqAuth = Some \<lparr>auAppid = [], auAppkey = [], auExtra = Map.empty, auUnrecognized = []\<rparr>, uqUsername = str ''gffg'', uqUnrecognized = []\<rparr>"

definition example_info_options :: client_options where
  "example_info_options = initOpt [OnlyCall True, Timeout 5]"

datatype example_log = LogError | LogDifferent | LogReturned

definition example_createUser :: "CreateUserReq \<Rightarrow> CreateUserResp stub_out \<Rightarrow> example_log" where
  "example_createUser req r =
     (case r of
        StubErr _ \<Rightarrow> LogError
      | StubOk resp \<Rightarrow> (if str ''CreateUser Success '' @ cqUsername req \<noteq> crMsg resp then LogDifferent else LogReturned))"

section \<open>Lemmas\<close>

text \<open>The ids of the two methods differ, so registering the second keeps the first.\<close>

lemma rid_CreateUser: "GenRid (str ''UserService.CreateUser'') = 452544434418901338"
  by (simp add: GenRid_def fnv_step_def fnv_offset_def fnv_prime_def)

lemma rid_UserInfo: "GenRid (str ''UserService.UserInfo'') = 1555565906737287930"
  by (simp add: GenRid_def fnv_step_def fnv_offset_def fnv_prime_def)

lemma registered:
  obtains calls where "svHandler (RegisterUserServiceHandler v v' h s) = Some calls"
    and "calls (GenRid (str ''UserService.CreateUser'')) =
       Some (Some \<lparr>riCall = Some (handler_CreateUser v v' h), riName = str ''UserService.CreateUser''\<rparr>)"
    and "calls (GenRid (str ''UserService.UserInfo'')) =
       Some (Some \<lparr>riCall = Some (handler_UserInfo v v' h), riName = str ''UserService.UserInfo''\<rparr>)"
  unfolding RegisterUserServiceHandler_def rpcHandler_Add_def RpcHandler_def NewHandler_def rid_CreateUser rid_UserInfo Let_def
  by simp

text \<open>A message that was marshalled is what the other side's stub works on.\<close>

lemma CreateUserReq_crosses:
  assumes "pred_option (\<lambda>a. range_order (auExtra a) ks) (cqAuth m)" "pred_option (\<lambda>a. range_order (auExtra a) ks') (cqAuth m)"
    and "CreateUserReq_unknown m" "CreateUserReq_Size (Some m) ks < 2 ^ 63"
  obtains bs where "CreateUserReq_Marshal m ks ks' = Some bs" "length bs = CreateUserReq_Size (Some m) ks"
    and "CreateUserReq_Unmarshal bs CreateUserReq_Reset = Inr m"
proof
  show "CreateUserReq_Marshal m ks ks' = Some (enc_CreateUserReq m ks')" by (rule CreateUserReq_Marshal_enc [OF assms(1,2)])
  show len: "length (enc_CreateUserReq m ks') = CreateUserReq_Size (Some m) ks"
    by (simp add: length_enc_CreateUserReq CreateUserReq_Size_order [OF assms(1,2)])
  show "CreateUserReq_Unmarshal (enc_CreateUserReq m ks') CreateUserReq_Reset = Inr m"
    using CreateUserReq_Unmarshal_enc [OF assms(3), of ks'] CreateUserReq_merge_Reset [OF assms(2)] len assms(4)
    by (simp add: go_slice_def)
qed

lemma CreateUserResp_crosses:
  assumes "range_order (crExtra m) ks" "range_order (crExtra m) ks'"
    and "CreateUserResp_unknown (crUnrecognized m)" "CreateUserResp_Size (Some m) ks < 2 ^ 63"
  obtains bs where "CreateUserResp_Marshal m ks ks' = Some bs" "length bs = CreateUserResp_Size (Some m) ks"
    and "CreateUserResp_Unmarshal bs CreateUserResp_Reset = Inr m"
proof
  show "CreateUserResp_Marshal m ks ks' = Some (enc_CreateUserResp m ks')" by (rule CreateUserResp_Marshal_enc [OF assms(1,2)])
  show len: "length (enc_CreateUserResp m ks') = CreateUserResp_Size (Some m) ks"
    by (simp add: length_enc_CreateUserResp CreateUserResp_Size_order [OF assms(1,2)])
  show "CreateUserResp_Unmarshal (enc_CreateUserResp m ks') CreateUserResp_Reset = Inr m"
    using CreateUserResp_Unmarshal_enc [OF assms(3), of ks'] CreateUserResp_merge_Reset [OF assms(2)] len assms(4)
    by (simp add: go_slice_def)
qed

text \<open>A call that has a connection and whose inner call brings a packet returns what the packet decodes to.\<close>

lemma CreateUser_decodes:
  assumes "CreateUserReq_Marshal m ks ks' = Some packet" "CreateUserResp_Unmarshal ret CreateUserResp_Reset = Inr resp"
    and "fst (pool_response (rcGroup c) (usName svc) (ceNow ce) (ceDials ce) (ceIntn ce) (rcConns c)) = Some cli"
    and "ceInner ce cli packet = InnerOk ret"
  shows "fst (CreateUser svc (Some m) ks ks' ce c) = StubOk resp"
  using assms
  by (cases "pool_response (rcGroup c) (usName svc) (ceNow ce) (ceDials ce) (ceIntn ce) (rcConns c)")
    (simp add: CreateUser_def call_message_def Client_Call_def NewRequest_def stub_result_def Let_def)

section \<open>Properties\<close>

text \<open>C3. A call through the stubs, from end to end: for every request the client can marshal and every response the server's handler returns
  for it, the method registered by \<open>RegisterUserServiceHandler\<close> answers with one frame, and the client's stub returns exactly that response,
  nested messages, maps and unknown fields included, over two byte streams cut in any way.\<close>
theorem CreateUser_returns:
  assumes "pred_option (\<lambda>a. range_order (auExtra a) ks) (cqAuth m)" "pred_option (\<lambda>a. range_order (auExtra a) ks') (cqAuth m)"
    and "CreateUserReq_unknown m" "80 + length (GetTraceId ctx) + CreateUserReq_Size (Some m) ks \<le> DefaultMaxMessageSize"
    and "uhCreateUser h [(traceKey, CtxString (GetTraceId ctx))] m = HandlerOk (Some resp)"
    and "range_order (crExtra resp) (v (crExtra resp))" "range_order (crExtra resp) (v' (crExtra resp))"
    and "CreateUserResp_unknown (crUnrecognized resp)"
    and "80 + length (GetTraceId ctx) + CreateUserResp_Size (Some resp) (v (crExtra resp)) \<le> DefaultMaxMessageSize"
    and "\<not> coOnlyCall opt" "lock_free s" "sid = next_Sid (csCounter s)" "sid \<noteq> 0"
    and "\<not> heLimited e (str ''UserService.CreateUser'')" "heKs e = [traceKey]" "heKs' e = [traceKey]"
    and "fst (pool_response (rcGroup c) (usName svc) (ceNow ce) (ceDials ce) (ceIntn ce) (rcConns c)) \<noteq> None"
  shows "\<exists>packet bs f bs' f' res s' ret.
     CreateUserReq_Marshal m ks ks' = Some packet \<and>
     Request_Marshal (call_request ctx opt sid (str ''UserService.CreateUser'') packet) [traceKey] [traceKey] = Some bs \<and>
     frame bs = Some f \<and> received_as f bs \<and> frame bs' = Some f' \<and>
     hrReplies (Server_handle (svHandler (RegisterUserServiceHandler v v' h srv)) e bs reqs) = [write_loop f' 0 (heWrites e) []] \<and>
     received_as f' bs' \<and> Response_Unmarshal bs' Response_Reset = Inr res \<and>
     client_steps s s' \<and> csRecvs s' = csRecvs s @ [(res, RDone)] \<and> csCalls s' sid = Some (CReturned (CrPacket ret)) \<and>
     fst (CreateUser svc (Some m) ks ks' (ce\<lparr>ceInner := \<lambda>_ _. InnerOk ret\<rparr>) c) = StubOk resp"
proof -
  obtain packet where packet: "CreateUserReq_Marshal m ks ks' = Some packet" "length packet = CreateUserReq_Size (Some m) ks"
      "CreateUserReq_Unmarshal packet CreateUserReq_Reset = Inr m"
    using CreateUserReq_crosses [OF assms(1-3)] assms(4) by (auto simp: DefaultMaxMessageSize_def)
  obtain ret where ret: "CreateUserResp_Marshal resp (v (crExtra resp)) (v' (crExtra resp)) = Some ret"
      "length ret = CreateUserResp_Size (Some resp) (v (crExtra resp))"
      "CreateUserResp_Unmarshal ret CreateUserResp_Reset = Inr resp"
    using CreateUserResp_crosses [OF assms(6-8)] assms(9) by (auto simp: DefaultMaxMessageSize_def)
  obtain calls where calls: "svHandler (RegisterUserServiceHandler v v' h srv) = Some calls"
      "calls (GenRid (str ''UserService.CreateUser'')) =
         Some (Some \<lparr>riCall = Some (handler_CreateUser v v' h), riName = str ''UserService.CreateUser''\<rparr>)"
    by (rule registered)
  have served: "handler_CreateUser v v' h [(traceKey, CtxString (GetTraceId ctx))] packet = CallOk ret"
    using packet(3) assms(5) ret(1) by (simp add: handler_CreateUser_def stub_serve_def)
  let ?item = "\<lparr>riCall = Some (handler_CreateUser v v' h), riName = str ''UserService.CreateUser''\<rparr>"
  have answer: "method_answer e ?item (handler_CreateUser v v' h) [(traceKey, CtxString (GetTraceId ctx))] packet = Some (0, ret)"
    using served assms(14) by (simp add: method_answer_def)
  have decodes: "fst (CreateUser svc (Some m) ks ks' (ce\<lparr>ceInner := \<lambda>_ _. InnerOk ret\<rparr>) c) = StubOk resp"
    using CreateUser_decodes [OF packet(1) ret(3), of c svc "ce\<lparr>ceInner := \<lambda>_ _. InnerOk ret\<rparr>"] assms(17) by auto
  show ?thesis
    unfolding calls(1)
    using call_crosses [where call = "handler_CreateUser v v' h" and calls = calls, OF refl assms(10-13) calls(2) _ answer assms(15,16), of "[]" reqs]
      assms(4,9) packet(1,2) ret(2) decodes
    by (simp, blast)
qed

text \<open>The client's example against the server's: a client with one connection, and the user number 7.\<close>

definition demo_call_env :: call_env where
  "demo_call_env = \<lparr>ceNow = 0, ceDials = [Some (3, [7])], ceIntn = (\<lambda>_. 0), ceInner = (\<lambda>_ _. InnerPanic), ceTraceId = str ''t1''\<rparr>"

lemma demo_connects:
  "pool_response [4] (usName (NewUserService (str ''gffg-test''))) 0 [Some (3, [7])] (\<lambda>_. 0) pool_new =
     (Some \<lparr>clConn = 3, clName = [7], clSvrname = str ''gffg-test'', clGroup = [4], clStamp = 0\<rparr>,
      pool_new(pool_key [4] (str ''gffg-test'') := [\<lparr>clConn = 3, clName = [7], clSvrname = str ''gffg-test'', clGroup = [4], clStamp = 0\<rparr>]))"
  by (simp add: NewUserService_def pool_response_def pool_fill_def pool_new_def RPC_POOL_SIZE_def eval_nat_numeral Let_def)

theorem CreateUser_returns_witness:
  "\<exists>ret. example_createUser (example_request 7)
     (fst (CreateUser (NewUserService (str ''gffg-test'')) (Some (example_request 7)) [] []
        (demo_call_env\<lparr>ceInner := \<lambda>_ _. InnerOk ret\<rparr>) demo_rpc_client)) = LogReturned"
proof -
  have trace: "GetTraceId demo_ctx = str ''t1''" by (simp add: demo_ctx_def GetTraceId_def SetTraceId_def)
  have unknown: "CreateUserReq_unknown (example_request 7)"
    by (auto simp: CreateUserReq_unknown_def example_request_def intro: exI [of _ "[]"])
  have sizes: "CreateUserReq_Size (Some (example_request 7)) [] = 34"
    "CreateUserResp_Size (Some \<lparr>crCode = 200, crMsg = str ''CreateUser Success gffg-7'', crExtra = Map.empty, crUnrecognized = []\<rparr>) [] = 30"
    by code_simp+
  have name: "cqUsername (example_request 7) = str ''gffg-7''"
    by (simp add: example_request_def) code_simp
  let ?resp = "\<lparr>crCode = 200, crMsg = str ''CreateUser Success gffg-7'', crExtra = Map.empty, crUnrecognized = []\<rparr>"
  have order: "pred_option (\<lambda>a. range_order (auExtra a) []) (cqAuth (example_request 7))"
    by (simp add: example_request_def range_order_def)
  have resp_order: "range_order (crExtra ?resp) []" by (simp add: range_order_def)
  have h: "uhCreateUser Controller x (example_request 7) = HandlerOk (Some ?resp)" for x
    by (simp add: Controller_def controller_CreateUser_def name)
  have small: "80 + length (GetTraceId demo_ctx) + CreateUserReq_Size (Some (example_request 7)) [] \<le> DefaultMaxMessageSize"
    "80 + length (GetTraceId demo_ctx) + CreateUserResp_Size (Some ?resp) [] \<le> DefaultMaxMessageSize"
    by (simp_all only: trace sizes) (simp_all add: DefaultMaxMessageSize_def)
  have opt: "\<not> coOnlyCall (initOpt [])" by (simp add: initOpt_def client_options_zero_def)
  have sid: "1 = next_Sid (csCounter client_init)" by (simp add: client_init_def next_Sid_def)
  have env: "\<not> heLimited demo_rpc_env (str ''UserService.CreateUser'')" "heKs demo_rpc_env = [traceKey]" "heKs' demo_rpc_env = [traceKey]"
    by (simp_all add: demo_rpc_env_def)
  have conn: "fst (pool_response (rcGroup demo_rpc_client) (usName (NewUserService (str ''gffg-test''))) (ceNow demo_call_env)
      (ceDials demo_call_env) (ceIntn demo_call_env) (rcConns demo_rpc_client)) \<noteq> None"
    using demo_connects by (simp add: demo_call_env_def demo_rpc_client_def)
  obtain ret where "fst (CreateUser (NewUserService (str ''gffg-test'')) (Some (example_request 7)) [] []
      (demo_call_env\<lparr>ceInner := \<lambda>_ _. InnerOk ret\<rparr>) demo_rpc_client) = StubOk ?resp"
    using CreateUser_returns [where v = "\<lambda>_. []" and v' = "\<lambda>_. []" and h = Controller, OF order order unknown small(1) h resp_order resp_order _ small(2) opt
        client_init_free sid _ env conn] by auto
  then have "example_createUser (example_request 7) (fst (CreateUser (NewUserService (str ''gffg-test'')) (Some (example_request 7)) [] []
      (demo_call_env\<lparr>ceInner := \<lambda>_ _. InnerOk ret\<rparr>) demo_rpc_client)) = LogReturned"
    by (simp add: example_createUser_def name)
  then show ?thesis ..
qed

text \<open>C39. The stub cannot tell a lost call from an empty answer: when the inner call panics (as it does when the client is destroyed while the call
  waits), \<open>Call\<close> returns neither a packet nor an error and the stub returns the empty response and no error, exactly as for a
  response whose fields are all zero, and for a call that asks for no answer.\<close>
theorem lost_call_looks_empty:
  assumes "CreateUserReq_Marshal m ks ks' = Some packet"
    and "fst (pool_response (rcGroup c) (usName svc) (ceNow ce) (ceDials ce) (ceIntn ce) (rcConns c)) = Some cli"
    and "ceInner ce cli packet = InnerPanic \<or> ceInner ce cli packet = InnerOk []"
  shows "fst (CreateUser svc (Some m) ks ks' ce c) = StubOk CreateUserResp_Reset"
proof -
  have empty: "CreateUserResp_Unmarshal [] CreateUserResp_Reset = Inr CreateUserResp_Reset"
    by (simp add: CreateUserResp_Unmarshal_def unmarshal_with_def)
  show ?thesis
    using assms empty
    by (cases "pool_response (rcGroup c) (usName svc) (ceNow ce) (ceDials ce) (ceIntn ce) (rcConns c)")
      (auto simp: CreateUser_def call_message_def Client_Call_def NewRequest_def stub_result_def Let_def)
qed

theorem lost_call_looks_empty_witness:
  "fst (CreateUser (NewUserService (str ''gffg-test'')) (Some (example_request 7)) [] [] demo_call_env demo_rpc_client) =
     StubOk CreateUserResp_Reset"
proof -
  have "CreateUserReq_Marshal (example_request 7) [] [] = Some (enc_CreateUserReq (example_request 7) [])"
    by (rule CreateUserReq_Marshal_enc) (simp_all add: example_request_def range_order_def)
  from lost_call_looks_empty [OF this] demo_connects show ?thesis
    by (simp add: demo_call_env_def demo_rpc_client_def)
qed

text \<open>C25. No byte string makes the server's side of the stubs panic while it decodes: bytes that are no request are answered with an error, whatever they are,
  and so are bytes that are no response on the client's side. (The codec of the framework's own messages does panic, on twelve bytes.)\<close>
theorem Unmarshal_never_panics:
  assumes "go_slice d"
  shows "Authorize_Unmarshal d a \<noteq> Inl GoPanic \<and> CreateUserReq_Unmarshal d cq \<noteq> Inl GoPanic \<and> UserInfoReq_Unmarshal d uq \<noteq> Inl GoPanic \<and>
    CreateUserResp_Unmarshal d cr \<noteq> Inl GoPanic \<and> UserInfoResp_Unmarshal d ur \<noteq> Inl GoPanic"
  using Authorize_Unmarshal_safe [OF assms] CreateUserReq_Unmarshal_safe [OF assms] UserInfoReq_Unmarshal_safe [OF assms]
    CreateUserResp_Unmarshal_safe [OF assms] UserInfoResp_Unmarshal_safe [OF assms] by blast

theorem Unmarshal_never_panics_witness:
  "CreateUserResp_Unmarshal [0x1a, 0x0a, 0x1a, 0xf5, 0xff, 0xff, 0xff, 0xff, 0xff, 0xff, 0xff, 0x7f] CreateUserResp_Reset \<noteq> Inl GoPanic"
  using Unmarshal_never_panics [of "[0x1a, 0x0a, 0x1a, 0xf5, 0xff, 0xff, 0xff, 0xff, 0xff, 0xff, 0xff, 0x7f]"]
  by (simp add: go_slice_def)

text \<open>C40. The test for a wrapped index, which a later version of the generator added, changes nothing else: on every input the two decoders of a map
  field accept the same bytes, with the same entry and the same end.\<close>
theorem map_fields_agree:
  assumes "go_slice d" "0 \<le> i"
  shows "map_field_checked upd wt d i m = Inr r \<longleftrightarrow> map_field upd wt d i m = Inr r"
proof
  assume checked: "map_field_checked upd wt d i m = Inr r"
  have "map_entry_loop n d post j k v = Inr e"
    if "read_len d i = Inr (j, post)" "map_entry_checked n d post j k v = Inr e" for n j post k v e
    using map_entry_checked_agrees [of post n d j k v] read_len_progress [OF that(1) assms(1)] that(2) by auto
  with checked show "map_field upd wt d i m = Inr r"
    by (fastforce simp: map_field_def map_field_checked_def r_iffs)
qed (rule map_field_checked_Inr [OF _ assms(2,1)])

theorem map_fields_agree_witness:
  "map_field_checked (\<lambda>k v _. (k, v)) 2 [6, 0x0a, 1, 7, 0x12, 1, 8] 0 ([], []) = Inr (([7], [8]), 7)"
proof -
  have "(case map_field (\<lambda>k v _. (k, v)) 2 [6, 0x0a, 1, 7, 0x12, 1, 8] 0 ([], []) of Inl _ \<Rightarrow> False | Inr r \<Rightarrow> r = (([7], [8]), 7))"
    by code_simp
  then have "map_field (\<lambda>k v _. (k, v)) 2 [6, 0x0a, 1, 7, 0x12, 1, 8] 0 ([], []) = Inr (([7], [8]), 7)"
    by (simp split: sum.splits)
  then show ?thesis
    using map_fields_agree [of "[6, 0x0a, 1, 7, 0x12, 1, 8]" 0 "\<lambda>k v _. (k, v)" 2 "([], [])"] by (simp add: go_slice_def)
qed

end
