(* ===== verification/Server_Lifecycle.thy ===== *)
theory Server_Lifecycle
  imports Server
begin

text \<open>
  What the management centre holds over the life of a server. The interface is the part of \<open>IRegistry\<close> a server uses, announcing
  an address and withdrawing it; the model of \<open>registry/registry.go\<close> provides it, and \<open>Run\<close> and \<open>Release\<close>
  of \<open>server/server.go\<close> rely on it.
\<close>

section \<open>What is registered\<close>

text \<open>The instances that are registered after a sequence of requests.\<close>

fun live :: "polaris_call list \<Rightarrow> instance_req set \<Rightarrow> instance_req set" where
  "live [] L = L"
| "live (PRegister q # cs) L = live cs (insert (rrInstance q) L)"
| "live (PDeregister i # cs) L = live cs (L - {i})"
| "live (_ # cs) L = live cs L"

lemma live_append: "live (cs @ ds) L = live ds (live cs L)"
  by (induction cs L rule: live.induct) simp_all

section \<open>The interface\<close>

locale service_registry =
  fixes announce :: "bytes \<Rightarrow> 'r \<Rightarrow> 'r reg_out"
    and withdraw :: "'r \<Rightarrow> unit reg_out"
    and ready :: "'r \<Rightarrow> bool"
    and addr_of :: "'r \<Rightarrow> bytes"
    and entry :: "'r \<Rightarrow> bytes \<Rightarrow> instance_req"
  assumes announce_adds: "ready r \<Longrightarrow> announce a r = Returns r' cs \<Longrightarrow>
      ready r' \<and> addr_of r' = a \<and> entry r' = entry r \<and> live cs L = insert (entry r a) L"
    and withdraw_removes: "ready r \<Longrightarrow> withdraw r = Returns u cs \<Longrightarrow> live cs L = L - {entry r (addr_of r)}"
    and withdraw_announced: "ready r \<Longrightarrow> announce a r = Returns r' cs \<Longrightarrow> \<exists>cs'. withdraw r' = Returns () cs'"
begin

text \<open>Announcing and withdrawing leaves what was there before, less the entry itself, and withdrawing does not fail then.\<close>

lemma announce_withdraw:
  assumes "ready r" "announce a r = Returns r' cs"
  shows "\<exists>cs'. withdraw r' = Returns () cs' \<and> entry r a \<in> live cs L \<and> live (cs @ cs') L = L - {entry r a}"
proof -
  obtain cs' where w: "withdraw r' = Returns () cs'" using withdraw_announced [OF assms] by blast
  note a = announce_adds [OF assms]
  have "live cs' (live cs L) = live cs L - {entry r a}"
    using withdraw_removes [OF _ w] a by simp
  with w a show ?thesis by (auto simp: live_append)
qed

end

text \<open>A registry that is a provider, for addresses with a host and a port. The entry of an address that has none is never used.\<close>

definition registry_ready :: "registry \<Rightarrow> bool" where
  "registry_ready r \<longleftrightarrow> rgProvider r \<and> rgNode r \<noteq> None"

definition registry_entry :: "registry \<Rightarrow> bytes \<Rightarrow> instance_req" where
  "registry_entry r addr = instance_of (the (rgNode r)) (case host_port addr of Some hp \<Rightarrow> hp | None \<Rightarrow> ([], 0))"

lemma live_destroyed:
  "live ((if a then [PDestroyProvider] else []) @ (if b then [PDestroyConsumer] else []) @ (if c then [PDestroyLimiter] else [])) L = L"
  by simp

interpretation polaris: service_registry "\<lambda>a. registry_Register accepted a protocl" registry_Destroy registry_ready rgAddr registry_entry
  for accepted protocl
proof unfold_locales
  fix r r' a L and cs :: "polaris_call list"
  assume ready: "registry_ready r" and ann: "registry_Register accepted a protocl r = Returns r' cs"
  then obtain n hp where "rgNode r = Some n" "host_port a = Some hp" "r' = r\<lparr>rgAddr := a\<rparr>"
    "live cs L = insert (instance_of n hp) L"
    by (auto simp: registry_ready_def registry_Register_def Let_def split: option.splits if_splits)
  then show "registry_ready r' \<and> rgAddr r' = a \<and> registry_entry r' = registry_entry r \<and>
      live cs L = insert (registry_entry r a) L"
    using ready by (simp add: registry_ready_def registry_entry_def fun_eq_iff)
next
  fix r L u and cs :: "polaris_call list"
  assume "registry_ready r" "registry_Destroy r = Returns u cs"
  then obtain n hp where "rgNode r = Some n" "host_port (rgAddr r) = Some hp"
    "cs = PDeregister (instance_of n hp) # (if rgProvider r then [PDestroyProvider] else []) @
       (if rgConsumer r then [PDestroyConsumer] else []) @ (if rgLimiter r then [PDestroyLimiter] else [])"
    by (auto simp: registry_ready_def registry_Destroy_def registry_deregister_def
        split: option.splits if_splits reg_out.splits)
  then show "live cs L = L - {registry_entry r (rgAddr r)}"
    by (simp add: registry_entry_def)
next
  fix r r' a and cs :: "polaris_call list"
  assume "registry_ready r" "registry_Register accepted a protocl r = Returns r' cs"
  then show "\<exists>cs'. registry_Destroy r' = Returns () cs'"
    by (auto simp: registry_ready_def registry_Register_def registry_Destroy_def registry_deregister_def Let_def
        split: option.splits if_splits)
qed

section \<open>Addresses\<close>

text \<open>The address \<open>listen\<close> makes of a host and a port is taken apart into the two.\<close>

lemma host_port_printed:
  assumes "58 \<notin> set host" "n < 2 ^ 63"
  shows "host_port (host @ 58 # show_nat n) = Some (host, int n)"
proof -
  have "58 \<notin> set (show_nat n)" using show_nat_digits [of 58 n] by (auto simp: word_le_def)
  then have "split_on 58 (host @ 58 # show_nat n) = [host, show_nat n]"
    using assms(1) by (simp add: split_on_append split_on_none)
  moreover have "Atoi (show_nat n) = (int n, True)"
    using Atoi_show [of "int n"] assms(2) by (simp add: show_int_def in_int64_def)
  ultimately show ?thesis by (simp add: host_port_def)
qed

text \<open>A listener that opens announces itself to the server.\<close>

lemma Server_Run_opens:
  "\<exists>btl. \<not> liShutdown btl \<and> Server_Run fmt (\<lambda>_. True) split addrs accepted opts s =
     (case Server_listen split addrs accepted s of
        Returns (s, _) cs \<Rightarrow> Returns (s\<lparr>svSock := Some btl, svWorkers := nat (svCoroutines s)\<rparr>) cs
      | Exits cs \<Rightarrow> Exits cs
      | RegPanics cs \<Rightarrow> RegPanics cs)"
proof -
  let ?config = "fold (\<lambda>f c. f c) opts (server_options_zero\<lparr>soBind := str ''0.0.0.0'', soPort := 0\<rparr>)"
  let ?opts = "[MaxMessageSize (2 ^ 20), EnableLogging True, Address (fmt (soBind ?config) (soPort ?config)),
    Event server_events, Ctx 0]"
  have "evListen (event (initOpts ?opts))"
    by (simp add: initOpts_def MaxMessageSize_def EnableLogging_def Address_def Event_def Ctx_def server_events_def)
  then obtain btl where "NewListener (\<lambda>_. True) ?opts = Some btl" "TListen \<in> set (liTrace btl)" "\<not> liShutdown btl"
    by (rule NewListener_opens) simp
  then show ?thesis by (intro exI [of _ btl]) (auto simp: Server_Run_def Let_def split: reg_out.split)
qed

lemma Server_listen_registers:
  assumes "registry_ready (svRegistry s)" "58 \<notin> set (first_ipv4 ifs)" "n < 2 ^ 63"
  obtains r req where
    "Server_listen (Some (h, show_nat n)) (Some ifs) True s =
       Returns (s\<lparr>svAddrs := first_ipv4 ifs @ 58 # show_nat n, svRegistry := r\<rparr>, False) [PRegister req]"
    and "registry_Register True (first_ipv4 ifs @ 58 # show_nat n) (str ''rpc'') (svRegistry s) = Returns r [PRegister req]"
    and "rrInstance req = instance_of (the (rgNode (svRegistry s))) (first_ipv4 ifs, int n)"
  using assms host_port_printed [OF assms(2,3)]
  by (auto simp: Server_listen_def GetEthIp_def registry_Register_def registry_ready_def Let_def)

text \<open>Running and releasing a server whose registry is ready.\<close>

lemma run_release:
  assumes "registry_ready (svRegistry s)" "58 \<notin> set (first_ipv4 ifs)" "n < 2 ^ 63"
  shows "\<exists>s1 req s2 cs.
     Server_Run fmt (\<lambda>_. True) (Some (h, show_nat n)) (Some ifs) True opts s = Returns s1 [PRegister req] \<and>
     rrInstance req = instance_of (the (rgNode (svRegistry s))) (first_ipv4 ifs, int n) \<and>
     svWorkers s1 = nat (svCoroutines s) \<and> live [PRegister req] {} = {rrInstance req} \<and>
     Server_Release s1 = Returns s2 cs \<and> svCancelled s2 \<and> live (PRegister req # cs) {} = {}"
proof -
  from Server_listen_registers [OF assms, of h] obtain r req where
    lis: "Server_listen (Some (h, show_nat n)) (Some ifs) True s =
       Returns (s\<lparr>svAddrs := first_ipv4 ifs @ 58 # show_nat n, svRegistry := r\<rparr>, False) [PRegister req]"
    and reg: "registry_Register True (first_ipv4 ifs @ 58 # show_nat n) (str ''rpc'') (svRegistry s) = Returns r [PRegister req]"
    and req: "rrInstance req = instance_of (the (rgNode (svRegistry s))) (first_ipv4 ifs, int n)" .
  obtain btl where btl: "\<not> liShutdown btl" "Server_Run fmt (\<lambda>_. True) (Some (h, show_nat n)) (Some ifs) True opts s =
      Returns (s\<lparr>svAddrs := first_ipv4 ifs @ 58 # show_nat n, svRegistry := r, svSock := Some btl,
        svWorkers := nat (svCoroutines s)\<rparr>) [PRegister req]"
    using Server_Run_opens [of fmt "Some (h, show_nat n)" "Some ifs" True opts s] lis by auto
  obtain cs where cs: "registry_Destroy r = Returns () cs" "live ([PRegister req] @ cs) {} = {}"
    using polaris.announce_withdraw [OF assms(1) reg, of "{}"] by auto
  then show ?thesis
    using btl req by (simp add: Server_Release_def Listener_Close_def)
qed

text \<open>And one that never listened, with a registry that has no address.\<close>

lemma not_listening_release:
  assumes "registry_ready (svRegistry s)" "rgAddr (svRegistry s) = []"
    and "Server_Run fmt can_listen split addrs accepted opts s = Returns s1 cs1"
    and "can_listen = (\<lambda>_. False) \<or> split = None \<or> addrs = None"
  shows "cs1 = [] \<and> Server_Release s1 = RegPanics []"
proof -
  have "cs1 = [] \<and> svRegistry s1 = svRegistry s"
    using assms(3,4)
    by (auto simp: Server_Run_def NewListener_def openSocket_def Server_listen_def GetEthIp_def Let_def
        split: if_splits option.splits)
  moreover have "registry_Destroy (svRegistry s) = RegPanics []"
    using assms(1,2) by (auto simp: registry_ready_def registry_Destroy_def registry_deregister_def host_port_def)
  ultimately show ?thesis by (simp add: Server_Release_def)
qed

lemma NewServer_ready: "NewServer fo get ok opts = Returns s cs \<Longrightarrow> registry_ready (svRegistry s)"
  using NewServer_state by (fastforce simp: registry_ready_def)

lemma NewServer_no_addr: "NewServer fo get ok [] = Returns s cs \<Longrightarrow> rgAddr (svRegistry s) = []"
  by (auto simp: NewServer_def registry_Provider_def Registry_def server_options_zero_def Let_def split: if_splits)

section \<open>Properties\<close>



text \<open>A server whose \<open>Run\<close> could not listen, or listened on a host without an address, was never registered: its registry has
  no address, and \<open>Release\<close> panics on the missing port, before the context is cancelled.\<close>
theorem release_unregistered_panics:
  assumes "NewServer fo get ok [] = Returns s cs0"
    and "Server_Run fmt can_listen split addrs accepted opts s = Returns s1 cs1"
    and "can_listen = (\<lambda>_. False) \<or> split = None \<or> addrs = None"
  shows "cs1 = [] \<and> Server_Release s1 = RegPanics []"
  by (rule not_listening_release [OF NewServer_ready [OF assms(1)] NewServer_no_addr [OF assms(1)] assms(2,3)])

theorem release_unregistered_panics_witness: "Server_Release (demo_server 100) = RegPanics []"
  using release_unregistered_panics [OF demo_NewServer [of 100 undefined], of "\<lambda>_ _. []" "\<lambda>_. False" None None True "[]"]
  by (simp add: Server_Run_def NewListener_def openSocket_def)

end
