(* ===== verification/Zzlog.thy ===== *)
theory Zzlog
  imports Go_Prelude
begin

text \<open>
  The log functions of \<open>zzlog/logger.go\<close> and \<open>zzlog/options.go\<close>: which logger is in force, and what the package's functions ask of
  it. The library \<open>zap\<close> is a parameter: which texts name a level (\<open>ParseLevel\<close>); what a logger does with an event is its business.
\<close>

section \<open>Options\<close>

record log_options =
  loLevel :: bytes
  loLogName :: bytes

definition WithLevel :: "bytes \<Rightarrow> log_options \<Rightarrow> log_options" where
  "WithLevel level args = args\<lparr>loLevel := level\<rparr>"

definition WithLogName :: "bytes \<Rightarrow> log_options \<Rightarrow> log_options" where
  "WithLogName logName args = args\<lparr>loLogName := logName\<rparr>"

definition log_initOpts :: "(log_options \<Rightarrow> log_options) list \<Rightarrow> log_options" where
  "log_initOpts opts = fold (\<lambda>f o'. f o') opts \<lparr>loLevel = [], loLogName = []\<rparr>"

section \<open>The logger in force\<close>

datatype log_level = DebugLevel | InfoLevel | WarnLevel | ErrorLevel | DPanicLevel | PanicLevel | FatalLevel

text \<open>The production logger of \<open>init\<close>, or one that writes JSON to the standard output and a rotated file: 16 megabytes, three
  compressed backups, seven days.\<close>

record log_file =
  lfName :: bytes
  lfMaxSize :: nat
  lfMaxBackups :: nat
  lfMaxAge :: nat
  lfCompress :: bool

datatype logger = Production | FileLogger log_file log_level

definition log_init :: logger where
  "log_init = Production"

definition log_Init :: "(bytes \<Rightarrow> log_level option) \<Rightarrow> (log_options \<Rightarrow> log_options) list \<Rightarrow> logger \<Rightarrow> logger" where
  "log_Init ParseLevel opts defLogger =
     (let opt = log_initOpts opts
      in if length (loLogName opt) = 0 then defLogger
         else (let level = (case ParseLevel (loLevel opt) of Some l \<Rightarrow> l | None \<Rightarrow> InfoLevel);
                   jacklog = \<lparr>lfName = loLogName opt, lfMaxSize = 16, lfMaxBackups = 3, lfMaxAge = 7, lfCompress = True\<rparr>
               in FileLogger jacklog level))"

section \<open>The functions\<close>

text \<open>Each of the seven levels has four functions: plain, with a template, with a line end, and with keys and values. Each hands its
  arguments to the method of the same name of the logger in force, recorded here.\<close>

datatype log_form = Plain | Formatted | Line | Keyed

record 'a log_event =
  leLogger :: logger
  leLevel :: log_level
  leForm :: log_form
  leText :: bytes
  leArgs :: "'a list"

definition log_write :: "log_level \<Rightarrow> log_form \<Rightarrow> bytes \<Rightarrow> 'a list \<Rightarrow> logger \<Rightarrow> 'a log_event" where
  "log_write level form text args defLogger =
     \<lparr>leLogger = defLogger, leLevel = level, leForm = form, leText = (if form = Plain \<or> form = Line then [] else text), leArgs = args\<rparr>"

section \<open>Lemmas\<close>

text \<open>With a file, every function logs to that file from the given level on, from \<open>info\<close> on when the level is none of zap's; without one the
  logger that was in force stays, so that an earlier \<open>Init\<close> is not undone.\<close>

lemma log_configured:
  "leLogger (log_write l form text args (log_Init ParseLevel [WithLogName file, WithLevel level] defLogger)) =
     (if file = [] then defLogger
      else FileLogger \<lparr>lfName = file, lfMaxSize = 16, lfMaxBackups = 3, lfMaxAge = 7, lfCompress = True\<rparr>
        (case ParseLevel level of None \<Rightarrow> InfoLevel | Some l' \<Rightarrow> l'))"
  by (simp add: log_write_def log_Init_def log_initOpts_def WithLogName_def WithLevel_def)

lemma log_options_last_wins: "log_initOpts (opts @ [WithLevel l]) = (log_initOpts opts)\<lparr>loLevel := l\<rparr>"
  by (simp add: log_initOpts_def WithLevel_def)

end
