(* ===== verification/Kafka.thy ===== *)
theory Kafka
  imports Go_Strings Go_Chan
begin

text \<open>
  The Kafka producer and consumer of \<open>kafka/product.go\<close>, \<open>kafka/consumer.go\<close> and \<open>kafka/options.go\<close>: their options, the
  messages a producer sends, and \<open>Consume\<close>, which opens every partition of the topic and runs one goroutine for each until an error or
  an interrupt. The goroutines run while the next partitions are being opened: the consumer is a step relation. The library \<open>sarama\<close> is a parameter: whether it connects, the partitions of a topic, which of them open,
  and what they deliver.
\<close>

section \<open>Options\<close>

record kafka_options =
  koTopic :: bytes
  koGroup :: bytes
  koBrokers :: bytes
  koCtx :: "nat option"

definition KafkaTopic :: "bytes \<Rightarrow> kafka_options \<Rightarrow> kafka_options" where
  "KafkaTopic topic c = c\<lparr>koTopic := topic\<rparr>"

definition KafkaGroup :: "bytes \<Rightarrow> kafka_options \<Rightarrow> kafka_options" where
  "KafkaGroup grp c = c\<lparr>koGroup := grp\<rparr>"

definition KafkaBrokers :: "bytes \<Rightarrow> kafka_options \<Rightarrow> kafka_options" where
  "KafkaBrokers brokers c = c\<lparr>koBrokers := brokers\<rparr>"

definition KafkaCtx :: "nat \<Rightarrow> kafka_options \<Rightarrow> kafka_options" where
  "KafkaCtx ctx c = c\<lparr>koCtx := Some ctx\<rparr>"

definition kafka_opts :: "(kafka_options \<Rightarrow> kafka_options) list \<Rightarrow> kafka_options" where
  "kafka_opts opts = fold (\<lambda>f c. f c) opts \<lparr>koTopic = [], koGroup = [], koBrokers = [], koCtx = None\<rparr>"

section \<open>The producer\<close>

text \<open>The settings \<open>NewProduct\<close> asks for: acknowledgement by all replicas, ten retries, and reported successes.\<close>

record producer_cfg =
  kcBrokers :: "bytes list"
  kcAllAcks :: bool
  kcRetries :: nat
  kcSuccesses :: bool

text \<open>\<open>None\<close> is the panic when the library does not connect.\<close>

definition NewProduct :: "(producer_cfg \<Rightarrow> bool) \<Rightarrow> (kafka_options \<Rightarrow> kafka_options) list \<Rightarrow> kafka_options option" where
  "NewProduct connects opts =
     (let opt = kafka_opts opts;
          kc = \<lparr>kcBrokers = split_on 44 (koBrokers opt), kcAllAcks = True, kcRetries = 10, kcSuccesses = True\<rparr>
      in if connects kc then Some opt else None)"

text \<open>\<open>Product\<close>: the topic and value given to the library, and its error.\<close>

definition Product :: "(bytes \<times> bytes \<Rightarrow> bytes option) \<Rightarrow> kafka_options \<Rightarrow> bytes \<Rightarrow> (bytes \<times> bytes) \<times> bytes option" where
  "Product send opts message = (let m = (koTopic opts, message) in (m, send m))"

section \<open>The consumer\<close>

definition NewConsumer :: "(bytes list \<Rightarrow> bool) \<Rightarrow> (kafka_options \<Rightarrow> kafka_options) list \<Rightarrow> kafka_options option" where
  "NewConsumer connects opts =
     (let opt = kafka_opts opts in if connects (split_on 44 (koBrokers opt)) then Some opt else None)"

text \<open>What the callbacks are called with: an error, or a message with its partition, offset and value.\<close>

datatype consumer_cb = CbError bytes | CbMessage nat nat bytes

text \<open>\<open>cuTodo\<close> says where \<open>Consume\<close> is: \<open>Some ps\<close> while it has the partitions \<open>ps\<close> still to open, so that \<open>Some []\<close> is \<open>wg.Wait\<close>; \<open>None\<close> once
  it has returned. \<open>cuParts\<close> are the partitions that were opened, \<open>cuRunning\<close> their goroutines, running or returned. A signal that arrives
  is kept in a channel with room for one; \<open>cuInterrupts\<close> counts them all. \<open>cuClosed\<close> are the partitions closed at the end.\<close>

record consumer_state =
  cuTodo :: "nat list option"
  cuParts :: "nat list"
  cuRunning :: "bool list"
  cuSignals :: "unit chan"
  cuInterrupts :: nat
  cuClosed :: "nat list"
  cuCalls :: "consumer_cb list"

definition Consume :: "bytes + nat list \<Rightarrow> consumer_state" where
  "Consume partitions =
     \<lparr>cuTodo = (case partitions of Inl err \<Rightarrow> None | Inr ps \<Rightarrow> Some ps), cuParts = [], cuRunning = [], cuSignals = make_chan 1,
      cuInterrupts = 0, cuClosed = [], cuCalls = (case partitions of Inl err \<Rightarrow> [CbError err] | Inr ps \<Rightarrow> [])\<rparr>"

text \<open>The notification of a signal never blocks: one that finds the channel full is lost.\<close>

definition notify_signal :: "unit chan \<Rightarrow> unit chan" where
  "notify_signal q = (case chan_send q () of Done q' \<Rightarrow> q' | _ \<Rightarrow> q)"

text \<open>The steps after that; \<open>failing\<close> gives the error of a partition that does not open.\<close>

inductive consumer_step :: "(nat \<Rightarrow> bytes option) \<Rightarrow> consumer_state \<Rightarrow> consumer_state \<Rightarrow> bool" for failing where
  part_opens:
    "cuTodo s = Some (p # ps) \<Longrightarrow> failing p = None \<Longrightarrow>
     consumer_step failing s (s\<lparr>cuTodo := Some ps, cuParts := cuParts s @ [p], cuRunning := cuRunning s @ [True]\<rparr>)"
| part_fails:
    "cuTodo s = Some (p # ps) \<Longrightarrow> failing p = Some err \<Longrightarrow>
     consumer_step failing s (s\<lparr>cuTodo := None, cuCalls := cuCalls s @ [CbError err]\<rparr>)"
| message:
    "i < length (cuRunning s) \<Longrightarrow> cuRunning s ! i \<Longrightarrow>
     consumer_step failing s (s\<lparr>cuCalls := cuCalls s @ [CbMessage (cuParts s ! i) off val]\<rparr>)"
| part_error:
    "i < length (cuRunning s) \<Longrightarrow> cuRunning s ! i \<Longrightarrow>
     consumer_step failing s (s\<lparr>cuCalls := cuCalls s @ [CbError err], cuRunning := (cuRunning s)[i := False]\<rparr>)"
| interrupt:
    "consumer_step failing s (s\<lparr>cuSignals := notify_signal (cuSignals s), cuInterrupts := Suc (cuInterrupts s)\<rparr>)"
| take_signal:
    "i < length (cuRunning s) \<Longrightarrow> cuRunning s ! i \<Longrightarrow> chan_recv (cuSignals s) = Done (Some u, q) \<Longrightarrow>
     consumer_step failing s (s\<lparr>cuSignals := q, cuRunning := (cuRunning s)[i := False]\<rparr>)"
| wait_done:
    "cuTodo s = Some [] \<Longrightarrow> True \<notin> set (cuRunning s) \<Longrightarrow>
     consumer_step failing s (s\<lparr>cuTodo := None, cuClosed := cuClosed s @ cuParts s\<rparr>)"

abbreviation consumer_steps :: "(nat \<Rightarrow> bytes option) \<Rightarrow> consumer_state \<Rightarrow> consumer_state \<Rightarrow> bool" where
  "consumer_steps failing \<equiv> (consumer_step failing)\<^sup>*\<^sup>*"

section \<open>Lemmas\<close>

text \<open>The goroutines that have returned, and the errors that were reported.\<close>

definition returned :: "bool list \<Rightarrow> nat" where
  "returned rs = length (filter Not rs)"

definition errors :: "consumer_cb list \<Rightarrow> nat" where
  "errors cs = length (filter (\<lambda>c. case c of CbError _ \<Rightarrow> True | _ \<Rightarrow> False) cs)"

lemma returned_stop: "i < length rs \<Longrightarrow> rs ! i \<Longrightarrow> returned (rs[i := False]) = Suc (returned rs)"
proof (induction rs arbitrary: i)
  case (Cons r rs)
  then show ?case by (cases i) (auto simp: returned_def)
qed simp

lemma notify_signal_length: "length (chBuf (notify_signal q)) \<le> Suc (length (chBuf q))"
  by (auto simp: notify_signal_def chan_send_def)

lemma all_returned: "True \<notin> set rs \<Longrightarrow> returned rs = length rs"
  by (induction rs) (auto simp: returned_def)

text \<open>When every partition opens: a goroutine returns for an error it reports or for an interrupt of its own, and \<open>Consume\<close> only after all of
  them, with the partitions closed.\<close>

definition consumer_inv :: "nat list \<Rightarrow> consumer_state \<Rightarrow> bool" where
  "consumer_inv ps s \<longleftrightarrow>
     length (cuRunning s) = length (cuParts s) \<and>
     returned (cuRunning s) + length (chBuf (cuSignals s)) \<le> cuInterrupts s + errors (cuCalls s) \<and>
     (case cuTodo s of
        Some qs \<Rightarrow> cuParts s @ qs = ps \<and> cuClosed s = []
      | None \<Rightarrow> cuParts s = ps \<and> True \<notin> set (cuRunning s) \<and> cuClosed s = ps)"

lemma consumer_inv_step:
  assumes "consumer_step failing s s'" "consumer_inv ps s" "\<And>p. p \<in> set ps \<Longrightarrow> failing p = None"
  shows "consumer_inv ps s'"
  using assms
proof (induction rule: consumer_step.induct)
  case (part_opens s p ps)
  then show ?case by (simp add: consumer_inv_def returned_def)
next
  case (part_fails s p qs err)
  then have "p \<in> set ps" by (auto simp: consumer_inv_def)
  with part_fails show ?case by simp
next
  case (message i s off val)
  then show ?case by (simp add: consumer_inv_def errors_def cong: option.case_cong)
next
  case (part_error i s err)
  then have "True \<in> set (cuRunning s)" by (metis nth_mem)
  with part_error returned_stop [of i "cuRunning s"] show ?case
    by (auto simp: consumer_inv_def errors_def split: option.splits)
next
  case (interrupt s)
  with notify_signal_length [of "cuSignals s"] show ?case
    by (simp add: consumer_inv_def cong: option.case_cong)
next
  case (take_signal i s u q)
  then have "True \<in> set (cuRunning s)" by (metis nth_mem)
  with take_signal returned_stop [of i "cuRunning s"] show ?case
    by (auto simp: consumer_inv_def chan_recv_def split: list.splits if_splits option.splits)
next
  case (wait_done s)
  then show ?case by (simp add: consumer_inv_def)
qed

lemma consumer_inv_steps:
  assumes "consumer_steps failing (Consume (Inr ps)) s" "\<And>p. p \<in> set ps \<Longrightarrow> failing p = None"
  shows "consumer_inv ps s"
  using assms(1)
proof (induction rule: rtranclp_induct)
  case base
  show ?case by (simp add: Consume_def consumer_inv_def returned_def errors_def make_chan_def)
qed (use consumer_inv_step assms(2) in blast)

text \<open>When \<open>p\<close> is the first that does not open: the loop never gets past it.\<close>

definition leak_inv :: "nat list \<Rightarrow> nat \<Rightarrow> nat list \<Rightarrow> consumer_state \<Rightarrow> bool" where
  "leak_inv ps p qs s \<longleftrightarrow> cuClosed s = [] \<and>
     (case cuTodo s of None \<Rightarrow> cuParts s = ps | Some rs \<Rightarrow> cuParts s @ rs = ps @ p # qs \<and> Suc (length qs) \<le> length rs)"

lemma leak_first:
  assumes "xs @ r # rs = ps @ p # qs" "length qs \<le> length rs"
  shows "(r \<in> set ps \<and> Suc (length qs) \<le> length rs) \<or> (r = p \<and> xs = ps)"
proof (cases "length xs < length ps")
  case True
  from arg_cong [OF assms(1), of length] True have "Suc (length qs) \<le> length rs" by simp
  moreover from arg_cong [OF assms(1), of "\<lambda>zs. zs ! length xs"] True have "r = ps ! length xs" by (simp add: nth_append)
  with True have "r \<in> set ps" by simp
  ultimately show ?thesis by simp
next
  case False
  with arg_cong [OF assms(1), of length] assms(2) have "length xs = length ps" by simp
  with assms(1) show ?thesis by simp
qed

lemma leak_inv_step:
  assumes "consumer_step failing s s'" "leak_inv ps p qs s" "failing p = Some err" "\<And>q. q \<in> set ps \<Longrightarrow> failing q = None"
  shows "leak_inv ps p qs s'"
  using assms
proof (induction rule: consumer_step.induct)
  case (part_opens s r rs)
  with leak_first [of "cuParts s" r rs ps p qs] show ?case by (auto simp: leak_inv_def)
next
  case (part_fails s r rs e)
  with leak_first [of "cuParts s" r rs ps p qs] show ?case by (auto simp: leak_inv_def)
next
  case (message i s off val)
  then show ?case by (simp add: leak_inv_def cong: option.case_cong)
next
  case (part_error i s err)
  then show ?case by (simp add: leak_inv_def cong: option.case_cong)
next
  case (interrupt s)
  then show ?case by (simp add: leak_inv_def cong: option.case_cong)
next
  case (take_signal i s u q)
  then show ?case by (simp add: leak_inv_def cong: option.case_cong)
next
  case (wait_done s)
  then show ?case by (simp add: leak_inv_def)
qed

section \<open>Properties\<close>

text \<open>When \<open>p\<close> is the first that does not open, whatever happens afterwards, no partition is ever closed.\<close>

lemma leak_inv_steps:
  assumes "failing p = Some err" "\<And>q. q \<in> set ps \<Longrightarrow> failing q = None"
    and "consumer_steps failing (Consume (Inr (ps @ p # qs))) s"
  shows "leak_inv ps p qs s"
  using assms(3)
proof (induction rule: rtranclp_induct)
  case base
  show ?case by (simp add: Consume_def leak_inv_def)
qed (use leak_inv_step assms(1,2) in blast)

text \<open>C38. One interrupt ends one goroutine: on a topic whose partitions all open, \<open>Consume\<close> does not return before as many
  errors and interrupts together have come in as there are partitions, and when it returns it has closed them all. So a single
  interrupt leaves the consumer of a topic with two partitions running. When some partition does not open, no partition is ever
  closed: those before it stay open.\<close>
theorem Consume_needs_interrupts:
  assumes "consumer_steps failing (Consume (Inr ps)) s"
  shows "((\<forall>p \<in> set ps. failing p = None) \<longrightarrow>
      (cuInterrupts s + errors (cuCalls s) < length ps \<longrightarrow> cuTodo s \<noteq> None) \<and> (cuTodo s = None \<longrightarrow> cuClosed s = ps)) \<and>
    ((\<exists>p \<in> set ps. failing p \<noteq> None) \<longrightarrow> cuClosed s = [])"
proof (rule conjI [OF impI impI])
  assume "\<forall>p \<in> set ps. failing p = None"
  then have inv: "consumer_inv ps s" by (intro consumer_inv_steps [OF assms]) simp
  then have "length ps \<le> cuInterrupts s + errors (cuCalls s)" if "cuTodo s = None"
    using that all_returned [of "cuRunning s"] by (simp add: consumer_inv_def)
  then have "cuInterrupts s + errors (cuCalls s) < length ps \<longrightarrow> cuTodo s \<noteq> None" by (metis not_less)
  moreover from inv have "cuTodo s = None \<longrightarrow> cuClosed s = ps" by (auto simp: consumer_inv_def)
  ultimately show "(cuInterrupts s + errors (cuCalls s) < length ps \<longrightarrow> cuTodo s \<noteq> None) \<and> (cuTodo s = None \<longrightarrow> cuClosed s = ps)" ..
next
  assume "\<exists>p \<in> set ps. failing p \<noteq> None"
  then obtain xs p ys err where "ps = xs @ p # ys" "failing p = Some err" "\<forall>q \<in> set xs. failing q = None"
    using split_list_first_prop [of ps "\<lambda>p. failing p \<noteq> None"] by auto
  then have "leak_inv xs p ys s" using leak_inv_steps [of failing p err xs ys s] assms by simp
  then show "cuClosed s = []" by (simp add: leak_inv_def)
qed

text \<open>Two partitions and one interrupt, which the first goroutine has taken.\<close>

definition demo_consumer :: consumer_state where
  "demo_consumer = (Consume (Inr [0, 1]))\<lparr>cuTodo := Some [], cuParts := [0, 1], cuRunning := [False, True], cuInterrupts := 1\<rparr>"

lemma demo_consumer_reached: "consumer_steps (\<lambda>_. None) (Consume (Inr [0, 1])) demo_consumer"
proof -
  let ?f = "\<lambda>_. None"
  let ?s0 = "Consume (Inr [0, 1])"
  let ?s1 = "?s0\<lparr>cuTodo := Some [1], cuParts := [0], cuRunning := [True]\<rparr>"
  let ?s2 = "?s1\<lparr>cuTodo := Some [], cuParts := [0, 1], cuRunning := [True, True]\<rparr>"
  let ?s3 = "?s2\<lparr>cuSignals := (make_chan 1)\<lparr>chBuf := [()]\<rparr>, cuInterrupts := 1\<rparr>"
  have "consumer_step ?f ?s0 ?s1" using part_opens [of ?s0 0 "[1]" ?f] by (simp add: Consume_def)
  moreover have "consumer_step ?f ?s1 ?s2" using part_opens [of ?s1 1 "[]" ?f] by (simp add: Consume_def)
  moreover have "consumer_step ?f ?s2 ?s3" using interrupt [of ?f ?s2] by (simp add: Consume_def make_chan_def chan_send_def notify_signal_def)
  moreover have "consumer_step ?f ?s3 demo_consumer"
    using take_signal [of 0 ?s3 "()" "make_chan 1" ?f]
    by (simp add: Consume_def make_chan_def chan_recv_def demo_consumer_def)
  ultimately show ?thesis by (meson rtranclp.rtrancl_into_rtrancl rtranclp.rtrancl_refl)
qed

text \<open>Two partitions of which the second does not open.\<close>

definition second_fails :: "nat \<Rightarrow> bytes option" where
  "second_fails p = (if p = 1 then Some [7] else None)"

definition demo_leak :: consumer_state where
  "demo_leak = (Consume (Inr [0, 1]))\<lparr>cuTodo := None, cuParts := [0], cuRunning := [True], cuCalls := [CbError [7]]\<rparr>"

lemma demo_leak_reached: "consumer_steps second_fails (Consume (Inr [0, 1])) demo_leak"
proof -
  let ?s0 = "Consume (Inr [0, 1])"
  let ?s1 = "?s0\<lparr>cuTodo := Some [1], cuParts := [0], cuRunning := [True]\<rparr>"
  have "consumer_step second_fails ?s0 ?s1" using part_opens [of ?s0 0 "[1]" second_fails] by (simp add: Consume_def second_fails_def)
  moreover have "consumer_step second_fails ?s1 demo_leak"
    using part_fails [of ?s1 1 "[]" second_fails "[7]"] by (simp add: Consume_def second_fails_def demo_leak_def)
  ultimately show ?thesis by (meson rtranclp.rtrancl_into_rtrancl rtranclp.rtrancl_refl)
qed

theorem Consume_needs_interrupts_witness:
  "cuInterrupts demo_consumer = 1 \<and> cuTodo demo_consumer \<noteq> None \<and> cuTodo demo_leak = None \<and> cuClosed demo_leak = []"
  using Consume_needs_interrupts [OF demo_consumer_reached] Consume_needs_interrupts [OF demo_leak_reached]
  by (simp add: demo_consumer_def demo_leak_def Consume_def errors_def second_fails_def)

text \<open>A partition that does not open makes \<open>Consume\<close> return with the partitions before it open and their goroutines left to
  themselves: whatever happens afterwards, no partition is ever closed.\<close>
theorem Consume_leaks_partitions:
  assumes "failing p = Some err" "\<And>q. q \<in> set ps \<Longrightarrow> failing q = None"
    and "consumer_steps failing (Consume (Inr (ps @ p # qs))) s"
  shows "cuClosed s = [] \<and> (cuTodo s = None \<longrightarrow> cuParts s = ps) \<and> cuTodo s \<noteq> Some []"
  using leak_inv_steps [OF assms] by (auto simp: leak_inv_def)

theorem Consume_leaks_partitions_witness:
  "consumer_steps second_fails (Consume (Inr [0, 1])) demo_leak \<and> cuClosed demo_leak = []"
  using Consume_leaks_partitions [of second_fails 1 "[7]" "[0]" "[]" demo_leak] demo_leak_reached by (simp add: second_fails_def)

end
