(* ===== verification/Monitor.thy ===== *)
theory Monitor
  imports Packet_Metric Common Config Kafka
begin

text \<open>
  The client side of monitoring, \<open>metrics/metrics.go\<close> and \<open>metrics/options.go\<close>: the object behind the operations, which opens a Kafka
  producer when it is first used and panics when no broker answers; the four operations that build a metric, the channel they put it in,
  unless it is nearly full; and the loop that collects what arrived until the next
  tick, cuts it into batches and publishes each as an encoded \<open>Metrics\<close> message. The clock, the configured server name and the Kafka
  library are arguments: the result of publishing is only logged, so the model keeps what was given to it.
\<close>

section \<open>Building a metric\<close>

text \<open>The package variables, with the values they are given.\<close>

definition MaxCh :: nat where "MaxCh = 10000"
definition MaxPush :: nat where "MaxPush = 1000"

text \<open>The package variable \<open>Host\<close> and the configured name of the server.\<close>

record metrics_env =
  mvHost :: bytes
  mvServer :: bytes

text \<open>An option is a function on the record of options, which has one field.\<close>

type_synonym MetricOption = "bytes \<Rightarrow> bytes"

definition ServerName :: "bytes \<Rightarrow> MetricOption" where
  "ServerName s = (\<lambda>_. s)"

definition metric_server :: "metrics_env \<Rightarrow> MetricOption list \<Rightarrow> bytes" where
  "metric_server e opts =
     (let s = fold (\<lambda>f s. f s) opts [] in if length s = 0 then mvServer e else s)"

definition metrics_Counter :: "metrics_env \<Rightarrow> bytes \<Rightarrow> bytes \<Rightarrow> MetricOption list \<Rightarrow> Metric" where
  "metrics_Counter e ty value opts =
     Metric_Reset\<lparr>meType := MetricType_GaugeType,
       meGauge := Some (Gauge_Reset\<lparr>gaType := ty, gaValue := value, gaInc := True\<rparr>),
       meHost := mvHost e, meSvrname := metric_server e opts\<rparr>"

definition metrics_CounterByAdd :: "metrics_env \<Rightarrow> bytes \<Rightarrow> bytes \<Rightarrow> i64 \<Rightarrow> MetricOption list \<Rightarrow> Metric" where
  "metrics_CounterByAdd e ty value add opts =
     Metric_Reset\<lparr>meType := MetricType_GaugeType,
       meGauge := Some (Gauge_Reset\<lparr>gaType := ty, gaValue := value, gaAdd := add\<rparr>),
       meHost := mvHost e, meSvrname := metric_server e opts\<rparr>"

definition metrics_MethodCode :: "metrics_env \<Rightarrow> bytes \<Rightarrow> bytes \<Rightarrow> MetricOption list \<Rightarrow> Metric" where
  "metrics_MethodCode e method code opts =
     Metric_Reset\<lparr>meType := MetricType_CounterType,
       meCounter := Some (Counter_Reset\<lparr>ctMethod := method, ctCode := code\<rparr>),
       meHost := mvHost e, meSvrname := metric_server e opts\<rparr>"

text \<open>\<open>now\<close> is the clock in milliseconds; a clock that went backwards gives the duration 0.\<close>

definition metrics_Summary :: "metrics_env \<Rightarrow> bytes \<Rightarrow> i64 \<Rightarrow> i64 \<Rightarrow> MetricOption list \<Rightarrow> Metric" where
  "metrics_Summary e method startAt now opts =
     (let duration = now - startAt;
          duration = (if sint duration < 0 then 0 else duration)
      in Metric_Reset\<lparr>meType := MetricType_SummaryType,
           meSummary := Some (Summary_Reset\<lparr>smMethod := method\<rparr>),
           meMicro := duration, meHost := mvHost e, meSvrname := metric_server e opts\<rparr>)"

section \<open>The channel\<close>

text \<open>\<open>to\<close>: the length test, and the send behind it. Every goroutine that reports runs the two, so other actions come in between.\<close>

definition metrics_full :: "Metric chan \<Rightarrow> bool" where
  "metrics_full q \<longleftrightarrow> int MaxCh - 10 < int (length (chBuf q))"

definition metrics_send :: "Metric chan \<Rightarrow> Metric \<Rightarrow> Metric chan option" where
  "metrics_send q it = (case chan_send q it of Done q' \<Rightarrow> Some q' | _ \<Rightarrow> None)"

definition metrics_poll :: "Metric chan \<Rightarrow> (Metric \<times> Metric chan) option" where
  "metrics_poll q = (case chan_recv q of Done (Some x, q') \<Rightarrow> Some (x, q') | _ \<Rightarrow> None)"

section \<open>Batches\<close>

function (sequential) combine_loop :: "Metric option list \<Rightarrow> Metrics list" where
  "combine_loop its =
     (if MaxPush < length its
      then \<lparr>msLists = take MaxPush its, msUnrecognized = []\<rparr> # combine_loop (drop MaxPush its)
      else [\<lparr>msLists = its, msUnrecognized = []\<rparr>])"
  by pat_completeness auto

termination by (relation "measure length") (simp_all add: MaxPush_def)

declare combine_loop.simps [simp del]

text \<open>The batches \<open>combine\<close> reports, in order.\<close>

definition metrics_combine :: "Metric option list \<Rightarrow> Metrics list" where
  "metrics_combine its = (if its = [] then [] else combine_loop its)"

text \<open>
  \<open>report\<close> gives the encoding to the producer. The metrics built above have no map entries, so the loops over the
  maps run over nothing; \<open>None\<close> is a panic of \<open>Marshal\<close>.
\<close>

definition no_ranges :: Metric_ranges where
  "no_ranges = \<lparr>mrCounter = [], mrGauge = [], mrSummary = [], mrExtra = []\<rparr>"

definition metrics_report :: "Metrics \<Rightarrow> bytes list \<Rightarrow> bytes list option" where
  "metrics_report it sent =
     (case Metrics_Marshal it (\<lambda>_. no_ranges) (\<lambda>_. no_ranges) of
        None \<Rightarrow> None
      | Some buffer \<Rightarrow> Some (sent @ [buffer]))"

fun metrics_report_all :: "Metrics list \<Rightarrow> bytes list \<Rightarrow> bytes list option" where
  "metrics_report_all [] sent = Some sent"
| "metrics_report_all (b # bs) sent =
     (case metrics_report b sent of None \<Rightarrow> None | Some sent \<Rightarrow> metrics_report_all bs sent)"

section \<open>The object\<close>

text \<open>The producer, the channel with the goroutines that are about to send, what the loop has collected since the last tick, and what was given to the
  producer.\<close>

record metrics =
  mtPub :: kafka_options
  mtGate :: "(Metric chan, Metric) gate"
  mtLists :: "Metric option list"
  mtSent :: "bytes list"

definition metrics_new :: "kafka_options \<Rightarrow> metrics" where
  "metrics_new pub = \<lparr>mtPub = pub, mtGate = gate_init (make_chan MaxCh), mtLists = [], mtSent = []\<rparr>"

text \<open>The package's variables: whether \<open>once\<close> has run, and \<open>_m\<close>. A panic of \<open>NewProduct\<close> counts as a run, and leaves \<open>_m\<close> nil.\<close>

record metrics_vars =
  mvOnce :: bool
  mvObj :: "metrics option"

definition metrics_vars_zero :: metrics_vars where
  "metrics_vars_zero = \<lparr>mvOnce = False, mvObj = None\<rparr>"

text \<open>\<open>obj().to\<close> up to the length test: \<open>None\<close> is a panic, of \<open>NewProduct\<close> in the first caller, of the nil pointer in the later ones.\<close>

definition metrics_obj ::
    "float_ops \<Rightarrow> (bytes list \<Rightarrow> conf) \<Rightarrow> (producer_cfg \<Rightarrow> bool) \<Rightarrow> metrics_vars \<Rightarrow> metrics option \<times> metrics_vars" where
  "metrics_obj fo get connects v =
     (if mvOnce v then (mvObj v, v)
      else (let s = \<lambda>name. aReader_String fo (get [str ''metrics'', name]) []
            in case NewProduct connects [KafkaBrokers (s (str ''brokers'')), KafkaGroup (s (str ''group'')), KafkaTopic (s (str ''topic''))] of
                 None \<Rightarrow> (None, v\<lparr>mvOnce := True\<rparr>)
               | Some pub \<Rightarrow> (let m = metrics_new pub in (Some m, \<lparr>mvOnce = True, mvObj = Some m\<rparr>))))"

text \<open>Whether one of a sequence of reports, the first of the process among them, panics.\<close>

fun reports_panic ::
    "float_ops \<Rightarrow> (bytes list \<Rightarrow> conf) \<Rightarrow> (producer_cfg \<Rightarrow> bool) \<Rightarrow> mev list \<Rightarrow> metrics_vars \<Rightarrow> bool" where
  "reports_panic fo get connects [] v \<longleftrightarrow> False"
| "reports_panic fo get connects (ev # evs) v \<longleftrightarrow>
     (case metrics_obj fo get connects v of (None, _) \<Rightarrow> True | (Some _, v) \<Rightarrow> reports_panic fo get connects evs v)"

text \<open>The producer the configuration asks for.\<close>

definition metrics_producer :: "float_ops \<Rightarrow> (bytes list \<Rightarrow> conf) \<Rightarrow> producer_cfg" where
  "metrics_producer fo get =
     \<lparr>kcBrokers = split_on 44 (aReader_String fo (get [str ''metrics'', str ''brokers'']) []), kcAllAcks = True, kcRetries = 10, kcSuccesses = True\<rparr>"

lemma metrics_obj_first:
  "\<not> mvOnce v \<Longrightarrow> fst (metrics_obj fo get connects v) \<noteq> None \<longleftrightarrow> connects (metrics_producer fo get)"
  "fst (metrics_obj fo get connects v) = Some m \<Longrightarrow> mvOnce (snd (metrics_obj fo get connects v)) \<and> mvObj (snd (metrics_obj fo get connects v)) = Some m"
  by (auto simp: metrics_obj_def NewProduct_def kafka_opts_def KafkaBrokers_def KafkaGroup_def KafkaTopic_def metrics_producer_def Let_def
      split: if_splits)

lemma no_panic_later: "mvOnce v \<Longrightarrow> mvObj v \<noteq> None \<Longrightarrow> \<not> reports_panic fo get connects evs v"
  by (induction evs) (auto simp: metrics_obj_def)

text \<open>So every report panics when no broker answers the first.\<close>

lemma reports_panic_iff:
  "reports_panic fo get connects evs metrics_vars_zero \<longleftrightarrow> evs \<noteq> [] \<and> \<not> connects (metrics_producer fo get)"
proof (cases evs)
  case (Cons ev evs')
  let ?r = "metrics_obj fo get connects metrics_vars_zero"
  show ?thesis
  proof (cases "fst ?r")
    case None
    with Cons metrics_obj_first(1) [of metrics_vars_zero fo get connects] show ?thesis
      by (simp add: metrics_vars_zero_def case_prod_unfold)
  next
    case (Some m)
    from metrics_obj_first(2) [OF this] have "\<not> reports_panic fo get connects evs' (snd ?r)" by (intro no_panic_later) auto
    with Cons Some metrics_obj_first(1) [of metrics_vars_zero fo get connects] show ?thesis
      by (simp add: metrics_vars_zero_def case_prod_unfold)
  qed
qed simp

section \<open>The loop\<close>

text \<open>A reporting goroutine's length test and its send, of the \<open>i\<close>-th of those that have passed the test and not yet sent; and the two cases of
  the \<open>select\<close>. A receive is only chosen when a metric is there.\<close>

datatype metrics_ev = MTo Metric | MSend nat | MRecv | MTick

abbreviation metrics_gate :: "Metric gate_ev \<Rightarrow> (Metric chan, Metric) gate \<Rightarrow> (Metric chan, Metric) gate" where
  "metrics_gate \<equiv> gate_event metrics_full metrics_send metrics_poll"

definition metrics_event :: "metrics_ev \<Rightarrow> metrics \<Rightarrow> metrics option" where
  "metrics_event ev m =
     (case ev of
        MTo it \<Rightarrow> Some (m\<lparr>mtGate := metrics_gate (Test it) (mtGate m)\<rparr>)
      | MSend i \<Rightarrow> Some (m\<lparr>mtGate := metrics_gate (Send i) (mtGate m)\<rparr>)
      | MRecv \<Rightarrow> (case metrics_poll (gtQueue (mtGate m)) of
                    Some (it, _) \<Rightarrow> Some (m\<lparr>mtGate := metrics_gate Take (mtGate m), mtLists := mtLists m @ [Some it]\<rparr>)
                  | None \<Rightarrow> Some m)
      | MTick \<Rightarrow> (case metrics_report_all (metrics_combine (mtLists m)) (mtSent m) of
                    None \<Rightarrow> None
                  | Some sent \<Rightarrow> Some (m\<lparr>mtLists := [], mtSent := sent\<rparr>)))"

fun metrics_loop :: "metrics_ev list \<Rightarrow> metrics \<Rightarrow> metrics option" where
  "metrics_loop [] m = Some m"
| "metrics_loop (ev # evs) m =
     (case metrics_event ev m of None \<Rightarrow> None | Some m \<Rightarrow> metrics_loop evs m)"

lemma metrics_loop_append:
  "metrics_loop (evs @ evs') m = (case metrics_loop evs m of None \<Rightarrow> None | Some m \<Rightarrow> metrics_loop evs' m)"
  by (induction evs arbitrary: m) (auto split: option.split)

section \<open>The channel as a gated queue\<close>

definition metrics_ok :: "Metric chan \<Rightarrow> bool" where
  "metrics_ok q \<longleftrightarrow> \<not> chClosed q \<and> chCap q = MaxCh"

interpretation metricsCh: gated_queue metrics_full metrics_send metrics_poll chBuf metrics_ok "MaxCh - 10" MaxCh
  by unfold_locales
    (auto simp: metrics_full_def metrics_send_def metrics_poll_def metrics_ok_def chan_send_def chan_recv_def MaxCh_def
      split: if_splits list.splits)

lemma metrics_ok_init: "metrics_ok (make_chan MaxCh)" "chBuf (make_chan MaxCh) = []"
  by (simp_all add: metrics_ok_def make_chan_def)

text \<open>What an event of the loop is to the gate.\<close>

definition gate_evs :: "metrics_ev list \<Rightarrow> Metric gate_ev list" where
  "gate_evs evs =
     concat (map (\<lambda>ev. case ev of MTo it \<Rightarrow> [Test it] | MSend i \<Rightarrow> [Send i] | MRecv \<Rightarrow> [Take] | MTick \<Rightarrow> []) evs)"

text \<open>The metrics reported.\<close>

definition reported :: "metrics_ev list \<Rightarrow> Metric list" where
  "reported evs = concat (map (\<lambda>ev. case ev of MTo it \<Rightarrow> [it] | _ \<Rightarrow> []) evs)"

lemma tested_gate_evs: "tested (gate_evs evs) = reported evs"
  by (induction evs) (auto simp: gate_evs_def reported_def split: metrics_ev.split)

lemma metrics_event_gate:
  "metrics_event ev m = Some m' \<Longrightarrow> mtGate m' = gate_run metrics_full metrics_send metrics_poll (gate_evs [ev]) (mtGate m)"
  by (auto simp: metrics_event_def gate_evs_def gate_event_def split: metrics_ev.splits option.splits)

lemma metrics_loop_gate:
  "metrics_loop evs m = Some m' \<Longrightarrow> mtGate m' = gate_run metrics_full metrics_send metrics_poll (gate_evs evs) (mtGate m)"
proof (induction evs arbitrary: m)
  case (Cons ev evs)
  then obtain m1 where m1: "metrics_event ev m = Some m1" "metrics_loop evs m1 = Some m'" by (auto split: option.splits)
  have "gate_evs (ev # evs) = gate_evs [ev] @ gate_evs evs" by (simp add: gate_evs_def)
  with Cons.IH [OF m1(2)] metrics_event_gate [OF m1(1)] show ?case by (simp add: gate_run_append)
qed (simp add: gate_evs_def)

section \<open>Batches cover the list\<close>

lemma combine_loop_batches:
  "its \<noteq> [] \<Longrightarrow>
     concat (map msLists (combine_loop its)) = its \<and>
     length (combine_loop its) = (length its + MaxPush - 1) div MaxPush \<and>
     (\<forall>b \<in> set (combine_loop its). msLists b \<noteq> [] \<and> length (msLists b) \<le> MaxPush \<and> msUnrecognized b = [])"
proof (induction its rule: combine_loop.induct)
  case (1 its)
  show ?case
  proof (cases "MaxPush < length its")
    case True
    with 1 have IH: "concat (map msLists (combine_loop (drop MaxPush its))) = drop MaxPush its"
      "length (combine_loop (drop MaxPush its)) = (length its - MaxPush + MaxPush - 1) div MaxPush"
      "\<forall>b \<in> set (combine_loop (drop MaxPush its)). msLists b \<noteq> [] \<and> length (msLists b) \<le> MaxPush \<and> msUnrecognized b = []"
      by simp_all
    have "(length its + MaxPush - 1) div MaxPush = Suc ((length its - MaxPush + MaxPush - 1) div MaxPush)"
      using True by (simp add: MaxPush_def)
    with True IH show ?thesis
      by (subst (1 2 3) combine_loop.simps) (auto simp: MaxPush_def)
  next
    case False
    moreover from this have "(length its + MaxPush - 1) div MaxPush = 1"
      using 1(2) by (intro div_nat_eqI) (auto simp: MaxPush_def Suc_le_eq)
    ultimately show ?thesis using 1(2) by (subst (1 2 3) combine_loop.simps) auto
  qed
qed

section \<open>Publishing\<close>

definition metric_built :: "Metric \<Rightarrow> bool" where
  "metric_built it \<longleftrightarrow>
     (\<exists>e ty value opts. it = metrics_Counter e ty value opts) \<or>
     (\<exists>e ty value add opts. it = metrics_CounterByAdd e ty value add opts) \<or>
     (\<exists>e method code opts. it = metrics_MethodCode e method code opts) \<or>
     (\<exists>e method startAt now opts. it = metrics_Summary e method startAt now opts)"

lemmas metric_defs = metrics_Counter_def metrics_CounterByAdd_def metrics_MethodCode_def metrics_Summary_def
  Metric_Reset_def Counter_Reset_def Gauge_Reset_def Summary_Reset_def

lemma metric_built_readable:
  assumes "metric_built it"
  shows "Metric_range_order it no_ranges" "Metric_unknown it"
proof -
  show "Metric_range_order it no_ranges"
    using assms by (auto simp: metric_built_def metric_defs Let_def Metric_range_order_def range_order_def no_ranges_def)
  show "Metric_unknown it"
    using assms by (auto simp: metric_built_def metric_defs Let_def Metric_unknown_def intro: exI [of _ "[]"])
qed

definition publishable :: "Metric \<Rightarrow> bool" where
  "publishable it \<longleftrightarrow> metric_built it \<and> Metric_Size (Some it) no_ranges \<le> 2 ^ 50"

definition publishable_batch :: "Metrics \<Rightarrow> bool" where
  "publishable_batch b \<longleftrightarrow>
     msUnrecognized b = [] \<and> length (msLists b) \<le> MaxPush \<and> list_all (pred_option publishable) (msLists b) \<and>
     None \<notin> set (msLists b)"

lemma publishable_batch_at:
  assumes "publishable_batch b" "i < length (msLists b)"
  obtains e where "msLists b ! i = Some e" "publishable e"
  using assms by (cases "msLists b ! i") (force simp: publishable_batch_def list_all_length in_set_conv_nth)+

lemma publishable_batch_size:
  assumes "publishable_batch b"
  shows "Metrics_Size (Some b) (\<lambda>_. no_ranges) < 2 ^ 63"
proof -
  have "size_bytes_field (Metric_Size (msLists b ! i) no_ranges) \<le> 2 ^ 51" if i: "i < length (msLists b)" for i
  proof -
    obtain e where e: "msLists b ! i = Some e" "publishable e"
      using publishable_batch_at [OF assms i] by blast
    have "size_bytes_field n \<le> 11 + n" for n
      using sovPacket_bounds [of "of_nat n"] by (simp add: size_bytes_field_def)
    from order_trans [OF this] e show ?thesis by (simp add: publishable_def)
  qed
  then have "(\<Sum>i \<leftarrow> [0..<length (msLists b)]. size_bytes_field (Metric_Size (msLists b ! i) no_ranges))
      \<le> (\<Sum>i \<leftarrow> [0..<length (msLists b)]. 2 ^ 51)"
    by (intro sum_list_mono) simp
  also have "\<dots> \<le> 1000 * 2 ^ 51"
    using assms by (simp add: publishable_batch_def MaxPush_def sum_list_triv)
  finally show ?thesis
    using assms by (simp add: Metrics_Size_def publishable_batch_def)
qed

lemma report_publishes:
  assumes "publishable_batch b"
  shows "\<exists>buffer. metrics_report b sent = Some (sent @ [buffer]) \<and> Metrics_Unmarshal buffer Metrics_Reset = Inr b"
proof -
  have full: "Metrics_full b"
    by (auto simp: Metrics_full_def elim: publishable_batch_at [OF assms])
  have order: "Metrics_range_order b (\<lambda>_. no_ranges)"
    unfolding Metrics_range_order_def
    by (auto elim!: publishable_batch_at [OF assms] simp: publishable_def metric_built_readable)
  have unknown: "Metrics_unknown b"
    unfolding Metrics_unknown_def
    using assms by (auto elim!: publishable_batch_at [OF assms] simp: publishable_def publishable_batch_def metric_built_readable
        intro: exI [of _ "[]"])
  have slice: "go_slice (enc_Metrics b (\<lambda>_. no_ranges))"
    using publishable_batch_size [OF assms] by (simp add: go_slice_def length_enc_Metrics [OF full])
  show ?thesis
    using Metrics_Marshal_enc [OF full order order] Metrics_Unmarshal_enc [OF full order unknown slice, of Metrics_Reset]
    by (simp add: metrics_report_def Metrics_merge_Reset)
qed

lemma report_all_publishes:
  "list_all publishable_batch bs \<Longrightarrow>
     \<exists>buffers. metrics_report_all bs sent = Some (sent @ buffers) \<and>
       map (\<lambda>b. Metrics_Unmarshal b Metrics_Reset) buffers = map Inr bs"
proof (induction bs arbitrary: sent)
  case (Cons b bs)
  then obtain buffer where "metrics_report b sent = Some (sent @ [buffer])" "Metrics_Unmarshal buffer Metrics_Reset = Inr b"
    using report_publishes by fastforce
  with Cons.IH [of "sent @ [buffer]"] Cons.prems show ?case by force
qed simp

lemma combine_publishable:
  assumes "list_all (pred_option publishable) its" "None \<notin> set its"
  shows "list_all publishable_batch (metrics_combine its) \<and> concat (map msLists (metrics_combine its)) = its \<and>
    list_all (\<lambda>b. msLists b \<noteq> [] \<and> length (msLists b) \<le> MaxPush) (metrics_combine its)"
proof (cases "its = []")
  case False
  note batches = combine_loop_batches [OF False]
  then have "\<forall>b \<in> set (combine_loop its). set (msLists b) \<subseteq> set its"
    by (metis UN_upper image_eqI list.set_map set_concat)
  with batches assms show ?thesis
    by (auto simp: metrics_combine_def publishable_batch_def list_all_iff)
qed (simp add: metrics_combine_def)

section \<open>Delivery\<close>

text \<open>The batches behind what was given to the producer, the list being collected, the channel and the goroutines before it, all of
  publishable metrics; what was taken from the channel is in the batches and the list, in order.\<close>

definition metrics_inv :: "metrics \<Rightarrow> Metrics list \<Rightarrow> bool" where
  "metrics_inv m bs \<longleftrightarrow>
     list_all publishable (chBuf (gtQueue (mtGate m))) \<and> list_all publishable (gtWaiting (mtGate m)) \<and>
     list_all (pred_option publishable) (mtLists m) \<and> None \<notin> set (mtLists m) \<and>
     list_all (\<lambda>b. msLists b \<noteq> [] \<and> length (msLists b) \<le> MaxPush) bs \<and>
     map (\<lambda>b. Metrics_Unmarshal b Metrics_Reset) (mtSent m) = map Inr bs \<and>
     map Some (gtTaken (mtGate m)) = concat (map msLists bs) @ mtLists m"

lemma metrics_tick:
  assumes "metrics_inv m bs"
  shows "\<exists>sent. metrics_event MTick m = Some (m\<lparr>mtLists := [], mtSent := sent\<rparr>) \<and>
    metrics_inv (m\<lparr>mtLists := [], mtSent := sent\<rparr>) (bs @ metrics_combine (mtLists m))"
proof -
  note combine = combine_publishable [of "mtLists m"]
  from assms combine have "list_all publishable_batch (metrics_combine (mtLists m))"
    by (simp add: metrics_inv_def)
  from report_all_publishes [OF this, of "mtSent m"] obtain buffers where
    "metrics_report_all (metrics_combine (mtLists m)) (mtSent m) = Some (mtSent m @ buffers)"
    "map (\<lambda>b. Metrics_Unmarshal b Metrics_Reset) buffers = map Inr (metrics_combine (mtLists m))"
    by blast
  with assms combine show ?thesis by (auto simp: metrics_event_def metrics_inv_def)
qed

lemma metrics_poll_items: "metrics_poll q = Some (x, q') \<Longrightarrow> chBuf q = x # chBuf q'"
  by (auto simp: metrics_poll_def chan_recv_def split: list.splits if_splits)

lemma metrics_send_items: "metrics_send q x = Some q' \<Longrightarrow> chBuf q' = chBuf q @ [x]"
  by (auto simp: metrics_send_def chan_send_def split: if_splits)

lemma metrics_event_inv:
  assumes "metrics_inv m bs" "\<forall>it. ev = MTo it \<longrightarrow> publishable it"
  shows "\<exists>m' bs'. metrics_event ev m = Some m' \<and> metrics_inv m' bs'"
proof (cases ev)
  case (MTo it)
  with assms show ?thesis by (auto simp: metrics_event_def metrics_inv_def gate_event_def)
next
  case (MSend i)
  have "list_all publishable (take i (gtWaiting (mtGate m)) @ drop (Suc i) (gtWaiting (mtGate m)))"
    using assms(1) by (auto simp: metrics_inv_def list_all_iff dest: in_set_takeD in_set_dropD)
  moreover have "publishable (gtWaiting (mtGate m) ! i)" if "i < length (gtWaiting (mtGate m))"
    using assms(1) that by (simp add: metrics_inv_def list_all_length)
  ultimately show ?thesis
    using MSend assms(1) metrics_send_items by (auto simp: metrics_event_def metrics_inv_def gate_event_def split: option.split)
next
  case MRecv
  show ?thesis
  proof (cases "metrics_poll (gtQueue (mtGate m))")
    case None
    with MRecv assms(1) show ?thesis by (auto simp: metrics_event_def)
  next
    case (Some p)
    obtain it q where p: "p = (it, q)" by (cases p)
    with MRecv Some assms(1) metrics_poll_items [of "gtQueue (mtGate m)" it q] show ?thesis
      by (auto simp: metrics_event_def metrics_inv_def gate_event_def)
  qed
next
  case MTick
  with metrics_tick [OF assms(1)] show ?thesis by blast
qed

lemma metrics_loop_inv:
  "metrics_inv m bs \<Longrightarrow> \<forall>it. MTo it \<in> set evs \<longrightarrow> publishable it \<Longrightarrow> \<exists>m' bs'. metrics_loop evs m = Some m' \<and> metrics_inv m' bs'"
proof (induction evs arbitrary: m bs)
  case (Cons ev evs)
  obtain m1 bs1 where m1: "metrics_event ev m = Some m1" "metrics_inv m1 bs1"
    using metrics_event_inv [OF Cons.prems(1), of ev] Cons.prems(2) by auto
  with Cons.IH [OF m1(2)] Cons.prems(2) show ?case by simp
qed auto

lemma metrics_inv_new: "metrics_inv (metrics_new pub) []"
  by (simp add: metrics_inv_def metrics_new_def gate_init_def make_chan_def)

text \<open>A run from the start, with what the gate says of it.\<close>

lemma metrics_run:
  assumes "\<forall>it. MTo it \<in> set evs \<longrightarrow> publishable it"
  obtains m bs where "metrics_loop evs (metrics_new pub) = Some m" "metrics_inv m bs"
    and "mtGate m = gate_run metrics_full metrics_send metrics_poll (gate_evs evs) (gate_init (make_chan MaxCh))"
    and "metricsCh.gate_inv (mset (reported evs)) (mtGate m)"
proof -
  obtain m bs where m: "metrics_loop evs (metrics_new pub) = Some m" "metrics_inv m bs"
    using metrics_loop_inv [OF metrics_inv_new assms] by blast
  from metrics_loop_gate [OF m(1)] have g: "mtGate m = gate_run metrics_full metrics_send metrics_poll (gate_evs evs) (gate_init (make_chan MaxCh))"
    by (simp add: metrics_new_def)
  from metricsCh.run_fifo [OF metrics_ok_init, of "gate_evs evs"] that m g show thesis by (simp add: tested_gate_evs)
qed

section \<open>Properties\<close>

text \<open>C16. Whatever the order of length tests, sends, receives and ticks, as long as the metrics have less than a petabyte: the loop does not panic; the
  metrics that were sent to the channel are, in order, those in the published messages, those collected since the last tick, and those still in the
  channel; they and those about to be sent were reported, each once; and every published message is what the consumer's \<open>Unmarshal\<close> reads back, with at least
  one and at most 1000 metrics. While at most ten goroutines are between their test and their send, no send blocks.\<close>
theorem metrics_published:
  assumes "\<forall>it. MTo it \<in> set evs \<longrightarrow> metric_built it \<and> Metric_Size (Some it) no_ranges \<le> 2 ^ 50"
  shows "\<exists>m bs. metrics_loop evs (metrics_new pub) = Some m \<and>
    map (\<lambda>b. Metrics_Unmarshal b Metrics_Reset) (mtSent m) = map Inr bs \<and>
    list_all (\<lambda>b. msLists b \<noteq> [] \<and> length (msLists b) \<le> MaxPush) bs \<and>
    map Some (gtSent (mtGate m)) = concat (map msLists bs) @ mtLists m @ map Some (chBuf (gtQueue (mtGate m))) \<and>
    mset (gtSent (mtGate m)) + mset (gtWaiting (mtGate m)) \<subseteq># mset (reported evs) \<and>
    (at_most 10 metrics_full metrics_send metrics_poll (gate_evs evs) (gate_init (make_chan MaxCh)) \<and> gtWaiting (mtGate m) \<noteq> [] \<longrightarrow>
      metrics_send (gtQueue (mtGate m)) it \<noteq> None)"
proof -
  from assms have "\<forall>it. MTo it \<in> set evs \<longrightarrow> publishable it" by (simp add: publishable_def)
  then obtain m bs where m: "metrics_loop evs (metrics_new pub) = Some m" "metrics_inv m bs"
    "mtGate m = gate_run metrics_full metrics_send metrics_poll (gate_evs evs) (gate_init (make_chan MaxCh))"
    "metricsCh.gate_inv (mset (reported evs)) (mtGate m)" by (rule metrics_run)
  have "metrics_send (gtQueue (mtGate m)) it \<noteq> None"
    if "at_most 10 metrics_full metrics_send metrics_poll (gate_evs evs) (gate_init (make_chan MaxCh))" "gtWaiting (mtGate m) \<noteq> []"
    using metricsCh.run_never_blocks [OF metrics_ok_init that(1), of it] that(2) unfolding m(3) by (simp add: MaxCh_def)
  moreover have "map Some (gtSent (mtGate m)) = concat (map msLists bs) @ mtLists m @ map Some (chBuf (gtQueue (mtGate m)))"
    using m(2,4) by (simp add: metrics_inv_def metricsCh.gate_inv_def)
  ultimately show ?thesis using m(1,2,4) unfolding metrics_inv_def metricsCh.gate_inv_def by blast
qed

text \<open>\<open>combine\<close> cuts a list into as few batches as it takes: they are the list, in order, none of
  them is empty or longer than 1000, and their number is the quotient rounded up.\<close>
theorem combine_batches:
  "concat (map msLists (metrics_combine its)) = its \<and>
   (\<forall>b. b \<in> set (metrics_combine its) \<longrightarrow> msLists b \<noteq> [] \<and> length (msLists b) \<le> 1000) \<and>
   length (metrics_combine its) = (length its + 999) div 1000"
  using combine_loop_batches [of its] by (cases "its = []") (auto simp: metrics_combine_def MaxPush_def)

theorem combine_batches_witness: "length (metrics_combine (replicate 2001 None)) = 3"
  using combine_batches [of "replicate 2001 None"] by simp

definition demo_metrics_evs :: "metrics_ev list" where
  "demo_metrics_evs = [MTo (metrics_Counter \<lparr>mvHost = [1], mvServer = [2]\<rparr> [3] [4] []), MSend 0, MRecv, MTick]"

theorem metrics_published_witness:
  "\<exists>m bs. metrics_loop demo_metrics_evs (metrics_new (kafka_opts [])) = Some m \<and>
    map (\<lambda>b. Metrics_Unmarshal b Metrics_Reset) (mtSent m) = map Inr bs \<and>
    concat (map msLists bs) @ mtLists m = [Some (metrics_Counter \<lparr>mvHost = [1], mvServer = [2]\<rparr> [3] [4] [])]"
proof -
  let ?it = "metrics_Counter \<lparr>mvHost = [1], mvServer = [2]\<rparr> [3] [4] []"
  have size: "Metric_Size (Some ?it) no_ranges = 18" by code_simp
  have built: "metric_built ?it" unfolding metric_built_def by blast
  have "\<forall>it. MTo it \<in> set demo_metrics_evs \<longrightarrow> metric_built it \<and> Metric_Size (Some it) no_ranges \<le> 2 ^ 50"
    using size built by (simp add: demo_metrics_evs_def)
  from metrics_published [OF this] obtain m bs where m: "metrics_loop demo_metrics_evs (metrics_new (kafka_opts [])) = Some m"
    "map (\<lambda>b. Metrics_Unmarshal b Metrics_Reset) (mtSent m) = map Inr bs"
    "map Some (gtSent (mtGate m)) = concat (map msLists bs) @ mtLists m @ map Some (chBuf (gtQueue (mtGate m)))" by blast
  moreover have "gtSent (mtGate m) = [?it]" "chBuf (gtQueue (mtGate m)) = []"
    unfolding metrics_loop_gate [OF m(1)]
    by (simp_all add: demo_metrics_evs_def gate_evs_def metrics_new_def gate_init_def gate_event_def metrics_full_def metrics_send_def
        metrics_poll_def make_chan_def chan_send_def chan_recv_def MaxCh_def)
  ultimately show ?thesis by (auto intro!: exI)
qed

end
