(* ===== verification/Example_Main.thy ===== *)
theory Example_Main
  imports Stub Server_Lifecycle Config Zzlog Monitor
begin

text \<open>
  The programs of \<open>example/server/main.go\<close> and \<open>example/client/main.go\<close>, from their start to the signal they wait for and the deferred calls
  that end them, with the goroutine of \<open>tools/pprof.go\<close> and what the other goroutines do until the signal. Every report of a metric can end the
  process: the first one of the process opens the Kafka producer, and panics when no broker answers. The HTTP server of \<open>tools/pprof.go\<close> is the
  standard library's.
\<close>

section \<open>Configuration and log\<close>

definition example_config :: "(bytes \<Rightarrow> 'e dom option) \<Rightarrow> bytes list \<Rightarrow> conf" where
  "example_config get_xml = config_Get (config_Init get_xml (str ''./conf/gffg.xml'') None)"

text \<open>Both programs open the log that the configuration names, the client in its main function.\<close>

definition start_log :: "float_ops \<Rightarrow> (bytes list \<Rightarrow> conf) \<Rightarrow> (bytes \<Rightarrow> log_level option) \<Rightarrow> logger" where
  "start_log fo get ParseLevel =
     log_Init ParseLevel
       [WithLogName (aReader_String fo (get [str ''log'', str ''log_file'']) []),
        WithLevel (aReader_String fo (get [str ''log'', str ''level'']) (str ''info''))] log_init"

section \<open>How a program ends\<close>

text \<open>The main function returns, the process exits inside it, or it panics; with the requests to the management centre, in order.\<close>

datatype main_out = MainReturns "polaris_call list" | MainExits "polaris_call list" | MainPanics "polaris_call list"

text \<open>A deferred call at the end, after the requests \<open>cs\<close>: of a main function that returns, and of one that panics.\<close>

fun defer_return :: "polaris_call list \<Rightarrow> 'a reg_out \<Rightarrow> main_out" where
  "defer_return cs (Returns _ cs') = MainReturns (cs @ cs')"
| "defer_return cs (Exits cs') = MainExits (cs @ cs')"
| "defer_return cs (RegPanics cs') = MainPanics (cs @ cs')"

fun defer_panic :: "polaris_call list \<Rightarrow> 'a reg_out \<Rightarrow> main_out" where
  "defer_panic cs (Returns _ cs') = MainPanics (cs @ cs')"
| "defer_panic cs (Exits cs') = MainExits (cs @ cs')"
| "defer_panic cs (RegPanics cs') = MainPanics (cs @ cs')"

section \<open>The server\<close>

text \<open>\<open>PProf\<close>'s goroutine serves HTTP on a fixed port. \<open>ListenAndServe\<close> returns only with an error, at once when the port is taken; then the
  goroutine panics, and with it the process. \<open>serves\<close> says whether an address can be served until the program ends.\<close>

definition PProf :: "(bytes \<Rightarrow> bool) \<Rightarrow> bool" where
  "PProf serves = serves (str '':7777'')"

text \<open>
  What the goroutines that \<open>Run\<close> has started do until the signal: the ticker fires; a connection comes or goes; a packet has arrived and
  \<open>onRecv\<close> tests the channel, and puts the packet in if it has passed the test; a worker handles a request.
\<close>

datatype server_ev = SvTick i64 | SvConnect | SvClosed | SvRecv | SvSend RequetChannel | SvWork handle_env

text \<open>What it reports, whether the handling ends the process, and the server afterwards.\<close>

fun server_event :: "server_ev \<Rightarrow> Server \<Rightarrow> mev list \<times> bool \<times> Server" where
  "server_event (SvTick g) s = (Server_tick g s, False, s)"
| "server_event SvConnect s = (let (s, ms) = Server_connect s in (ms, False, s))"
| "server_event SvClosed s = (let (s, ms) = Server_closed s in (ms, False, s))"
| "server_event SvRecv s =
     (if reqCh_full (svChannels s) (svReqCh s) then ([MCounter (str ''server'') (str ''channels_fully'')], False, s) else ([], False, s))"
| "server_event (SvSend req) s =
     (case reqCh_send (svReqCh s) req of None \<Rightarrow> ([], False, s) | Some q \<Rightarrow> ([], False, s\<lparr>svReqCh := q\<rparr>))"
| "server_event (SvWork e) s =
     (if svWorkers s = 0 then ([], False, s)
      else case goRecv_step e s of
          None \<Rightarrow> ([], False, s)
        | Some (r, s) \<Rightarrow> (hrMetrics r, hrOut r = HCrashed, s))"

text \<open>All reports, in order, and the server at the signal, unless the handling of a request has ended the process.\<close>

fun server_serve :: "server_ev list \<Rightarrow> Server \<Rightarrow> mev list \<times> Server option" where
  "server_serve [] s = ([], Some s)"
| "server_serve (ev # evs) s =
     (let (ms, crash, s) = server_event ev s
      in if crash then (ms, None)
         else let (ms', r) = server_serve evs s in (ms @ ms', r))"

text \<open>What the host answers: how addresses are written, whether the socket opens, the address it got, the interfaces, whether
  the management centre accepts the registration, the addresses HTTP can be served on, and whether a Kafka broker answers; and what happens until
  the signal.\<close>

record host_env =
  hoFormat :: "bytes \<Rightarrow> int \<Rightarrow> bytes"
  hoListens :: "bytes \<Rightarrow> bool"
  hoSplit :: "(bytes \<times> bytes) option"
  hoAddrs :: "net_addr list option"
  hoAccepted :: bool
  hoServes :: "bytes \<Rightarrow> bool"
  hoConnects :: "producer_cfg \<Rightarrow> bool"
  hoEvents :: "server_ev list"

text \<open>
  A panic in any goroutine that is not recovered ends the process, with no deferred call of the main function. Nothing recovers that of a report: the
  ticker and the connection callbacks have no deferred function, the one of \<open>handle\<close> reports before it recovers, and where \<open>onRecv\<close>'s caller
  recovers, the close callback that it runs next reports in turn.
\<close>

definition server_main ::
    "float_ops \<Rightarrow> (bytes \<Rightarrow> 'e dom option) \<Rightarrow> (polaris_cfg \<Rightarrow> bool) \<Rightarrow> visit \<Rightarrow> visit \<Rightarrow> host_env \<Rightarrow> main_out" where
  "server_main fo get_xml ok v v' host =
     (case NewServer fo (example_config get_xml) ok [] of
        Exits cs \<Rightarrow> MainExits cs
      | RegPanics cs \<Rightarrow> MainPanics cs
      | Returns svr cs \<Rightarrow>
          (let ctl = Controller;
               svr = RegisterUserServiceHandler v v' ctl svr
           in case Server_Run (hoFormat host) (hoListens host) (hoSplit host) (hoAddrs host) (hoAccepted host)
                 [Bind (str ''0.0.0.0''), Port 0] svr of
                Exits cs' \<Rightarrow> MainExits (cs @ cs')
              | RegPanics cs' \<Rightarrow> defer_panic (cs @ cs') (Server_Release svr)
              | Returns svr cs' \<Rightarrow>
                  (if \<not> PProf (hoServes host) then MainPanics (cs @ cs')
                   else let (ms, r) = server_serve (if svSock svr = None then [] else hoEvents host) svr
                     in if reports_panic fo (example_config get_xml) (hoConnects host) ms metrics_vars_zero then MainPanics (cs @ cs')
                        else case r of
                            None \<Rightarrow> MainPanics (cs @ cs')
                          | Some svr \<Rightarrow> defer_return (cs @ cs') (Server_Release svr))))"

section \<open>The client\<close>

text \<open>\<open>createUser\<close> and \<open>userInfo\<close>, with what they log and report. The maps of their requests are empty, so there is one order to range over them.\<close>

definition main_createUser :: "call_env \<Rightarrow> int \<Rightarrow> rpc_client \<Rightarrow> example_log list \<times> mev list \<times> rpc_client" where
  "main_createUser e i c =
     (let req = example_request i;
          svc = NewUserService (str ''gffg-test'');
          (r, c, ms) = CreateUser svc (Some req) [] [] e c
      in ([example_createUser req r], ms, c))"

definition main_userInfo :: "call_env \<Rightarrow> rpc_client \<Rightarrow> example_log list \<times> mev list \<times> rpc_client" where
  "main_userInfo e c =
     (let svc = NewUserService (str ''gffg-test'');
          (r, c, ms) = UserInfo svc (Some example_info_request) [] [] e c
      in (case r of StubErr _ \<Rightarrow> [LogError] | StubOk _ \<Rightarrow> [], ms, c))"

text \<open>A round starts fifty of each and waits for all. They run in any order; here one after the other, in the order \<open>order\<close>.\<close>

datatype job = JobCreateUser int | JobUserInfo

definition round_jobs :: "job list" where
  "round_jobs = concat (map (\<lambda>i. [JobCreateUser (int i), JobUserInfo]) [0..<50])"

fun run_job :: "job \<Rightarrow> call_env \<Rightarrow> rpc_client \<Rightarrow> example_log list \<times> mev list \<times> rpc_client" where
  "run_job (JobCreateUser i) e c = main_createUser e i c"
| "run_job JobUserInfo e c = main_userInfo e c"

fun run_jobs :: "(job \<times> call_env) list \<Rightarrow> rpc_client \<Rightarrow> example_log list \<times> mev list \<times> rpc_client" where
  "run_jobs [] c = ([], [], c)"
| "run_jobs ((j, e) # js) c =
     (let (l, ms, c) = run_job j e c; (ls, ms', c) = run_jobs js c in (l @ ls, ms @ ms', c))"

text \<open>The rounds until the signal arrives, and the number of requests the loop counts.\<close>

fun client_rounds :: "(job \<times> call_env) list list \<Rightarrow> i64 \<Rightarrow> rpc_client \<Rightarrow> example_log list \<times> mev list \<times> i64 \<times> rpc_client" where
  "client_rounds [] reqs c = ([], [], reqs, c)"
| "client_rounds (order # orders) reqs c =
     (let (l, ms, c) = run_jobs order c; (ls, ms', reqs, c) = client_rounds orders (reqs + 100) c in (l @ ls, ms @ ms', reqs, c))"

text \<open>The panic of a report is not recovered: the deferred function of \<open>Call\<close> reports before it returns, also where it has recovered one.\<close>

definition client_main ::
    "float_ops \<Rightarrow> (bytes \<Rightarrow> 'e dom option) \<Rightarrow> (bytes \<Rightarrow> log_level option) \<Rightarrow> (polaris_cfg \<Rightarrow> bool) \<Rightarrow> net_addr list option \<Rightarrow>
       (producer_cfg \<Rightarrow> bool) \<Rightarrow> bytes list \<Rightarrow> (job \<times> call_env) list list \<Rightarrow> logger \<times> main_out" where
  "client_main fo get_xml ParseLevel ok addrs connects keys orders =
     (let get = example_config get_xml
      in (start_log fo get ParseLevel,
         case NewClient fo get ok addrs (aReader_String fo (get [str ''client'', str ''group'']) (str ''basesvr'')) [] of
           Exits cs \<Rightarrow> MainExits cs
         | RegPanics cs \<Rightarrow> MainPanics cs
         | Returns c cs \<Rightarrow>
             (let (_, ms, _, c) = client_rounds orders 0 c
              in if reports_panic fo get connects ms metrics_vars_zero then MainPanics cs
                 else defer_return cs (Client_Destroy keys c))))"

section \<open>Lemmas\<close>

lemma length_round_jobs: "length round_jobs = 100"
  by code_simp

text \<open>A call changes the client's pool only.\<close>

lemma Client_Call_registry: "rcRegistry (fst (snd (Client_Call m now ds intn inner t req c))) = rcRegistry c"
  by (auto simp: Client_Call_def Let_def split: sum.splits option.splits inner_out.splits prod.splits)

lemma call_message_registry: "rcRegistry (fst (snd (call_message e m req c))) = rcRegistry c"
  by (cases m) (simp_all add: call_message_def Client_Call_registry)

lemma Client_Call_reports: "snd (snd (Client_Call m now ds intn inner t req c)) \<noteq> []"
  by (auto simp: Client_Call_def call_metrics_def Let_def split: sum.splits option.splits inner_out.splits prod.splits)

lemma call_message_reports: "snd (snd (call_message e m req c)) \<noteq> []"
  by (cases m) (simp_all add: call_message_def Client_Call_reports, simp add: call_metrics_def)

text \<open>And it reports at least one metric.\<close>

lemma run_job_call: "rcRegistry (snd (snd (run_job j e c))) = rcRegistry c \<and> fst (snd (run_job j e c)) \<noteq> []"
proof (cases j)
  case (JobCreateUser i)
  let ?call = "call_message e (CreateUserReq_Marshal (example_request i) [] [])
        (NewRequest (usName (NewUserService (str ''gffg-test''))) (str ''UserService.CreateUser'')) c"
  have "rcRegistry (fst (snd ?call)) = rcRegistry c" "snd (snd ?call) \<noteq> []"
    by (rule call_message_registry, rule call_message_reports)
  with JobCreateUser show ?thesis by (auto simp: main_createUser_def CreateUser_def Let_def split: prod.splits)
next
  case JobUserInfo
  let ?call = "call_message e (UserInfoReq_Marshal example_info_request [] [])
        (NewRequest (usName (NewUserService (str ''gffg-test''))) (str ''UserService.UserInfo'')) c"
  have "rcRegistry (fst (snd ?call)) = rcRegistry c" "snd (snd ?call) \<noteq> []"
    by (rule call_message_registry, rule call_message_reports)
  with JobUserInfo show ?thesis by (auto simp: main_userInfo_def UserInfo_def Let_def split: prod.splits)
qed

lemma run_jobs_calls: "run_jobs js c = (l, ms, c') \<Longrightarrow> rcRegistry c' = rcRegistry c \<and> (ms = [] \<longleftrightarrow> js = [])"
proof (induction js arbitrary: c l ms c')
  case (Cons je js)
  obtain j e where je: "je = (j, e)" by (cases je)
  obtain l1 ms1 c1 where c1: "run_job j e c = (l1, ms1, c1)" by (cases "run_job j e c")
  obtain l2 ms2 c2 where c2: "run_jobs js c1 = (l2, ms2, c2)" by (cases "run_jobs js c1")
  from run_job_call [of j e c] c1 have "rcRegistry c1 = rcRegistry c" "ms1 \<noteq> []" by simp_all
  with Cons.IH [OF c2] Cons.prems c1 c2 je show ?case by (auto simp: Let_def)
qed simp

lemma client_rounds_calls:
  "client_rounds orders reqs c = (l, ms, reqs', c') \<Longrightarrow>
     rcRegistry c' = rcRegistry c \<and> reqs' = reqs + 100 * of_nat (length orders) \<and> (ms = [] \<longleftrightarrow> concat orders = [])"
proof (induction orders arbitrary: reqs c l ms)
  case (Cons order orders)
  obtain l1 ms1 c1 where c1: "run_jobs order c = (l1, ms1, c1)" by (cases "run_jobs order c")
  note one = run_jobs_calls [OF c1]
  obtain l2 ms2 where "client_rounds orders (reqs + 100) c1 = (l2, ms2, reqs', c')" "ms = ms1 @ ms2"
    using Cons.prems c1 by (auto simp: Let_def split: prod.splits)
  with Cons.IH [of "reqs + 100" c1 l2 ms2] one show ?case by (auto simp: algebra_simps)
qed simp

lemma NewClient_registry:
  "NewClient fo get ok addrs grp [] = Returns c cs \<Longrightarrow> cs = [] \<and> \<not> rgProvider (rcRegistry c)"
  by (auto simp: NewClient_def client_options_zero_def registry_Consumer_def Registry_def Let_def split: if_splits)

lemma RegisterUserServiceHandler_keeps:
  "svRegistry (RegisterUserServiceHandler v v' h s) = svRegistry s" "svCoroutines (RegisterUserServiceHandler v v' h s) = svCoroutines s"
  "svSock (RegisterUserServiceHandler v v' h s) = svSock s" "svCancelled (RegisterUserServiceHandler v v' h s) = svCancelled s"
  by (simp_all add: RegisterUserServiceHandler_def NewHandler_def Let_def)

text \<open>The example's handlers panic with nothing but run-time errors, so no request ends the process by itself.\<close>

lemma handle_not_crashed:
  assumes "\<And>calls id item call ctx p. h = Some calls \<Longrightarrow> calls id = Some (Some item) \<Longrightarrow> riCall item = Some call \<Longrightarrow> call ctx p \<noteq> CallPanic False"
  shows "hrOut (Server_handle h e packet reqs) \<noteq> HCrashed"
  using assms by (auto simp: Server_handle_def handle_simps split: sum.splits option.splits call_res.splits bind_splits)

definition handlers_ok :: "Server \<Rightarrow> bool" where
  "handlers_ok s \<longleftrightarrow> (\<forall>e packet reqs. hrOut (Server_handle (svHandler s) e packet reqs) \<noteq> HCrashed)"

lemma example_handlers_ok: "handlers_ok (RegisterUserServiceHandler v v' Controller s)"
  unfolding handlers_ok_def
proof (intro allI handle_not_crashed)
  fix calls id item call ctx p
  assume "svHandler (RegisterUserServiceHandler v v' Controller s) = Some calls" "calls id = Some (Some item)" "riCall item = Some call"
  then have "call = handler_CreateUser v v' Controller \<or> call = handler_UserInfo v v' Controller"
    by (auto simp: RegisterUserServiceHandler_def rpcHandler_Add_def RpcHandler_def NewHandler_def Let_def split: if_splits)
  then show "call ctx p \<noteq> CallPanic False"
    by (auto simp: handler_CreateUser_def handler_UserInfo_def Controller_def stub_serve_def controller_CreateUser_def controller_UserInfo_def
        split: sum.splits option.splits if_splits)
qed

text \<open>What the goroutines do leaves the registry, the listener and the method table alone.\<close>

definition serving :: "Server \<Rightarrow> registry \<times> Listener option \<times> rpcHandler option \<times> bool" where
  "serving s = (svRegistry s, svSock s, svHandler s, svCancelled s)"

lemma server_event_serving:
  assumes "handlers_ok s" "server_event ev s = (ms, crash, s')"
  shows "serving s' = serving s \<and> handlers_ok s' \<and> \<not> crash"
  using assms
  by (cases ev)
    (auto simp: serving_def handlers_ok_def Server_connect_def Server_closed_def incConn_def decConn_def goRecv_step_def Let_def
      split: if_splits option.splits)

lemma server_serve_serving:
  assumes "handlers_ok s"
  obtains ms s' where "server_serve evs s = (ms, Some s')" "serving s' = serving s"
    and "\<And>g. SvTick g \<in> set evs \<Longrightarrow> \<not> svCancelled s \<Longrightarrow> ms \<noteq> []"
  using assms
proof (induction evs arbitrary: s thesis)
  case (Cons ev evs)
  obtain ms crash s1 where ev: "server_event ev s = (ms, crash, s1)" by (cases "server_event ev s")
  note one = server_event_serving [OF Cons.prems(2) ev]
  obtain ms' s2 where s2: "server_serve evs s1 = (ms', Some s2)" "serving s2 = serving s1"
    "\<And>g. SvTick g \<in> set evs \<Longrightarrow> \<not> svCancelled s1 \<Longrightarrow> ms' \<noteq> []"
    using Cons.IH one by blast
  have "ms @ ms' \<noteq> []" if "SvTick g \<in> set (ev # evs)" "\<not> svCancelled s" for g
    using that s2(3) [of g] one ev by (auto simp: serving_def Server_tick_def)
  with Cons.prems(1) [of "ms @ ms'" s2] ev one s2 show ?case by (simp add: Let_def)
qed simp

lemma Server_Release_serving:
  assumes "serving s' = serving s" "Server_Release s = Returns s1 cs"
  shows "\<exists>s2. Server_Release s' = Returns s2 cs"
  using assms by (auto simp: serving_def Server_Release_def split: reg_out.splits option.splits)

lemma Server_Run_keeps:
  assumes "Server_Run fmt (\<lambda>_. True) split addrs accepted opts s = Returns s' cs"
  shows "svCancelled s' = svCancelled s \<and> svHandler s' = svHandler s \<and> svSock s' \<noteq> None"
proof -
  obtain btl where "Server_Run fmt (\<lambda>_. True) split addrs accepted opts s =
      (case Server_listen split addrs accepted s of
        Returns (s, _) cs \<Rightarrow> Returns (s\<lparr>svSock := Some btl, svWorkers := nat (svCoroutines s)\<rparr>) cs
      | Exits cs \<Rightarrow> Exits cs
      | RegPanics cs \<Rightarrow> RegPanics cs)"
    using Server_Run_opens by blast
  with assms show ?thesis by (auto simp: Server_listen_def Let_def split: reg_out.splits option.splits)
qed

section \<open>Properties\<close>

text \<open>C26. The example's server, once \<open>NewServer\<close> has returned, to the signal: on a host that lets it listen, with an Ethernet address and a management
  centre that accepts it, it registers one instance (its address, the port it got, the name and group of its configuration). When a Kafka broker answers,
  it withdraws the instance in the deferred \<open>Release\<close> and returns, whatever its connections, requests and workers did until then. When none answers, the first
  tick of its metrics ends the process in a panic with the instance still registered; and so does a profiler whose port is taken. On a host where it
  cannot listen it panics at the signal, since there is nothing to withdraw.\<close>
theorem server_main_ends:
  assumes "NewServer fo (example_config get_xml) ok [] = Returns svr cs0"
    and "58 \<notin> set (first_ipv4 ifs)" "n < 2 ^ 63"
    and "host = (\<lambda>listens serves connects evs. \<lparr>hoFormat = fmt, hoListens = \<lambda>_. listens, hoSplit = Some (h, show_nat n), hoAddrs = Some ifs,
       hoAccepted = True, hoServes = \<lambda>_. serves, hoConnects = connects, hoEvents = evs\<rparr>)"
  shows "(\<exists>req cs.
      (\<forall>connects evs. connects (metrics_producer fo (example_config get_xml)) \<longrightarrow>
         server_main fo get_xml ok v v' (host True True connects evs) = MainReturns (PRegister req # cs)) \<and>
      (\<forall>connects evs g. \<not> connects (metrics_producer fo (example_config get_xml)) \<and> SvTick g \<in> set evs \<longrightarrow>
         server_main fo get_xml ok v v' (host True True connects evs) = MainPanics [PRegister req]) \<and>
      (\<forall>connects evs. server_main fo get_xml ok v v' (host True False connects evs) = MainPanics [PRegister req]) \<and>
      rrInstance req = instance_of (server_node fo (example_config get_xml)) (first_ipv4 ifs, int n) \<and>
      live [PRegister req] {} = {rrInstance req} \<and> live (PRegister req # cs) {} = {}) \<and>
    (\<forall>connects evs. server_main fo get_xml ok v v' (host False True connects evs) = MainPanics [])"
proof -
  note new = NewServer_state(6,7) [OF assms(1)] NewServer_no_addr [OF assms(1)]
  let ?svr = "RegisterUserServiceHandler v v' Controller svr"
  have ready: "registry_ready (svRegistry ?svr)" using NewServer_ready [OF assms(1)] by (simp add: RegisterUserServiceHandler_keeps)
  from run_release [OF ready assms(2,3), of fmt h "[Bind (str ''0.0.0.0''), Port 0]"]
  obtain s1 req s2 cs where run: "Server_Run fmt (\<lambda>_. True) (Some (h, show_nat n)) (Some ifs) True [Bind (str ''0.0.0.0''), Port 0] ?svr =
      Returns s1 [PRegister req]" and release: "Server_Release s1 = Returns s2 cs" and live: "live (PRegister req # cs) {} = {}"
    "rrInstance req = instance_of (server_node fo (example_config get_xml)) (first_ipv4 ifs, int n)"
    using new by (auto simp: RegisterUserServiceHandler_keeps)
  note keeps = Server_Run_keeps [OF run]
  then have ok1: "handlers_ok s1" using example_handlers_ok [of v v' svr] by (simp add: handlers_ok_def)
  have serve: "\<exists>ms s1' s2'. server_serve evs s1 = (ms, Some s1') \<and> Server_Release s1' = Returns s2' cs \<and>
      (\<forall>g. SvTick g \<in> set evs \<longrightarrow> \<not> svCancelled s1 \<longrightarrow> ms \<noteq> [])" for evs
  proof -
    obtain ms s1' where s1': "server_serve evs s1 = (ms, Some s1')" "serving s1' = serving s1"
      "\<And>g. SvTick g \<in> set evs \<Longrightarrow> \<not> svCancelled s1 \<Longrightarrow> ms \<noteq> []"
      using server_serve_serving [OF ok1, of evs] by blast
    with Server_Release_serving [OF s1'(2) release] show ?thesis by blast
  qed
  have running: "\<not> svCancelled s1" using keeps NewServer_state(4) [OF assms(1)] by (simp add: RegisterUserServiceHandler_keeps)
  obtain s3 cs3 where s3: "Server_Run fmt (\<lambda>_. False) (Some (h, show_nat n)) (Some ifs) True [Bind (str ''0.0.0.0''), Port 0] ?svr =
      Returns s3 cs3" "svSock s3 = svSock ?svr"
    by (auto simp: Server_Run_def NewListener_def openSocket_def Let_def)
  moreover from not_listening_release [OF ready _ s3(1)] new(3) have "cs3 = []" "Server_Release s3 = RegPanics []"
    by (simp_all add: RegisterUserServiceHandler_keeps)
  moreover have "svSock ?svr = None" using NewServer_state(3) [OF assms(1)] by (simp add: RegisterUserServiceHandler_keeps)
  ultimately have idle: "server_main fo get_xml ok v v' (host False True connects evs) = MainPanics []" for connects evs
    using assms(1) new(2) by (simp add: assms(4) server_main_def PProf_def Let_def)
  have listening: "server_main fo get_xml ok v v' (host True serves connects evs) =
      (if serves \<and> (connects (metrics_producer fo (example_config get_xml)) \<or> fst (server_serve evs s1) = [])
       then MainReturns (PRegister req # cs) else MainPanics [PRegister req])" for serves connects evs
    using assms(1) new(2) keeps run serve [of evs] by (auto simp: assms(4) server_main_def PProf_def reports_panic_iff Let_def)
  have ticks: "fst (server_serve evs s1) \<noteq> []" if "SvTick g \<in> set evs" for evs g
    using serve [of evs] that running by auto
  show ?thesis
    using idle live listening ticks by (intro conjI exI [of _ req] exI [of _ cs]) auto
qed

text \<open>C27. The example's client, once \<open>NewClient\<close> has returned, never comes back from its main function, whatever its calls do, for any number of rounds.
  When a Kafka broker answers, the signal makes the deferred \<open>Destroy\<close> end the process in a fatal log message, because the registry of a client is no
  provider; its connections are not closed. When none answers, the first call's report of a metric ends the process in a panic. The
  loop counts a hundred requests a round.\<close>
theorem client_main_exits:
  assumes "NewClient fo (example_config get_xml) ok addrs
      (aReader_String fo (example_config get_xml [str ''client'', str ''group'']) (str ''basesvr'')) [] = Returns c cs"
  shows "snd (client_main fo get_xml ParseLevel ok addrs connects keys orders) =
      (if connects (metrics_producer fo (example_config get_xml)) \<or> concat orders = [] then MainExits [] else MainPanics []) \<and>
    fst (snd (snd (client_rounds orders 0 c))) = 100 * of_nat (length orders)"
proof -
  obtain l ms reqs c' where r: "client_rounds orders 0 c = (l, ms, reqs, c')" by (cases "client_rounds orders 0 c")
  note r' = client_rounds_calls [OF r]
  have "cs = []" "Client_Destroy keys c' = Exits []"
    using NewClient_registry [OF assms] r' by (simp_all add: Client_Destroy_def registry_Destroy_def registry_deregister_def)
  then show ?thesis using assms r r' by (auto simp: client_main_def reports_panic_iff Let_def)
qed

text \<open>A configuration file with the management centre's addresses only.\<close>

definition main_dom :: "nat dom" where
  "main_dom = \<lparr>domRoot = (\<lambda>a. if a = str ''gffg'' then Some 0 else None),
     domChild = (\<lambda>e a. if e = 0 \<and> a = str ''polaris'' then Some 1 else if e = 1 \<and> a = str ''addrs'' then Some 2 else None),
     domText = (\<lambda>e. if e = 2 then str ''10.0.0.1:8091'' else [])\<rparr>"

lemma main_config:
  "example_config (\<lambda>_. Some main_dom) [str ''polaris'', str ''addrs''] = ConfString (str ''10.0.0.1:8091'')"
  "example_config (\<lambda>_. Some main_dom) [str ''server'', str ''channels''] = ConfNil"
  by (simp_all add: example_config_def config_Get_def config_Init_def aXml_Get_def main_dom_def)

lemma main_NewServer:
  obtains svr cs0 where "NewServer fo (example_config (\<lambda>_. Some main_dom)) (\<lambda>_. True) [] = Returns svr cs0"
  by (simp add: NewServer_def registry_Provider_def server_options_zero_def aReader_String_def aReader_Int_def main_config main_config [simplified] Let_def)

text \<open>A host with an Ethernet address, and the run of a server on it: two ticks, and a connection between them.\<close>

definition main_host :: "bool \<Rightarrow> bool \<Rightarrow> (producer_cfg \<Rightarrow> bool) \<Rightarrow> server_ev list \<Rightarrow> host_env" where
  "main_host listens serves connects evs =
     \<lparr>hoFormat = \<lambda>_ _. [], hoListens = \<lambda>_. listens, hoSplit = Some ([], show_nat 8080),
      hoAddrs = Some [\<lparr>naIPNet = True, naLoopback = False, naIPv4 = Some (str ''10.0.0.7'')\<rparr>],
      hoAccepted = True, hoServes = \<lambda>_. serves, hoConnects = connects, hoEvents = evs\<rparr>"

abbreviation demo_main :: "(producer_cfg \<Rightarrow> bool) \<Rightarrow> main_out" where
  "demo_main connects \<equiv> server_main (undefined :: float_ops) (\<lambda>_. Some main_dom) (\<lambda>_. True) (\<lambda>_. []) (\<lambda>_. [])
     (main_host True True connects [SvTick 20, SvConnect, SvTick 21])"

theorem server_main_ends_witness:
  "\<exists>req cs. demo_main (\<lambda>_. True) = MainReturns (PRegister req # cs) \<and> demo_main (\<lambda>_. False) = MainPanics [PRegister req] \<and>
     irHost (rrInstance req) = str ''10.0.0.7'' \<and> irPort (rrInstance req) = 8080"
proof -
  obtain svr cs0 where new: "NewServer undefined (example_config (\<lambda>_. Some main_dom)) (\<lambda>_. True) [] = Returns svr cs0" by (rule main_NewServer)
  let ?ifs = "[\<lparr>naIPNet = True, naLoopback = False, naIPv4 = Some (str ''10.0.0.7'')\<rparr>]"
  have "58 \<notin> set (first_ipv4 ?ifs)" "(8080 :: nat) < 2 ^ 63" by simp_all
  note ends = server_main_ends [OF new this, of main_host "\<lambda>_ _. []" "[]" "\<lambda>_. []" "\<lambda>_. []"]
  have "main_host = (\<lambda>listens serves connects evs. \<lparr>hoFormat = \<lambda>_ _. [], hoListens = \<lambda>_. listens, hoSplit = Some ([], show_nat 8080),
      hoAddrs = Some ?ifs, hoAccepted = True, hoServes = \<lambda>_. serves, hoConnects = connects, hoEvents = evs\<rparr>)"
    by (intro ext) (simp add: main_host_def)
  from ends [OF this, THEN conjunct1] show ?thesis
  proof (elim exE conjE, intro exI conjI)
    fix req cs
    assume req: "rrInstance req = instance_of (server_node undefined (example_config (\<lambda>_. Some main_dom))) (first_ipv4 ?ifs, int 8080)"
      and yes: "\<forall>connects evs. connects (metrics_producer undefined (example_config (\<lambda>_. Some main_dom))) \<longrightarrow>
        server_main undefined (\<lambda>_. Some main_dom) (\<lambda>_. True) (\<lambda>_. []) (\<lambda>_. []) (main_host True True connects evs) = MainReturns (PRegister req # cs)"
      and no: "\<forall>connects evs g. \<not> connects (metrics_producer undefined (example_config (\<lambda>_. Some main_dom))) \<and> SvTick g \<in> set evs \<longrightarrow>
        server_main undefined (\<lambda>_. Some main_dom) (\<lambda>_. True) (\<lambda>_. []) (\<lambda>_. []) (main_host True True connects evs) = MainPanics [PRegister req]"
    show "demo_main (\<lambda>_. True) = MainReturns (PRegister req # cs)" by (rule yes [rule_format]) simp
    show "demo_main (\<lambda>_. False) = MainPanics [PRegister req]" by (rule no [rule_format, of _ 20]) simp
    show "irHost (rrInstance req) = str ''10.0.0.7''" "irPort (rrInstance req) = 8080" by (simp_all add: req instance_of_def)
  qed
qed

theorem client_main_exits_witness:
  "snd (client_main (undefined :: float_ops) (\<lambda>_. Some main_dom) (\<lambda>_. None) (\<lambda>_. True) None (\<lambda>_. True) [] [[], []]) = MainExits []"
proof -
  obtain c cs where "NewClient undefined (example_config (\<lambda>_. Some main_dom)) (\<lambda>_. True) None
      (aReader_String undefined (example_config (\<lambda>_. Some main_dom) [str ''client'', str ''group'']) (str ''basesvr'')) [] = Returns c cs"
    by (simp add: NewClient_def client_options_zero_def registry_Consumer_def aReader_String_def main_config main_config [simplified] Let_def)
  from client_main_exits [OF this, of "\<lambda>_. None" "\<lambda>_. True" "[]" "[[], []]"] show ?thesis by simp
qed

end
