(* ===== verification/Reporting.thy ===== *)
theory Reporting
  imports Monitor Server_Handle Go_Strings
begin

text \<open>
  Server and monitoring together: the reports \<open>handle\<close> makes of a request (the events of \<open>Server_Handle\<close>) are metrics in the channel of
  \<open>Monitor\<close>, whose loop collects and publishes them.
\<close>

section \<open>From reports to metrics\<close>

text \<open>The calls of the package \<open>metrics\<close>, none with an option; \<open>start\<close> is the time stamp of the request, \<open>now\<close> the clock.\<close>

fun report_metric :: "metrics_env \<Rightarrow> i64 \<Rightarrow> i64 \<Rightarrow> mev \<Rightarrow> Metric" where
  "report_metric env start now (MCounter ty value) = metrics_Counter env ty value []"
| "report_metric env start now (MCounterByAdd ty value add) = metrics_CounterByAdd env ty value add []"
| "report_metric env start now (MMethodCode name code) = metrics_MethodCode env name (show_int (sint code)) []"
| "report_metric env start now (MSummary name) = metrics_Summary env name start now []"

text \<open>A request that was handled, when it came and when it was done; and what is reported of a sequence of them. A request that ended the process is
  not one: what it reported stays in the channel.\<close>

type_synonym handled = "handle_res \<times> i64 \<times> i64"

definition request_reports :: "metrics_env \<Rightarrow> handled \<Rightarrow> Metric list" where
  "request_reports env = (\<lambda>(r, start, now). map (report_metric env start now) (hrMetrics r))"

definition reports :: "metrics_env \<Rightarrow> handled list \<Rightarrow> Metric list" where
  "reports env rs = concat (map (request_reports env) rs)"

definition was_handled :: "handled \<Rightarrow> bool" where
  "was_handled = (\<lambda>(r, start, now). hrOut r \<noteq> HCrashed \<and> (\<exists>h e packet reqs. r = Server_handle h e packet reqs))"

text \<open>The metric a consumer counts requests by.\<close>

definition recv_metric :: "metrics_env \<Rightarrow> Metric" where
  "recv_metric env = metrics_Counter env (str ''server'') (str ''recv'') []"

section \<open>Lemmas\<close>

lemma report_metric_built: "metric_built (report_metric env start now ev)"
  by (cases ev) (simp_all add: metric_built_def, blast+)

lemma report_is_recv:
  "report_metric env start now ev = recv_metric env \<longleftrightarrow> ev = MCounter (str ''server'') (str ''recv'')"
  by (cases ev) (auto simp: recv_metric_def metric_defs Let_def)

text \<open>At most five reports of a request, one of them that it came in.\<close>

definition recv_once :: "handle_res \<Rightarrow> bool" where
  "recv_once r \<longleftrightarrow>
     length (hrMetrics r) \<le> 5 \<and> length (filter (\<lambda>ev. ev = MCounter (str ''server'') (str ''recv'')) (hrMetrics r)) = 1"

lemma recv_names: "str ''panic'' \<noteq> str ''recv''" "str ''not.Call'' \<noteq> str ''recv''"
  by code_simp+

lemma recv_once_returns:
  "recv_once (handle_early [] out reqs)" "recv_once (handle_early [MCounter (str ''server'') (str ''not.Call'')] out reqs)"
  "recv_once (handle_done name reqCount code out replies)"
  using recv_names by (auto simp: recv_once_def handle_early_def handle_done_def recv_metrics_def Let_def)

lemma recv_once_call: "recv_once (handle_call e name call msg reqs)"
  by (simp add: handle_call_def handle_answer_def Let_def recv_once_returns split: call_res.split option.split)

lemma handle_recv_once: "recv_once (Server_handle h e packet reqs)"
  by (simp add: Server_handle_def recv_once_returns [simplified] recv_once_returns recv_once_call split: sum.split option.split)

lemma request_reports_handled:
  assumes "was_handled r"
  shows "length (request_reports env r) \<le> 5" "length (filter (\<lambda>it. it = recv_metric env) (request_reports env r)) = 1"
  using assms handle_recv_once by (auto simp: was_handled_def request_reports_def report_is_recv filter_map comp_def recv_once_def)

lemma reports_handled:
  "list_all was_handled rs \<Longrightarrow>
     length (reports env rs) \<le> 5 * length rs \<and> length (filter (\<lambda>it. it = recv_metric env) (reports env rs)) = length rs"
proof (induction rs)
  case (Cons r rs)
  then show ?case using request_reports_handled [of r env] by (simp add: reports_def)
qed (simp add: reports_def)

text \<open>Nobody is turned away as long as the channel has not room for more than is reported.\<close>

lemma metrics_all_pass:
  assumes "length (reported evs) \<le> MaxCh - 10" "metrics_loop evs (metrics_new pub) = Some m"
  shows "mset (gtSent (mtGate m)) + mset (gtWaiting (mtGate m)) = mset (reported evs)"
  using metricsCh.all_pass_run [OF metricsCh.gate_inv_init [OF metrics_ok_init], of "gate_evs evs"] assms(1)
  unfolding metrics_loop_gate [OF assms(2)]
  by (simp add: metrics_new_def tested_gate_evs gate_init_def metrics_full_def MaxCh_def)

text \<open>The sends and receives that are left after a run.\<close>

definition flush :: "metrics \<Rightarrow> metrics_ev list" where
  "flush m =
     replicate (length (gtWaiting (mtGate m))) (MSend 0) @
     replicate (length (chBuf (gtQueue (mtGate m))) + length (gtWaiting (mtGate m))) MRecv"

lemma flush_events:
  "reported (evs @ flush m) = reported evs" "reported (flush m @ [MTick]) = []"
  "gate_evs (flush m) = replicate (length (gtWaiting (mtGate m))) (Send 0) @
     replicate (length (chBuf (gtQueue (mtGate m))) + length (gtWaiting (mtGate m))) Take"
  "MTo it \<notin> set (flush m)"
  by (auto simp: flush_def reported_def gate_evs_def concat_replicate_trivial)

lemma flush_empties:
  assumes "metrics_loop evs (metrics_new pub) = Some m" "metrics_loop (flush m) m = Some m'" "length (reported evs) \<le> MaxCh - 10"
    and "metricsCh.gate_inv (mset (reported evs)) (mtGate m)"
  shows "gtWaiting (mtGate m') = [] \<and> chBuf (gtQueue (mtGate m')) = []"
proof -
  let ?g = "mtGate m"
  have "length (gtSent ?g) + length (gtWaiting ?g) = length (reported evs)"
    using arg_cong [OF metrics_all_pass [OF assms(3,1)], of size] by simp
  moreover have "length (chBuf (gtQueue ?g)) \<le> length (gtSent ?g)" "metrics_ok (gtQueue ?g)"
    using assms(4) by (simp_all add: metricsCh.gate_inv_def)
  ultimately show ?thesis
    using metricsCh.drains [of ?g] assms(3) metrics_loop_gate [OF assms(2)] by (simp add: flush_events)
qed

text \<open>As many metrics as the channel lets in are all published in the end: after any run, the sends, receives and the tick that are left.\<close>

lemma metrics_all_published:
  assumes "\<forall>it \<in> set (reported evs). publishable it" "length (reported evs) \<le> MaxCh - 10"
  shows "\<exists>evs' m bs. reported evs' = [] \<and> metrics_loop (evs @ evs') (metrics_new pub) = Some m \<and>
     map (\<lambda>b. Metrics_Unmarshal b Metrics_Reset) (mtSent m) = map Inr bs \<and>
     mset (concat (map msLists bs)) = mset (map Some (reported evs))"
proof -
  have pub: "\<forall>it. MTo it \<in> set evs \<longrightarrow> publishable it" using assms(1) by (force simp: reported_def)
  obtain m0 bs0 where m0: "metrics_loop evs (metrics_new pub) = Some m0" "metrics_inv m0 bs0"
    "metricsCh.gate_inv (mset (reported evs)) (mtGate m0)" using metrics_run [OF pub] by metis
  have "\<forall>it. MTo it \<in> set (flush m0) \<longrightarrow> publishable it" by (simp add: flush_events)
  from metrics_loop_inv [OF m0(2) this] obtain m1 bs1 where m1: "metrics_loop (flush m0) m0 = Some m1" "metrics_inv m1 bs1" by blast
  have run: "metrics_loop (evs @ flush m0) (metrics_new pub) = Some m1" using m0(1) m1(1) by (simp add: metrics_loop_append)
  note empty = flush_empties [OF m0(1) m1(1) assms(2) m0(3)]
  have "mset (gtSent (mtGate m1)) = mset (reported evs)"
    using metrics_all_pass [OF _ run] assms(2) empty by (simp add: flush_events)
  moreover have "\<forall>it. MTo it \<in> set (evs @ flush m0) \<longrightarrow> publishable it" using pub by (simp add: flush_events)
  from metrics_run [OF this, of pub] run have "metricsCh.gate_inv (mset (reported evs)) (mtGate m1)"
    by (metis flush_events(1) option.inject)
  ultimately have sent: "mset (gtTaken (mtGate m1)) = mset (reported evs)" using empty by (simp add: metricsCh.gate_inv_def)
  from metrics_tick [OF m1(2)] obtain sent where t: "metrics_event MTick m1 = Some (m1\<lparr>mtLists := [], mtSent := sent\<rparr>)"
    "metrics_inv (m1\<lparr>mtLists := [], mtSent := sent\<rparr>) (bs1 @ metrics_combine (mtLists m1))" by blast
  then have "map Some (gtTaken (mtGate m1)) = concat (map msLists (bs1 @ metrics_combine (mtLists m1)))"
    and buf: "map (\<lambda>b. Metrics_Unmarshal b Metrics_Reset) sent = map Inr (bs1 @ metrics_combine (mtLists m1))"
    by (simp_all add: metrics_inv_def)
  then have "mset (concat (map msLists (bs1 @ metrics_combine (mtLists m1)))) = mset (map Some (reported evs))"
    using sent by (metis mset_map)
  moreover have "metrics_loop (evs @ flush m0 @ [MTick]) (metrics_new pub) = Some (m1\<lparr>mtLists := [], mtSent := sent\<rparr>)"
    using run t(1) metrics_loop_append [of "evs @ flush m0" "[MTick]" "metrics_new pub"] by simp
  ultimately show ?thesis
    using flush_events(2) [of m0] buf
    by (intro exI [of _ "flush m0 @ [MTick]"] exI [of _ "m1\<lparr>mtLists := [], mtSent := sent\<rparr>"] exI [of _ "bs1 @ metrics_combine (mtLists m1)"]) simp
qed

section \<open>Properties\<close>

text \<open>C17. Every request that the server handles is reported, whatever becomes of it, as long as the process lives: let the server's goroutines report any
  1998 requests or fewer, none of which ended the process, interleaved in any way with the loop that collects and publishes (each metric having less than
  a petabyte). Then none of their metrics is turned away, the run can be completed so that all are published, in messages that the consumer reads back, and
  those contain exactly one metric \<open>server/recv\<close> for each request.\<close>
theorem requests_reported:
  assumes "list_all was_handled rs" "length rs \<le> 1998" "\<forall>it \<in> set (reports env rs). Metric_Size (Some it) no_ranges \<le> 2 ^ 50"
    and "mset (reported evs) = mset (reports env rs)"
  shows "\<exists>evs' m bs. reported evs' = [] \<and> metrics_loop (evs @ evs') (metrics_new pub) = Some m \<and>
     map (\<lambda>b. Metrics_Unmarshal b Metrics_Reset) (mtSent m) = map Inr bs \<and>
     mset (concat (map msLists bs)) = mset (map Some (reports env rs)) \<and>
     length (filter (\<lambda>it. it = Some (recv_metric env)) (concat (map msLists bs))) = length rs"
proof -
  have "length (reported evs) = length (reports env rs)" using assms(4) mset_eq_length by blast
  then have "length (reported evs) \<le> MaxCh - 10" using reports_handled [OF assms(1), of env] assms(2) by (simp add: MaxCh_def)
  moreover have "set (reported evs) = set (reports env rs)" using assms(4) mset_eq_setD by blast
  then have "\<forall>it \<in> set (reported evs). publishable it"
    using assms(3) report_metric_built by (auto simp: publishable_def reports_def request_reports_def)
  ultimately obtain evs' m bs where m: "reported evs' = []" "metrics_loop (evs @ evs') (metrics_new pub) = Some m"
    "map (\<lambda>b. Metrics_Unmarshal b Metrics_Reset) (mtSent m) = map Inr bs"
    "mset (concat (map msLists bs)) = mset (map Some (reported evs))" using metrics_all_published by blast
  then have all: "mset (concat (map msLists bs)) = mset (map Some (reports env rs))" using assms(4) by simp
  have "length (filter (\<lambda>it. it = Some (recv_metric env)) (concat (map msLists bs))) =
      length (filter (\<lambda>it. it = Some (recv_metric env)) (map Some (reports env rs)))"
    using all by (metis mset_filter size_mset)
  also have "\<dots> = length rs"
    using reports_handled [OF assms(1), of env] by (simp add: filter_map comp_def)
  finally show ?thesis using m(1-3) all by blast
qed

definition demo_handled :: handled where
  "demo_handled = (Server_handle None \<lparr>heLimited = \<lambda>_. False, heKs = [], heKs' = [], heWrites = []\<rparr> [] 0, 5, 7)"

lemma demo_reports:
  "reports \<lparr>mvHost = [], mvServer = []\<rparr> [demo_handled] =
     map (\<lambda>v. metrics_Counter \<lparr>mvHost = [], mvServer = []\<rparr> (str ''server'') v []) [str ''recv'', str ''panic'']"
proof -
  have "Request_Unmarshal [] Request_Reset = Inr Request_Reset" by (simp add: Request_Unmarshal_def unmarshal_with_def)
  then show ?thesis
    by (simp add: reports_def request_reports_def demo_handled_def Server_handle_def handle_early_def recv_metrics_def)
qed

lemma demo_sizes:
  "Metric_Size (Some (metrics_Counter \<lparr>mvHost = [], mvServer = []\<rparr> (str ''server'') (str ''recv'') [])) no_ranges = 20"
  "Metric_Size (Some (metrics_Counter \<lparr>mvHost = [], mvServer = []\<rparr> (str ''server'') (str ''panic'') [])) no_ranges = 21"
  by code_simp+

lemma reported_MTo: "reported (map MTo its) = its"
  by (induction its) (simp_all add: reported_def)

theorem requests_reported_witness:
  "\<exists>evs m bs. metrics_loop evs (metrics_new (kafka_opts [])) = Some m \<and> map (\<lambda>b. Metrics_Unmarshal b Metrics_Reset) (mtSent m) = map Inr bs \<and>
     length (filter (\<lambda>it. it = Some (recv_metric \<lparr>mvHost = [], mvServer = []\<rparr>)) (concat (map msLists bs))) = 1"
proof -
  have "hrOut (fst demo_handled) \<noteq> HCrashed"
    by (simp add: demo_handled_def Server_handle_def handle_early_def Request_Unmarshal_def unmarshal_with_def)
  then have "list_all was_handled [demo_handled]" by (auto simp: was_handled_def demo_handled_def)
  moreover have "\<forall>it \<in> set (reports \<lparr>mvHost = [], mvServer = []\<rparr> [demo_handled]). Metric_Size (Some it) no_ranges \<le> 2 ^ 50"
    by (simp add: demo_reports demo_sizes [simplified])
  ultimately show ?thesis
    using requests_reported [of "[demo_handled]" "\<lparr>mvHost = [], mvServer = []\<rparr>" "map MTo (reports \<lparr>mvHost = [], mvServer = []\<rparr> [demo_handled])" "kafka_opts []"]
    by (simp add: reported_MTo) blast
qed

end
