(* ===== verification/Socket.thy ===== *)
theory Socket
  imports Transport
begin

text \<open>
  The endpoints of a connection: \<open>Socket\<close> of \<open>transport/socket.go\<close> with the \<open>Request\<close> (\<open>transport/request.go\<close>) and \<open>Response\<close>
  that share its connection. Resolving an address and dialling are the network's: arguments. A connection is a number.
\<close>

section \<open>Data\<close>

record trans_request =
  trConn :: "nat option"
  trLength :: int
  trPacket :: bytes
  trStamp :: i64

record socket =
  skConn :: "nat option"
  skResponse :: "nat option"
  skRequest :: trans_request

text \<open>A \<open>Response\<close> has a mutex of its own; what that is good for is shown in \<open>Connection\<close>.\<close>

record trans_response =
  tpConn :: "nat option"
  tpStamp :: i64

definition Response_Stamp :: "trans_response \<Rightarrow> i64" where "Response_Stamp r = tpStamp r"

text \<open>What the receiving loop hands to the callback with a packet: a request, and a new \<open>Response\<close> on the same connection, with the same stamp.\<close>

definition callback_args :: "nat option \<Rightarrow> i64 \<Rightarrow> bytes \<Rightarrow> trans_request \<times> trans_response" where
  "callback_args conn stamp packet =
     (\<lparr>trConn = conn, trLength = int (length packet), trPacket = packet, trStamp = stamp\<rparr>, \<lparr>tpConn = conn, tpStamp = stamp\<rparr>)"

definition Request_Packet :: "trans_request \<Rightarrow> bytes" where "Request_Packet r = trPacket r"
definition Request_Length :: "trans_request \<Rightarrow> int" where "Request_Length r = trLength r"
definition Request_Stamp :: "trans_request \<Rightarrow> i64" where "Request_Stamp r = trStamp r"

definition socket_new :: socket where
  "socket_new = \<lparr>skConn = None, skResponse = None, skRequest = \<lparr>trConn = None, trLength = 0, trPacket = [], trStamp = 0\<rparr>\<rparr>"

section \<open>Operations\<close>

text \<open>The second component is the error; the socket is returned beside it.\<close>

definition SocketByConn :: "nat \<Rightarrow> socket \<times> bytes option" where
  "SocketByConn t =
     (let s = socket_new
      in (s\<lparr>skConn := Some t, skResponse := Some t, skRequest := (skRequest s)\<lparr>trConn := Some t\<rparr>\<rparr>, None))"

definition SocketByAddr :: "(bytes \<Rightarrow> bytes + 'a) \<Rightarrow> ('a \<Rightarrow> bytes + nat) \<Rightarrow> bytes \<Rightarrow> socket \<times> bytes option" where
  "SocketByAddr resolve dial addr =
     (let s = socket_new
      in case resolve addr of
           Inl err \<Rightarrow> (s, Some err)
         | Inr tcpAddr \<Rightarrow>
             (case dial tcpAddr of
                Inl err \<Rightarrow> (s, Some err)
              | Inr t \<Rightarrow> (s\<lparr>skConn := Some t, skResponse := Some t, skRequest := (skRequest s)\<lparr>trConn := Some t\<rparr>\<rparr>, None)))"

text \<open>\<open>Close\<close>: the connection it closes.\<close>

definition Socket_Close :: "socket \<Rightarrow> nat option" where
  "Socket_Close s = skConn s"

definition Socket_Conn :: "socket \<Rightarrow> nat option" where "Socket_Conn s = skConn s"
definition Socket_Response :: "socket \<Rightarrow> nat option" where "Socket_Response s = skResponse s"
definition Socket_Request :: "socket \<Rightarrow> trans_request" where "Socket_Request s = skRequest s"

section \<open>Lemmas\<close>

text \<open>A socket reads, writes and closes the connection that was dialled; one that was not connected has none, so that writing through
  its response sends nothing and reports no error, and closing it does nothing.\<close>

lemma SocketByAddr_connected:
  "SocketByAddr resolve dial addr = (s, err) \<Longrightarrow>
     (err = None \<longleftrightarrow> Socket_Conn s \<noteq> None) \<and> Socket_Response s = Socket_Conn s \<and> trConn (Socket_Request s) = Socket_Conn s \<and>
     Socket_Close s = Socket_Conn s"
  by (auto simp: Let_def SocketByAddr_def socket_new_def Socket_Conn_def Socket_Response_def Socket_Request_def Socket_Close_def
      split: sum.splits)

lemma unconnected_write:
  assumes "SocketByAddr resolve dial addr = (s, Some err)"
  shows "Response_Write (Socket_Response s \<noteq> None) packet ws = Some (WDone [] 0 False)"
  using SocketByAddr_connected [OF assms] by (simp add: Response_Write_def)

end
