(* ===== verification/Spec2Isabelle.thy ===== *)
theory Spec2Isabelle
  imports Wire_Types Wire_Library Connection System_Calls Example_Main Reporting Kafka Socket
begin

text \<open>
  A verification development of gffg, a framework for remote procedure calls in Go.

  \<^bold>\<open>The program.\<close> A server (\<open>server/\<close>) reads its configuration (\<open>config/\<close>), opens a listener (\<open>transport/\<close>) and registers its address
  with a management centre (\<open>registry/\<close>). Each connection has a receiving loop (\<open>Socket.onRecv\<close>) that cuts the byte stream into frames and
  hands their packets to the server, which queues them in a channel for its worker goroutines; a worker decodes a \<open>Request\<close>, calls the
  method registered under its id, and writes a framed \<open>Response\<close>. A client (\<open>client/\<close>) keeps a pool of connections for each service,
  found through the registry; \<open>Call\<close> writes a request and waits until the receiving goroutine of the connection finds its entry in
  the table \<open>callItem\<close>, or until a timeout. Generated stubs (\<open>example/protocol/usernode.micro.go\<close>) put typed messages around both
  sides. Both sides report metrics (\<open>metrics/\<close>), which one goroutine collects and publishes in batches to Kafka (\<open>kafka/\<close>). All messages
  are protocol buffers with generated codecs (\<open>proto/packet.pb.go\<close>, \<open>example/protocol/usernode.pb.go\<close>). \<open>zzlog/\<close> is the log.

  \<^bold>\<open>The theories,\<close> in the order in which they build on each other.

  \<^item> \<open>Go_Prelude\<close>: Go's types (bytes, slices, the 64-bit \<open>int\<close> and its wrap-around) and the collections of rules the proofs share;
    \<open>Go_Strings\<close>: printing and reading numbers, splitting, searching; \<open>Go_Chan\<close>: buffered channels, and the locale \<open>gated_queue\<close>, a channel whose length
    several goroutines test before they send, in steps that interleave: what is taken is what was sent, in order, and nobody blocks as long as no more
    goroutines are between their test and their send than the test keeps places in reserve. The request channel and that of the metrics interpret it.
  \<^item> The codec of \<open>packet.pb.go\<close>. \<open>Varint\<close>: \<open>encodeVarintPacket\<close>, \<open>sovPacket\<close>, the reading loops. \<open>Proto_Writer\<close>: the statements \<open>MarshalToSizedBuffer\<close> is
    made of, over a buffer filled from its end. \<open>Proto_Reader\<close>: \<open>skipPacket\<close>, the field handlers, the loop of \<open>Unmarshal\<close>. \<open>Wire_Message\<close>: the locale
    \<open>wire_message\<close>, the contract of a message's switch on the field number, with what follows for every message. \<open>Packet_Rpc\<close>, \<open>Packet_Metric_Parts\<close>,
    \<open>Packet_Metric\<close>: the seven messages, each an interpretation. \<open>Codec_Properties\<close>: round trips, termination, merging, and a panic.
    \<open>Wire_Types\<close>: what a decoder returns is a message of its type, from every input. \<open>Wire_Library\<close>: the methods \<open>XXX_Size\<close>, \<open>XXX_Marshal\<close>, \<open>XXX_Unmarshal\<close>
    through which the protobuf library uses the messages of both packages, with slices that have a capacity.
  \<^item> \<open>Usernode_Parts\<close>, \<open>Usernode_Requests\<close>: the five messages of \<open>usernode.pb.go\<close>, whose generator adds a test to the loop over a map entry;
    these decoders never panic.
  \<^item> The transport. \<open>Header\<close> (\<open>header.go\<close>): the frame header. \<open>Transport\<close> (\<open>response.go\<close>, \<open>socket.go\<close>): writing a frame, and the receiving loop, which
    refines a parser of the flat byte stream. \<open>Connection\<close> (\<open>response.go\<close>, \<open>socket.go\<close>): one direction of a connection in use, concurrent writers of packets of any size, the mutexes of their \<open>Response\<close>s, the kernel
    and the receiving loop; it refines a queue of packets. \<open>Listener\<close> (\<open>listener.go\<close>, \<open>options.go\<close>, \<open>event.go\<close>), \<open>Socket\<close> (\<open>socket.go\<close>, \<open>request.go\<close>).
  \<^item> \<open>Common\<close> (\<open>common/common.go\<close>): method ids, the Ethernet address, trace ids, the closed-channel test, unique ids. \<open>Config\<close> (\<open>config/\<close>): looking up a path
    in a document and reading the value. \<open>Registry\<close> (\<open>registry/\<close>): node options, provider and consumer, registering, withdrawing, looking up, limiting.
  \<^item> The server (\<open>server/\<close>). \<open>Server_Handle\<close>: the method table, handling one request with its two deferred functions, the reply. \<open>Server\<close>: making a server
    from the configuration, admission to the request channel, the listener's callbacks, \<open>Run\<close>, \<open>Release\<close>. \<open>Server_Lifecycle\<close>: the locale
    \<open>service_registry\<close>, the part of \<open>IRegistry\<close> a server uses, interpreted by the registry's model, and what the management centre holds over a
    server's life. \<open>Workers\<close>: the connections' goroutines in \<open>onRecv\<close> and the worker goroutines as a step relation with labels.
  \<^item> The client (\<open>client/\<close>). \<open>Pool\<close>: filling, choosing and removing connections. \<open>Client\<close>: calls, receiving goroutines and \<open>destroy\<close> over \<open>callItem\<close>, its lock
    and the calls' channels, as a step relation. \<open>Rpc_Client\<close>: \<open>NewClient\<close>, connecting, \<open>Call\<close> with its errors, \<open>Destroy\<close>.
  \<^item> \<open>Rpc\<close>: a call from end to end. \<open>Stub\<close>: the generated stubs around it, and the handler and the requests of the example programs.
  \<^item> \<open>System\<close>: any number of clients (\<open>client_step\<close>) and of servers behind one name with their workers (\<open>worker_event_step\<close>), interleaved, with the
    packets between them.
    \<open>System_Invariants\<close>: where a request is at each moment. \<open>Simulation\<close>: the locale \<open>simulation\<close>, an invariant and a map of the states from which
    refinement follows for every run. \<open>Rpc_Spec\<close>: the abstract machine of a remote procedure call (calls are made, run at most once,
    and return what is justified), and the interpretation that proves that the system refines it. \<open>System_Calls\<close>: what follows for a call.
  \<^item> \<open>Example_Main\<close> (\<open>example/client/main.go\<close>, \<open>example/server/main.go\<close>, \<open>tools/pprof.go\<close>): the programs from their start to their deferred
    calls, with what their goroutines report until the signal.
  \<^item> \<open>Kafka\<close> (\<open>kafka/\<close>), \<open>Zzlog\<close> (\<open>zzlog/\<close>). \<open>Monitor\<close> (\<open>metrics/\<close>): the object of the monitoring, which is made at the first report and panics when no Kafka broker
    answers, its channel, its loop and what is published. \<open>Reporting\<close>: what the server reports of its requests, through the monitoring.

  \<^bold>\<open>How the code is modelled.\<close> A struct is a record, an error a value of a sum or an own datatype, a panic \<open>None\<close> or a constructor of its
  own; integers that can overflow are words. What several goroutines do to shared state is a step relation (\<open>client_step\<close>, \<open>worker_event_step\<close>, \<open>system_step\<close>,
  \<open>consumer_step\<close>, \<open>connection_step\<close>) or a run over a list of events in any order (\<open>gate_run\<close>, \<open>metrics_loop\<close>, \<open>server_serve\<close>), where a step is a stretch of code in which nothing blocks; the properties are about every reachable state. The order in which Go
  ranges over a map is an argument of every function that does so, and \<open>range_order\<close> says that it visits each key once. What the kernel and the
  libraries do is an argument too: the chunks of a connection and its faults, the outcomes of writes, accepts and dials, the answers of the
  management centre (polaris), of the XML library (tinydom), of Kafka (sarama) and of zap, floating-point arithmetic, the clock and the random index.

  \<^bold>\<open>What is shown.\<close> The codecs write exactly \<open>Size\<close> bytes and read them back, whatever the orders of iteration, and end on every input. The receiving
  loop delivers the packets of a stream of frames in order, however the stream is cut, and a connection with any number of concurrent writers is a queue
  of packets, up to the first that is too large for the receiver (\<open>connection_refines_queue\<close>). No request that the server accepts is lost or handled twice
  while its workers run. A call returns only what arrived under its own id. In the system of
  clients and servers, whatever the interleaving, no call is run twice (\<open>at_most_once\<close>), a call that returns a packet returns the answer of the one run
  of its own method (\<open>system_call_returns\<close>), everything observable is a behaviour of the abstract machine (\<open>system_refines_rpc\<close>), and a call to an
  idle server can complete (\<open>system_call_completes\<close>). Put together: a call through the stubs returns exactly the
  response of the server's handler (\<open>CreateUser_returns\<close>, \<open>rpc_call_returns\<close>), and a call that is limited or fails comes back as an error
  with its code (\<open>rpc_call_fails\<close>). Run and Release leave the management centre as it was, and so does the example's
  server from its start to its end (\<open>server_main_ends\<close>). Metrics are
  published in order, none twice, and those of a server count every request it handled once (\<open>requests_reported\<close>). Where the code does not do what it means to, a theorem says what it does instead: a call that times out when
  its response arrives blocks the client, a message of twelve bytes panics a decoder, a closed listener goes on serving,
  eleven connections can block one of them at the request channel, a process that reports a metric without a Kafka broker ends, one interrupt does not end a consumer, the example's client
  ends in a fatal log message, and others.

  \<^bold>\<open>Bounds and fuel.\<close> The loops of the decoders have the length of the input as fuel; each iteration reads at least a byte or ends, so it is never used
  up (\<open>Unmarshal_terminates\<close>). Inputs are Go slices, shorter than \<open>2 ^ 63\<close>. A frame carries a packet of at most \<open>2 ^ 20\<close> bytes to the
  receiving loop (\<open>DefaultMaxMessageSize\<close>), while its header has room for less than \<open>2 ^ 27\<close>. The envelope of a call takes at most 80 bytes besides
  the trace id and the packet. A batch holds 1000 metrics (\<open>MaxPush\<close>), a pool eight connections (\<open>RPC_POOL_SIZE\<close>). The receiving loop and the accept
  loop are recursive in what the kernel hands out. The ids of a client's calls are 64 bits wide, and a theorem on runs of the system holds for fewer than
  \<open>2 ^ 64\<close> calls of each client (\<open>few_calls\<close>), after which they repeat. How many clients, connections and workers there are is not bounded.

  \<^bold>\<open>What is assumed.\<close> TCP keeps the order of a connection's bytes, so that the first packet written on a connection of \<open>System\<close> is the first to reach the
  other side (\<open>first_on\<close>); a \<open>TCPConn.Write\<close> that returns nil has written everything, as \<open>io.Writer\<close> documents, and \<open>net\<close> runs one at a time on a connection.
  In \<open>Client\<close>, \<open>Workers\<close> and \<open>System\<close> a report of a metric returns: a Kafka broker has answered the first one. \<open>Monitor\<close> and
  \<open>Example_Main\<close> say what happens otherwise.

  \<^bold>\<open>What is left.\<close> \<open>System\<close> hands whole packets over, and \<open>Connection\<close> shows what the frames of one connection come to; the two are not composed. All
  servers of \<open>System\<close> have the same settings and the same methods.

  \<^bold>\<open>Not modelled.\<close> Dialling, keep-alive and deadlines of connections, and TCP itself beyond bytes arriving in order (the network's). The requests
  of a round of the example's client run one after the other in \<open>Example_Main\<close>; how calls interleave is \<open>System\<close>'s. The standard library's profiler;
  \<open>proto/packet.micro.go\<close>, in which there is no code. In the generated codecs, the registration of the types and the compressed descriptors, and
  \<open>String\<close>, \<open>XXX_Merge\<close> and \<open>XXX_DiscardUnknown\<close>, which only call the protobuf library. Log messages are left out of
  the operations that write them.
\<close>

end
